(* ===== verification/Prelude.thy ===== *)
theory Prelude
  imports Main "HOL-Library.Word" "HOL-Library.Multiset" "HOL-Library.Sublist"
begin

text \<open>
  Shared vocabulary of the development: machine integers at their Rust widths, \<open>Result\<close> as a
  sum, the three ways a Rust call can end (normal return, unwinding panic, process abort) with
  its sequencing operator, optional wakers, decimal rendering for \<open>Display\<close>, and the generic
  lemmas the component theories share.
\<close>

section \<open>Types\<close>

type_synonym u8 = "8 word"
type_synonym u32 = "32 word"
type_synonym u64 = "64 word"
type_synonym i32 = "32 word"
type_synonym usize = "64 word"

text \<open>\<open>Result<T, E>\<close> is the sum \<open>E + T\<close>: the error on the left, the value on the right.\<close>

type_synonym ('t, 'e) rust_result = "'e + 't"

abbreviation (input) Ok :: "'t \<Rightarrow> ('t, 'e) rust_result" where
  "Ok x \<equiv> Inr x"

abbreviation (input) Err :: "'e \<Rightarrow> ('t, 'e) rust_result" where
  "Err e \<equiv> Inl e"

text \<open>A waker is compared by identity only, which is what \<open>Waker::will_wake\<close> decides.\<close>

type_synonym waker = nat

text \<open>
  The end of a call: \<open>Return\<close> is a normal return, \<open>Panic\<close> an unwinding panic (an \<open>assert!\<close> or
  \<open>expect\<close> that failed), \<open>Abort\<close> is \<open>std::process::abort\<close> with the message printed before it.
\<close>

datatype 'a exec = Return 'a | Panic string | Abort string

text \<open>The result of polling a future: \<open>Panicked\<close> carries the payload of an unwinding poll.\<close>

datatype ('a, 'p) polled = Ready 'a | Pending | Panicked 'p

section \<open>Operations\<close>

fun exec_bind :: "'a exec \<Rightarrow> ('a \<Rightarrow> 'b exec) \<Rightarrow> 'b exec" where
  "exec_bind (Return x) f = f x"
| "exec_bind (Panic m) f = Panic m"
| "exec_bind (Abort m) f = Abort m"

text \<open>\<open>Option::take\<close>: the old content, and the emptied slot.\<close>

definition option_take :: "'a option \<Rightarrow> 'a option \<times> 'a option" where
  "option_take slot = (slot, None)"

text \<open>Pushing an optional waker onto the list of wakers to call later.\<close>

definition push_waker :: "waker option \<Rightarrow> waker list \<Rightarrow> waker list" where
  "push_waker w wakes = (case w of None \<Rightarrow> wakes | Some x \<Rightarrow> wakes @ [x])"

text \<open>Decimal rendering of integers, as \<open>{}\<close> formats an \<open>i32\<close>.\<close>

definition digit_char :: "nat \<Rightarrow> char" where
  "digit_char d = char_of (48 + d)"

fun show_nat :: "nat \<Rightarrow> string" where
  "show_nat n = (if n < 10 then [digit_char n] else show_nat (n div 10) @ [digit_char (n mod 10)])"

definition show_int :: "int \<Rightarrow> string" where
  "show_int i = (if i < 0 then CHR ''-'' # show_nat (nat (- i)) else show_nat (nat i))"

definition show_i32 :: "i32 \<Rightarrow> string" where
  "show_i32 c = show_int (sint c)"

declare show_nat.simps [simp del]

text \<open>Checked and saturating machine arithmetic of the Rust standard library.\<close>

definition checked_add :: "'n::len word \<Rightarrow> 'n word \<Rightarrow> 'n word option" where
  "checked_add a b = (if unat a + unat b < 2 ^ LENGTH('n) then Some (a + b) else None)"

definition saturating_sub :: "nat \<Rightarrow> nat \<Rightarrow> nat" where
  "saturating_sub a b = (if a < b then 0 else a - b)"

text \<open>
  A \<open>HashMap\<close> is an association list with at most one entry per key; the order of the list stands
  for the unspecified iteration order. \<open>hm_insert\<close> replaces, \<open>hm_remove\<close> deletes, \<open>hm_update\<close>
  is a write through \<open>get_mut\<close>.
\<close>

type_synonym ('k, 'v) hashmap = "('k \<times> 'v) list"

definition hm_get :: "('k, 'v) hashmap \<Rightarrow> 'k \<Rightarrow> 'v option" where
  "hm_get m k = map_of m k"

definition hm_remove :: "'k \<Rightarrow> ('k, 'v) hashmap \<Rightarrow> ('k, 'v) hashmap" where
  "hm_remove k m = filter (\<lambda>(k', _). k' \<noteq> k) m"

definition hm_insert :: "'k \<Rightarrow> 'v \<Rightarrow> ('k, 'v) hashmap \<Rightarrow> ('k, 'v) hashmap" where
  "hm_insert k v m = (k, v) # hm_remove k m"

definition hm_update :: "'k \<Rightarrow> ('v \<Rightarrow> 'v) \<Rightarrow> ('k, 'v) hashmap \<Rightarrow> ('k, 'v) hashmap" where
  "hm_update k f m = map (\<lambda>(k', v). (k', if k' = k then f v else v)) m"

definition hm_contains :: "'k \<Rightarrow> ('k, 'v) hashmap \<Rightarrow> bool" where
  "hm_contains k m \<longleftrightarrow> hm_get m k \<noteq> None"

definition hm_values :: "('k, 'v) hashmap \<Rightarrow> 'v list" where
  "hm_values m = map snd m"

definition hm_wf :: "('k, 'v) hashmap \<Rightarrow> bool" where
  "hm_wf m \<longleftrightarrow> distinct (map fst m)"

text \<open>How many entries satisfy a predicate.\<close>

definition hm_count :: "('k \<Rightarrow> 'v \<Rightarrow> bool) \<Rightarrow> ('k, 'v) hashmap \<Rightarrow> nat" where
  "hm_count P m = length (filter (\<lambda>(k, v). P k v) m)"

section \<open>Collections of rewrite rules\<close>

named_theorems gate_defs \<open>unfolding the operations that run under one mutex\<close>
named_theorems ffi_defs \<open>unfolding the wrappers of the native interface\<close>

section \<open>Lemmas\<close>

lemma exec_bind_Return_iff [simp]:
  "exec_bind m f = Return y \<longleftrightarrow> (\<exists>x. m = Return x \<and> f x = Return y)"
  by (cases m) auto

lemma exec_bind_Abort_iff:
  "exec_bind m f = Abort e \<longleftrightarrow> m = Abort e \<or> (\<exists>x. m = Return x \<and> f x = Abort e)"
  by (cases m) auto

lemma exec_bind_Panic_iff:
  "exec_bind m f = Panic e \<longleftrightarrow> m = Panic e \<or> (\<exists>x. m = Return x \<and> f x = Panic e)"
  by (cases m) auto

lemma exec_bind_assoc: "exec_bind (exec_bind m f) g = exec_bind m (\<lambda>x. exec_bind (f x) g)"
  by (cases m) auto

lemma exec_bind_cong [fundef_cong]:
  "m = m' \<Longrightarrow> (\<And>x. m' = Return x \<Longrightarrow> f x = f' x) \<Longrightarrow> exec_bind m f = exec_bind m' f'"
  by (cases m') auto

lemma fst_option_take [simp]: "fst (option_take s) = s"
  and snd_option_take [simp]: "snd (option_take s) = None"
  by (simp_all add: option_take_def)

lemma ex_bool_simps [simp]: "(\<exists>b. b) = True" "(\<exists>b. \<not> b) = True"
  by blast+

subsection \<open>Hash maps\<close>

lemma hm_get_Nil [simp]: "hm_get [] k = None"
  by (simp add: hm_get_def)

lemma hm_get_Cons [simp]: "hm_get ((k, v) # m) j = (if j = k then Some v else hm_get m j)"
  by (simp add: hm_get_def)

lemma hm_get_remove [simp]: "hm_get (hm_remove k m) j = (if j = k then None else hm_get m j)"
  by (induction m) (auto simp: hm_remove_def)

lemma hm_get_insert [simp]: "hm_get (hm_insert k v m) j = (if j = k then Some v else hm_get m j)"
  by (simp add: hm_insert_def)

lemma hm_get_update [simp]:
  "hm_get (hm_update k f m) j = (if j = k then map_option f (hm_get m j) else hm_get m j)"
  by (induction m) (auto simp: hm_update_def)

lemma hm_get_None_iff: "hm_get m k = None \<longleftrightarrow> k \<notin> fst ` set m"
  by (simp add: hm_get_def map_of_eq_None_iff)

lemma hm_remove_fresh: "hm_get m k = None \<Longrightarrow> hm_remove k m = m"
  by (induction m) (auto simp: hm_remove_def split: if_splits)

lemma hm_wf_Nil [simp]: "hm_wf []"
  by (simp add: hm_wf_def)

lemma hm_wf_remove [simp]: "hm_wf m \<Longrightarrow> hm_wf (hm_remove k m)"
  by (induction m) (auto simp: hm_wf_def hm_remove_def)

lemma hm_wf_insert [simp]: "hm_wf m \<Longrightarrow> hm_wf (hm_insert k v m)"
  using hm_wf_remove [of m k] by (auto simp: hm_insert_def hm_wf_def hm_remove_def)

lemma map_fst_hm_update [simp]: "map fst (hm_update k f m) = map fst m"
  by (induction m) (auto simp: hm_update_def)

lemma hm_wf_update [simp]: "hm_wf (hm_update k f m) = hm_wf m"
  by (simp add: hm_wf_def)

lemma hm_update_Nil [simp]: "hm_update k f [] = []"
  and hm_update_Cons [simp]:
    "hm_update k f ((j, v) # m) = (j, if j = k then f v else v) # hm_update k f m"
  by (simp_all add: hm_update_def)

lemma hm_update_fresh: "hm_get m k = None \<Longrightarrow> hm_update k f m = m"
  by (induction m) (auto split: if_splits)

lemma hm_get_set: "hm_wf m \<Longrightarrow> hm_get m k = Some v \<longleftrightarrow> (k, v) \<in> set m"
  by (simp add: hm_get_def hm_wf_def)

lemma hm_get_SomeD: "hm_get m k = Some v \<Longrightarrow> (k, v) \<in> set m"
  by (simp add: hm_get_def map_of_SomeD)

lemma hm_remove_insert_fresh [simp]: "hm_get m k = None \<Longrightarrow> hm_remove k (hm_insert k v m) = m"
proof -
  assume "hm_get m k = None"
  then have "hm_remove k m = m" by (rule hm_remove_fresh)
  then show ?thesis by (simp add: hm_insert_def hm_remove_def)
qed

lemma hm_values_insert_fresh: "hm_get m k = None \<Longrightarrow> hm_values (hm_insert k v m) = v # hm_values m"
  by (simp add: hm_insert_def hm_remove_fresh hm_values_def)

lemma hm_count_Nil [simp]: "hm_count P [] = 0"
  and hm_count_Cons [simp]: "hm_count P ((k, v) # m) = (if P k v then 1 else 0) + hm_count P m"
  by (simp_all add: hm_count_def)

lemma hm_count_remove:
  "hm_wf m \<Longrightarrow> hm_get m k = Some v
    \<Longrightarrow> hm_count P m = (if P k v then 1 else 0) + hm_count P (hm_remove k m)"
proof (induction m)
  case (Cons a m)
  obtain j w where a: "a = (j, w)" by (cases a)
  show ?case
  proof (cases "j = k")
    case True
    with Cons.prems a have "hm_get m k = None" by (simp add: hm_wf_def hm_get_None_iff)
    then have "hm_remove k m = m" by (rule hm_remove_fresh)
    with True Cons.prems a show ?thesis by (simp add: hm_remove_def)
  next
    case False
    with Cons a show ?thesis by (simp add: hm_wf_def hm_remove_def)
  qed
qed simp

lemma hm_count_insert_fresh:
  "hm_get m k = None \<Longrightarrow> hm_count P (hm_insert k v m) = (if P k v then 1 else 0) + hm_count P m"
  by (simp add: hm_insert_def hm_remove_fresh)

lemma hm_count_update:
  "hm_wf m \<Longrightarrow> hm_get m k = Some v
    \<Longrightarrow> hm_count P (hm_update k f m) + (if P k v then 1 else 0)
        = (if P k (f v) then 1 else 0) + hm_count P m"
proof (induction m)
  case (Cons a m)
  obtain j w where a: "a = (j, w)" by (cases a)
  show ?case
  proof (cases "j = k")
    case True
    with Cons.prems a have "hm_get m k = None" by (simp add: hm_wf_def hm_get_None_iff)
    then have "hm_update k f m = m" by (rule hm_update_fresh)
    with True Cons.prems a show ?thesis by simp
  next
    case False
    with Cons a show ?thesis by (simp add: hm_wf_def)
  qed
qed simp

lemma hm_count_zero_iff: "hm_wf m \<Longrightarrow> hm_count P m = 0 \<longleftrightarrow> (\<forall>k v. hm_get m k = Some v \<longrightarrow> \<not> P k v)"
  by (auto simp: hm_count_def filter_empty_conv hm_get_set)

subsection \<open>Arithmetic and rendering\<close>

lemma saturating_sub_le: "saturating_sub a b \<le> a"
  by (simp add: saturating_sub_def)

lemma saturating_sub_add: "b \<le> a \<Longrightarrow> saturating_sub a b + b = a"
  by (simp add: saturating_sub_def)

lemma checked_add_Some_unat:
  fixes a b c :: "'n::len word"
  shows "checked_add a b = Some c \<Longrightarrow> unat c = unat a + unat b"
  by (auto simp: checked_add_def unat_word_ariths split: if_splits)

lemma checked_add_None_iff:
  fixes a b :: "'n::len word"
  shows "checked_add a b = None \<longleftrightarrow> 2 ^ LENGTH('n) \<le> unat a + unat b"
  by (auto simp: checked_add_def)

lemma mset_push_waker: "mset (push_waker w wakes) = mset wakes + mset_set (set_option w)"
  by (auto simp: push_waker_def split: option.splits)

lemma set_push_waker [simp]: "set (push_waker w wakes) = set wakes \<union> set_option w"
  by (auto simp: push_waker_def split: option.splits)

text \<open>Decimal digits identify the number, so two renderings agree only on equal numbers.\<close>

lemma digit_char_inj: "a < 10 \<Longrightarrow> b < 10 \<Longrightarrow> digit_char a = digit_char b \<Longrightarrow> a = b"
  by (simp add: digit_char_def of_char_eq_iff [symmetric] del: of_char_eq_iff)

end
