(* ===== verification/Nosv_Error.thy ===== *)
theory Nosv_Error
  imports Prelude
begin

text \<open>
  The error types of \<open>src/error.rs\<close>. The numeric status codes are constants of the \<open>nosv-sys\<close>
  bindings, which are not part of this repository, so they are the fields of a record that every
  definition takes as an argument. \<open>Display\<close> implementations are the strings they write.
\<close>

section \<open>Status codes of the native library\<close>

record nosv_consts =
  NOSV_SUCCESS :: i32
  NOSV_ERR_INVALID_CALLBACK :: i32
  NOSV_ERR_INVALID_METADATA_SIZE :: i32
  NOSV_ERR_INVALID_OPERATION :: i32
  NOSV_ERR_INVALID_PARAMETER :: i32
  NOSV_ERR_NOT_INITIALIZED :: i32
  NOSV_ERR_OUT_OF_MEMORY :: i32
  NOSV_ERR_OUTSIDE_TASK :: i32
  NOSV_ERR_BUSY :: i32
  NOSV_ERR_TIMEOUT :: i32

section \<open>Native errors\<close>

datatype NativeError =
    InvalidCallback
  | InvalidMetadataSize
  | InvalidOperation
  | InvalidParameter
  | NotInitialized
  | OutOfMemory
  | OutsideTask
  | Busy
  | Timeout
  | Unknown i32

definition from_code :: "'z nosv_consts_scheme \<Rightarrow> i32 \<Rightarrow> (unit, NativeError) rust_result" where
  "from_code N c =
    (if c = NOSV_SUCCESS N then Ok ()
     else Err (if c = NOSV_ERR_INVALID_CALLBACK N then InvalidCallback
       else if c = NOSV_ERR_INVALID_METADATA_SIZE N then InvalidMetadataSize
       else if c = NOSV_ERR_INVALID_OPERATION N then InvalidOperation
       else if c = NOSV_ERR_INVALID_PARAMETER N then InvalidParameter
       else if c = NOSV_ERR_NOT_INITIALIZED N then NotInitialized
       else if c = NOSV_ERR_OUT_OF_MEMORY N then OutOfMemory
       else if c = NOSV_ERR_OUTSIDE_TASK N then OutsideTask
       else if c = NOSV_ERR_BUSY N then Busy
       else if c = NOSV_ERR_TIMEOUT N then Timeout
       else Unknown c))"

fun native_code :: "'z nosv_consts_scheme \<Rightarrow> NativeError \<Rightarrow> i32" where
  "native_code N InvalidCallback = NOSV_ERR_INVALID_CALLBACK N"
| "native_code N InvalidMetadataSize = NOSV_ERR_INVALID_METADATA_SIZE N"
| "native_code N InvalidOperation = NOSV_ERR_INVALID_OPERATION N"
| "native_code N InvalidParameter = NOSV_ERR_INVALID_PARAMETER N"
| "native_code N NotInitialized = NOSV_ERR_NOT_INITIALIZED N"
| "native_code N OutOfMemory = NOSV_ERR_OUT_OF_MEMORY N"
| "native_code N OutsideTask = NOSV_ERR_OUTSIDE_TASK N"
| "native_code N Busy = NOSV_ERR_BUSY N"
| "native_code N Timeout = NOSV_ERR_TIMEOUT N"
| "native_code N (Unknown c) = c"

fun native_message :: "NativeError \<Rightarrow> string" where
  "native_message InvalidCallback = ''invalid callback''"
| "native_message InvalidMetadataSize = ''invalid metadata size''"
| "native_message InvalidOperation = ''invalid native operation''"
| "native_message InvalidParameter = ''invalid parameter''"
| "native_message NotInitialized = ''nOS-V is not initialized''"
| "native_message OutOfMemory = ''native allocation failed''"
| "native_message OutsideTask = ''operation requires a nOS-v task''"
| "native_message Busy = ''native resource is busy''"
| "native_message Timeout = ''native operation timed out''"
| "native_message (Unknown _) = ''unknown native error''"

definition native_fmt :: "'z nosv_consts_scheme \<Rightarrow> NativeError \<Rightarrow> string" where
  "native_fmt N e = native_message e @ '' (code '' @ show_i32 (native_code N e) @ '')''"

section \<open>Errors of the safe layer\<close>

datatype InvalidIoUringConfig =
    ZeroEntries
  | EntriesNotPowerOfTwo
  | ZeroReapSize
  | ZeroPollInterval
  | ZeroCompletionBuffer

fun invalid_config_fmt :: "InvalidIoUringConfig \<Rightarrow> string" where
  "invalid_config_fmt ZeroEntries = ''io_uring entries must be non-zero''"
| "invalid_config_fmt EntriesNotPowerOfTwo = ''io_uring entries must be a power of two''"
| "invalid_config_fmt ZeroReapSize = ''io_uring reap size must be non-zero''"
| "invalid_config_fmt ZeroPollInterval = ''io_uring poll interval must be non-zero''"
| "invalid_config_fmt ZeroCompletionBuffer =
     ''io_uring completion buffer limit must be non-zero''"

text \<open>\<open>std::io::Error\<close> is kept abstract as \<open>'io\<close>, with its rendering as an argument.\<close>

datatype 'io InitError =
    InitAlreadyInTask
  | InitInvalidIoUringConfig InvalidIoUringConfig
  | InitIoUring 'io
  | InitNative NativeError

datatype 'io error_source =
    SourceConfig InvalidIoUringConfig
  | SourceIo 'io
  | SourceNative NativeError

fun init_error_fmt ::
  "'z nosv_consts_scheme \<Rightarrow> ('io \<Rightarrow> string) \<Rightarrow> 'io InitError \<Rightarrow> string" where
  "init_error_fmt N io_fmt InitAlreadyInTask = ''cannot create a runtime inside a nOS-v task''"
| "init_error_fmt N io_fmt (InitInvalidIoUringConfig e) =
     ''invalid io_uring configuration: '' @ invalid_config_fmt e"
| "init_error_fmt N io_fmt (InitIoUring e) = ''io_uring initialization failed: '' @ io_fmt e"
| "init_error_fmt N io_fmt (InitNative e) = ''runtime initialization failed: '' @ native_fmt N e"

fun init_error_source :: "'io InitError \<Rightarrow> 'io error_source option" where
  "init_error_source (InitInvalidIoUringConfig e) = Some (SourceConfig e)"
| "init_error_source (InitIoUring e) = Some (SourceIo e)"
| "init_error_source (InitNative e) = Some (SourceNative e)"
| "init_error_source InitAlreadyInTask = None"

definition runtime_closed_fmt :: string where
  "runtime_closed_fmt = ''the nOS-V runtime is closed''"

datatype SpawnError = SpawnRuntimeClosed | SpawnForkedProcess | SpawnNative NativeError

fun spawn_error_fmt :: "'z nosv_consts_scheme \<Rightarrow> SpawnError \<Rightarrow> string" where
  "spawn_error_fmt N SpawnRuntimeClosed = runtime_closed_fmt"
| "spawn_error_fmt N SpawnForkedProcess = ''runtime handle was inherited across fork''"
| "spawn_error_fmt N (SpawnNative e) = ''could not spawn task: '' @ native_fmt N e"

fun spawn_error_source :: "SpawnError \<Rightarrow> 'io error_source option" where
  "spawn_error_source (SpawnNative e) = Some (SourceNative e)"
| "spawn_error_source _ = None"

datatype BlockOnError =
    BlockOnWrongThread
  | BlockOnNested
  | BlockOnAlreadyInTask
  | BlockOnForkedProcess
  | BlockOnRuntimeClosed
  | BlockOnNative NativeError

fun block_on_error_fmt :: "'z nosv_consts_scheme \<Rightarrow> BlockOnError \<Rightarrow> string" where
  "block_on_error_fmt N BlockOnWrongThread = ''block_on must run on the runtime owner thread''"
| "block_on_error_fmt N BlockOnNested = ''nested block_on is not supported''"
| "block_on_error_fmt N BlockOnAlreadyInTask = ''block_on cannot run inside a nOS-v task''"
| "block_on_error_fmt N BlockOnForkedProcess = ''runtime was inherited across fork''"
| "block_on_error_fmt N BlockOnRuntimeClosed = runtime_closed_fmt"
| "block_on_error_fmt N (BlockOnNative e) =
     ''block_on native operation failed: '' @ native_fmt N e"

datatype ShutdownError =
    ShutdownWrongThread | ShutdownForkedProcess | ShutdownNative NativeError

fun shutdown_error_fmt :: "'z nosv_consts_scheme \<Rightarrow> ShutdownError \<Rightarrow> string" where
  "shutdown_error_fmt N ShutdownWrongThread = ''runtime shutdown must run on its owner thread''"
| "shutdown_error_fmt N ShutdownForkedProcess = ''runtime was inherited across fork''"
| "shutdown_error_fmt N (ShutdownNative e) = ''runtime shutdown failed: '' @ native_fmt N e"

text \<open>A panic payload \<open>Box<dyn Any + Send>\<close> is the type parameter \<open>'p\<close>.\<close>

datatype 'p JoinError = JoinCancelled | JoinPanic 'p | JoinRuntime NativeError

definition is_cancelled :: "'p JoinError \<Rightarrow> bool" where
  "is_cancelled e = (case e of JoinCancelled \<Rightarrow> True | _ \<Rightarrow> False)"

definition is_panic :: "'p JoinError \<Rightarrow> bool" where
  "is_panic e = (case e of JoinPanic _ \<Rightarrow> True | _ \<Rightarrow> False)"

definition into_panic :: "'p JoinError \<Rightarrow> 'p option" where
  "into_panic e = (case e of JoinPanic payload \<Rightarrow> Some payload | _ \<Rightarrow> None)"

fun join_error_fmt :: "'z nosv_consts_scheme \<Rightarrow> 'p JoinError \<Rightarrow> string" where
  "join_error_fmt N JoinCancelled = ''task was cancelled''"
| "join_error_fmt N (JoinPanic _) = ''task panicked''"
| "join_error_fmt N (JoinRuntime e) = ''task failed in the native runtime: '' @ native_fmt N e"

section \<open>The codes a binding must keep apart\<close>

definition error_codes :: "'z nosv_consts_scheme \<Rightarrow> i32 list" where
  "error_codes N =
    [NOSV_ERR_INVALID_CALLBACK N, NOSV_ERR_INVALID_METADATA_SIZE N, NOSV_ERR_INVALID_OPERATION N,
     NOSV_ERR_INVALID_PARAMETER N, NOSV_ERR_NOT_INITIALIZED N, NOSV_ERR_OUT_OF_MEMORY N,
     NOSV_ERR_OUTSIDE_TASK N, NOSV_ERR_BUSY N, NOSV_ERR_TIMEOUT N]"

text \<open>An enumeration of status codes: all values different, success among none of the errors.\<close>

definition distinct_codes :: "'z nosv_consts_scheme \<Rightarrow> bool" where
  "distinct_codes N \<longleftrightarrow> distinct (NOSV_SUCCESS N # error_codes N)"

text \<open>
  A value that \<open>from_code\<close> can produce: an \<open>Unknown\<close> holds a code with no variant of its own.
\<close>

fun canonical :: "'z nosv_consts_scheme \<Rightarrow> NativeError \<Rightarrow> bool" where
  "canonical N (Unknown c) \<longleftrightarrow> c \<notin> set (NOSV_SUCCESS N # error_codes N)"
| "canonical N _ \<longleftrightarrow> True"

text \<open>The values of an example binding, used to instantiate hypotheses.\<close>

definition sample_consts :: nosv_consts where
  "sample_consts = \<lparr>NOSV_SUCCESS = 0, NOSV_ERR_INVALID_CALLBACK = -1,
     NOSV_ERR_INVALID_METADATA_SIZE = -2, NOSV_ERR_INVALID_OPERATION = -3,
     NOSV_ERR_INVALID_PARAMETER = -4, NOSV_ERR_NOT_INITIALIZED = -5,
     NOSV_ERR_OUT_OF_MEMORY = -6, NOSV_ERR_OUTSIDE_TASK = -7, NOSV_ERR_BUSY = -8,
     NOSV_ERR_TIMEOUT = -9\<rparr>"

section \<open>Translation of status codes\<close>

lemma from_code_success [simp]: "from_code N (NOSV_SUCCESS N) = Ok ()"
  by (simp add: from_code_def)

lemma from_code_Ok_iff: "from_code N c = Ok u \<longleftrightarrow> c = NOSV_SUCCESS N"
  by (auto simp: from_code_def split: if_splits)

lemma from_code_Err_code: "from_code N c = Err e \<Longrightarrow> native_code N e = c"
  by (auto simp: from_code_def split: if_splits)

lemma from_code_Err_canonical: "from_code N c = Err e \<Longrightarrow> canonical N e"
  by (auto simp: from_code_def error_codes_def split: if_splits)

lemma from_code_native_code:
  assumes "distinct_codes N" and "canonical N e"
  shows "from_code N (native_code N e) = Err e"
  using assms by (cases e) (auto simp: from_code_def distinct_codes_def error_codes_def)

lemma from_code_cases:
  obtains (success) "c = NOSV_SUCCESS N" "from_code N c = Ok ()"
  | (failure) e where "c \<noteq> NOSV_SUCCESS N" "from_code N c = Err e" "native_code N e = c"
proof (cases "from_code N c")
  case (Inl e)
  then show ?thesis
    using failure from_code_Err_code [OF Inl] from_code_Ok_iff [of N c "()"] by auto
next
  case (Inr u)
  then show ?thesis using success by (auto simp: from_code_Ok_iff)
qed

section \<open>Round trips and rendering\<close>

text \<open>
  Translating any native status and reading the code back gives the status that came in:
  success stays success and no failing status, known or unknown, is lost or changed. With
  pairwise different codes the translation also inverts \<open>code\<close>, on every error value it can
  itself produce.
\<close>

theorem native_code_roundtrip:
  assumes "distinct_codes N"
  shows "(case from_code N c of Inr _ \<Rightarrow> c = NOSV_SUCCESS N
           | Inl e \<Rightarrow> c \<noteq> NOSV_SUCCESS N \<and> native_code N e = c \<and> canonical N e)
         \<and> (canonical N e' \<longrightarrow> from_code N (native_code N e') = Err e')"
proof (cases rule: from_code_cases [of c N])
  case success
  then show ?thesis using assms by (simp add: from_code_native_code)
next
  case (failure e)
  then show ?thesis
    using assms by (simp add: from_code_native_code from_code_Err_canonical [of N c e])
qed

lemma distinct_sample: "distinct_codes sample_consts"
  by (simp add: distinct_codes_def error_codes_def sample_consts_def)

theorem native_code_roundtrip_witness:
  "distinct_codes sample_consts \<and> canonical sample_consts (Unknown 17)
   \<and> from_code sample_consts (-8) = Err Busy
   \<and> from_code sample_consts (native_code sample_consts (Unknown 17)) = Err (Unknown 17)"
proof -
  have can: "canonical sample_consts (Unknown 17)"
    by (simp add: error_codes_def sample_consts_def)
  have busy: "from_code sample_consts (-8) = Err Busy"
    by (simp add: from_code_def sample_consts_def)
  from native_code_roundtrip [OF distinct_sample, of "-8" "Unknown 17"] can
  have "from_code sample_consts (native_code sample_consts (Unknown 17)) = Err (Unknown 17)"
    by blast
  with can busy distinct_sample show ?thesis by blast
qed

end
