(* ===== verification/Ffi.thy ===== *)
theory Ffi
  imports Nosv_Error
begin

text \<open>
  The native boundary of \<open>src/ffi.rs\<close>. The C library and its bindings are outside this
  repository: each C function is a field of the record \<open>nosv\<close>, a function of the calls made so
  far (\<open>nlog\<close>) and of its arguments. Every wrapper returns its translated result together with
  the log extended by the call it made, so that the order of native calls is visible to theorems.
\<close>

section \<open>The native interface\<close>

type_synonym nosv_ptr = "64 word"

text \<open>The three bit fields of the C structure \<open>nosv_affinity_t\<close>, as its getters read them.\<close>

record nosv_affinity_t =
  aff_level :: u32
  aff_type :: u32
  aff_index :: u32

datatype native_call =
    CInit | CShutdown
  | CTypeInit string | CTypeDestroy nosv_ptr
  | CCreate nosv_ptr usize | CMetadata nosv_ptr
  | CSetPriority nosv_ptr i32 | CSetAffinity nosv_ptr nosv_affinity_t
  | CSubmit nosv_ptr u64 | CSuspend | CDestroy nosv_ptr
  | CAttach string | CPause | CYield | CSetWindow usize | CFlushWindow
  | CWaitfor u64 | CDetach

type_synonym nlog = "native_call list"

record nosv = nosv_consts +
  NOSV_SUBMIT_NONE :: u64
  NOSV_SUBMIT_DEADLINE_WAKE :: u64
  nosv_init :: "nlog \<Rightarrow> i32"
  nosv_shutdown :: "nlog \<Rightarrow> i32"
  nosv_self :: "nlog \<Rightarrow> nosv_ptr"
  nosv_type_init :: "nlog \<Rightarrow> string \<Rightarrow> i32 \<times> nosv_ptr"
  nosv_type_destroy :: "nlog \<Rightarrow> nosv_ptr \<Rightarrow> i32"
  nosv_create :: "nlog \<Rightarrow> nosv_ptr \<Rightarrow> usize \<Rightarrow> i32 \<times> nosv_ptr"
  nosv_get_task_metadata :: "nlog \<Rightarrow> nosv_ptr \<Rightarrow> nosv_ptr"
  nosv_submit :: "nlog \<Rightarrow> nosv_ptr \<Rightarrow> u64 \<Rightarrow> i32"
  nosv_suspend :: "nlog \<Rightarrow> i32"
  nosv_destroy :: "nlog \<Rightarrow> nosv_ptr \<Rightarrow> i32"
  nosv_attach :: "nlog \<Rightarrow> string \<Rightarrow> i32 \<times> nosv_ptr"
  nosv_pause :: "nlog \<Rightarrow> i32"
  nosv_yield :: "nlog \<Rightarrow> i32"
  nosv_set_submit_window_size :: "nlog \<Rightarrow> usize \<Rightarrow> i32"
  nosv_flush_submit_window :: "nlog \<Rightarrow> i32"
  nosv_waitfor :: "nlog \<Rightarrow> u64 \<Rightarrow> i32"
  nosv_detach :: "nlog \<Rightarrow> i32"
  nosv_get_current_system_cpu :: "nlog \<Rightarrow> i32"
  nosv_get_current_system_numa_node :: "nlog \<Rightarrow> i32"

type_synonym 'a ffi = "('a, NativeError) rust_result \<times> nlog"

section \<open>Non-null handles\<close>

datatype RawTask = RawTask nosv_ptr

datatype RawTaskType = RawTaskType nosv_ptr

definition raw_task_from_ptr :: "nosv_ptr \<Rightarrow> RawTask option" where
  "raw_task_from_ptr p = (if p = 0 then None else Some (RawTask p))"

fun raw_task_as_ptr :: "RawTask \<Rightarrow> nosv_ptr" where
  "raw_task_as_ptr (RawTask p) = p"

fun raw_type_as_ptr :: "RawTaskType \<Rightarrow> nosv_ptr" where
  "raw_type_as_ptr (RawTaskType p) = p"

section \<open>Wrappers\<close>

definition ffi_init :: "'z nosv_scheme \<Rightarrow> nlog \<Rightarrow> unit ffi" where
  "ffi_init N h = (from_code N (nosv_init N h), h @ [CInit])"

definition ffi_shutdown :: "'z nosv_scheme \<Rightarrow> nlog \<Rightarrow> unit ffi" where
  "ffi_shutdown N h = (from_code N (nosv_shutdown N h), h @ [CShutdown])"

definition ffi_current :: "'z nosv_scheme \<Rightarrow> nlog \<Rightarrow> RawTask option" where
  "ffi_current N h = raw_task_from_ptr (nosv_self N h)"

definition ffi_type_init :: "'z nosv_scheme \<Rightarrow> string \<Rightarrow> nlog \<Rightarrow> RawTaskType ffi" where
  "ffi_type_init N label h =
    (case nosv_type_init N h label of (status, raw) \<Rightarrow>
      (case from_code N status of
         Inl e \<Rightarrow> Err e
       | Inr _ \<Rightarrow> (if raw = 0 then Err InvalidOperation else Ok (RawTaskType raw)),
       h @ [CTypeInit label]))"

definition ffi_type_destroy :: "'z nosv_scheme \<Rightarrow> RawTaskType \<Rightarrow> nlog \<Rightarrow> unit ffi" where
  "ffi_type_destroy N tt h =
    (from_code N (nosv_type_destroy N h (raw_type_as_ptr tt)),
     h @ [CTypeDestroy (raw_type_as_ptr tt)])"

definition ffi_create :: "'z nosv_scheme \<Rightarrow> RawTaskType \<Rightarrow> usize \<Rightarrow> nlog \<Rightarrow> RawTask ffi" where
  "ffi_create N tt bytes h =
    (case nosv_create N h (raw_type_as_ptr tt) bytes of (status, raw) \<Rightarrow>
      (case from_code N status of
         Inl e \<Rightarrow> Err e
       | Inr _ \<Rightarrow> (case raw_task_from_ptr raw of
             None \<Rightarrow> Err InvalidOperation | Some t \<Rightarrow> Ok t),
       h @ [CCreate (raw_type_as_ptr tt) bytes]))"

definition ffi_metadata :: "'z nosv_scheme \<Rightarrow> RawTask \<Rightarrow> nlog \<Rightarrow> nosv_ptr ffi" where
  "ffi_metadata N t h =
    (let p = nosv_get_task_metadata N h (raw_task_as_ptr t) in
     (if p = 0 then Err InvalidMetadataSize else Ok p, h @ [CMetadata (raw_task_as_ptr t)]))"

definition ffi_set_priority :: "RawTask \<Rightarrow> i32 \<Rightarrow> nlog \<Rightarrow> nlog" where
  "ffi_set_priority t priority h = h @ [CSetPriority (raw_task_as_ptr t) priority]"

definition ffi_set_affinity :: "RawTask \<Rightarrow> nosv_affinity_t \<Rightarrow> nlog \<Rightarrow> nlog" where
  "ffi_set_affinity t affinity h = h @ [CSetAffinity (raw_task_as_ptr t) affinity]"

definition ffi_submit_with :: "'z nosv_scheme \<Rightarrow> RawTask \<Rightarrow> u64 \<Rightarrow> nlog \<Rightarrow> unit ffi" where
  "ffi_submit_with N t flags h =
    (from_code N (nosv_submit N h (raw_task_as_ptr t) flags),
     h @ [CSubmit (raw_task_as_ptr t) flags])"

definition ffi_submit :: "'z nosv_scheme \<Rightarrow> RawTask \<Rightarrow> nlog \<Rightarrow> unit ffi" where
  "ffi_submit N t h = ffi_submit_with N t (NOSV_SUBMIT_NONE N) h"

definition ffi_submit_deadline_wake :: "'z nosv_scheme \<Rightarrow> RawTask \<Rightarrow> nlog \<Rightarrow> unit ffi" where
  "ffi_submit_deadline_wake N t h = ffi_submit_with N t (NOSV_SUBMIT_DEADLINE_WAKE N) h"

definition ffi_suspend :: "'z nosv_scheme \<Rightarrow> nlog \<Rightarrow> unit ffi" where
  "ffi_suspend N h = (from_code N (nosv_suspend N h), h @ [CSuspend])"

definition ffi_destroy :: "'z nosv_scheme \<Rightarrow> RawTask \<Rightarrow> nlog \<Rightarrow> unit ffi" where
  "ffi_destroy N t h =
    (from_code N (nosv_destroy N h (raw_task_as_ptr t)), h @ [CDestroy (raw_task_as_ptr t)])"

definition ffi_attach :: "'z nosv_scheme \<Rightarrow> string \<Rightarrow> nlog \<Rightarrow> RawTask ffi" where
  "ffi_attach N label h =
    (case nosv_attach N h label of (status, raw) \<Rightarrow>
      (case from_code N status of
         Inl e \<Rightarrow> Err e
       | Inr _ \<Rightarrow> (case raw_task_from_ptr raw of
             None \<Rightarrow> Err InvalidOperation | Some t \<Rightarrow> Ok t),
       h @ [CAttach label]))"

definition ffi_pause :: "'z nosv_scheme \<Rightarrow> nlog \<Rightarrow> unit ffi" where
  "ffi_pause N h = (from_code N (nosv_pause N h), h @ [CPause])"

definition ffi_yield_now :: "'z nosv_scheme \<Rightarrow> nlog \<Rightarrow> unit ffi" where
  "ffi_yield_now N h = (from_code N (nosv_yield N h), h @ [CYield])"

definition ffi_set_submit_window_size :: "'z nosv_scheme \<Rightarrow> usize \<Rightarrow> nlog \<Rightarrow> unit ffi" where
  "ffi_set_submit_window_size N n h =
    (from_code N (nosv_set_submit_window_size N h n), h @ [CSetWindow n])"

definition ffi_flush_submit_window :: "'z nosv_scheme \<Rightarrow> nlog \<Rightarrow> unit ffi" where
  "ffi_flush_submit_window N h = (from_code N (nosv_flush_submit_window N h), h @ [CFlushWindow])"

text \<open>A duration is its number of nanoseconds; the C interface takes at most \<open>u64::MAX\<close>.\<close>

definition waitfor_nanos :: "nat \<Rightarrow> u64" where
  "waitfor_nanos duration = of_nat (min duration (2 ^ 64 - 1))"

definition ffi_waitfor :: "'z nosv_scheme \<Rightarrow> nat \<Rightarrow> nlog \<Rightarrow> unit ffi" where
  "ffi_waitfor N duration h =
    (let nanos = waitfor_nanos duration in
     (from_code N (nosv_waitfor N h nanos), h @ [CWaitfor nanos]))"

definition ffi_detach :: "'z nosv_scheme \<Rightarrow> nlog \<Rightarrow> unit ffi" where
  "ffi_detach N h = (from_code N (nosv_detach N h), h @ [CDetach])"

definition ffi_current_cpu :: "'z nosv_scheme \<Rightarrow> nlog \<Rightarrow> (i32, NativeError) rust_result" where
  "ffi_current_cpu N h =
    (let v = nosv_get_current_system_cpu N h in
     if v <s 0 then Err InvalidOperation else Ok v)"

definition ffi_current_numa_node :: "'z nosv_scheme \<Rightarrow> nlog \<Rightarrow> (i32, NativeError) rust_result" where
  "ffi_current_numa_node N h =
    (let v = nosv_get_current_system_numa_node N h in
     if v <s 0 then Err InvalidOperation else Ok v)"

section \<open>Reading a log\<close>

definition is_submit_of :: "nosv_ptr \<Rightarrow> native_call \<Rightarrow> bool" where
  "is_submit_of p c = (case c of CSubmit q _ \<Rightarrow> q = p | _ \<Rightarrow> False)"

definition is_destroy_of :: "nosv_ptr \<Rightarrow> native_call \<Rightarrow> bool" where
  "is_destroy_of p c = (case c of CDestroy q \<Rightarrow> q = p | _ \<Rightarrow> False)"

definition submits :: "nosv_ptr \<Rightarrow> nlog \<Rightarrow> nat" where
  "submits p h = length (filter (is_submit_of p) h)"

definition destroys :: "nosv_ptr \<Rightarrow> nlog \<Rightarrow> nat" where
  "destroys p h = length (filter (is_destroy_of p) h)"

text \<open>No call on a descriptor follows its destruction.\<close>

fun no_use_after_destroy :: "nosv_ptr \<Rightarrow> nlog \<Rightarrow> bool" where
  "no_use_after_destroy p [] = True"
| "no_use_after_destroy p (c # h) =
    (if is_destroy_of p c then submits p h = 0 \<and> destroys p h = 0
     else no_use_after_destroy p h)"

section \<open>A well-behaved example instance\<close>

text \<open>
  Every call succeeds, a descriptor's address is derived from the length of the log, and its
  metadata lies eight bytes behind it. Used only to instantiate hypotheses.
\<close>

definition sample_nosv :: nosv where
  "sample_nosv = nosv_consts.extend sample_consts
    \<lparr>NOSV_SUBMIT_NONE = 0, NOSV_SUBMIT_DEADLINE_WAKE = 4,
     nosv_init = (\<lambda>_. 0), nosv_shutdown = (\<lambda>_. 0), nosv_self = (\<lambda>_. 0),
     nosv_type_init = (\<lambda>h _. (0, 4096 * of_nat (length h + 1))),
     nosv_type_destroy = (\<lambda>_ _. 0),
     nosv_create = (\<lambda>h _ _. (0, 64 * of_nat (length h + 1))),
     nosv_get_task_metadata = (\<lambda>_ p. p + 8),
     nosv_submit = (\<lambda>_ _ _. 0), nosv_suspend = (\<lambda>_. 0), nosv_destroy = (\<lambda>_ _. 0),
     nosv_attach = (\<lambda>h _. (0, 64 * of_nat (length h + 1))),
     nosv_pause = (\<lambda>_. 0), nosv_yield = (\<lambda>_. 0),
     nosv_set_submit_window_size = (\<lambda>_ _. 0), nosv_flush_submit_window = (\<lambda>_. 0),
     nosv_waitfor = (\<lambda>_ _. 0), nosv_detach = (\<lambda>_. 0),
     nosv_get_current_system_cpu = (\<lambda>_. 0), nosv_get_current_system_numa_node = (\<lambda>_. 0)\<rparr>"

section \<open>Lemmas\<close>

lemmas [ffi_defs] =
  ffi_init_def ffi_shutdown_def ffi_current_def ffi_type_init_def ffi_type_destroy_def
  ffi_create_def ffi_metadata_def ffi_set_priority_def ffi_set_affinity_def ffi_submit_with_def
  ffi_submit_def ffi_submit_deadline_wake_def ffi_suspend_def ffi_destroy_def ffi_attach_def
  ffi_pause_def ffi_yield_now_def ffi_set_submit_window_size_def ffi_flush_submit_window_def
  ffi_waitfor_def ffi_detach_def

lemma raw_task_from_ptr_Some_iff [simp]:
  "raw_task_from_ptr p = Some t \<longleftrightarrow> p \<noteq> 0 \<and> t = RawTask p"
  by (auto simp: raw_task_from_ptr_def)

lemma raw_task_ptr_roundtrip:
  "raw_task_as_ptr t \<noteq> 0 \<Longrightarrow> raw_task_from_ptr (raw_task_as_ptr t) = Some t"
  by (cases t) simp

lemma submits_Nil [simp]: "submits p [] = 0"
  and destroys_Nil [simp]: "destroys p [] = 0"
  by (simp_all add: submits_def destroys_def)

lemma submits_Cons [simp]: "submits p (c # h) = (if is_submit_of p c then 1 else 0) + submits p h"
  and destroys_Cons [simp]: "destroys p (c # h) = (if is_destroy_of p c then 1 else 0) + destroys p h"
  by (simp_all add: submits_def destroys_def)

lemma submits_append [simp]: "submits p (g @ h) = submits p g + submits p h"
  and destroys_append [simp]: "destroys p (g @ h) = destroys p g + destroys p h"
  by (simp_all add: submits_def destroys_def)

lemma is_submit_of_simps [simp]:
  "is_submit_of p (CSubmit q f) \<longleftrightarrow> q = p"
  "is_submit_of p (CDestroy q) \<longleftrightarrow> False"
  "is_submit_of p CSuspend \<longleftrightarrow> False"
  "is_submit_of p (CCreate q n) \<longleftrightarrow> False"
  "is_submit_of p (CMetadata q) \<longleftrightarrow> False"
  "is_submit_of p (CSetPriority q i) \<longleftrightarrow> False"
  "is_submit_of p (CSetAffinity q a) \<longleftrightarrow> False"
  "is_submit_of p CPause \<longleftrightarrow> False"
  "is_submit_of p (CWaitfor n) \<longleftrightarrow> False"
  "is_submit_of p (CAttach l) \<longleftrightarrow> False"
  "is_submit_of p CDetach \<longleftrightarrow> False"
  by (simp_all add: is_submit_of_def)

lemma is_destroy_of_simps [simp]:
  "is_destroy_of p (CDestroy q) \<longleftrightarrow> q = p"
  "is_destroy_of p (CSubmit q f) \<longleftrightarrow> False"
  "is_destroy_of p CSuspend \<longleftrightarrow> False"
  "is_destroy_of p (CCreate q n) \<longleftrightarrow> False"
  "is_destroy_of p (CMetadata q) \<longleftrightarrow> False"
  "is_destroy_of p (CSetPriority q i) \<longleftrightarrow> False"
  "is_destroy_of p (CSetAffinity q a) \<longleftrightarrow> False"
  "is_destroy_of p CPause \<longleftrightarrow> False"
  "is_destroy_of p (CWaitfor n) \<longleftrightarrow> False"
  "is_destroy_of p (CAttach l) \<longleftrightarrow> False"
  "is_destroy_of p CDetach \<longleftrightarrow> False"
  by (simp_all add: is_destroy_of_def)

lemma no_use_after_destroy_append:
  "no_use_after_destroy p h \<Longrightarrow> destroys p h = 0 \<Longrightarrow> no_use_after_destroy p g
    \<Longrightarrow> no_use_after_destroy p (h @ g)"
  by (induction h) (auto split: if_splits)

lemma no_use_after_destroy_frame:
  "no_use_after_destroy p h \<Longrightarrow> submits p g = 0 \<Longrightarrow> destroys p g = 0
    \<Longrightarrow> no_use_after_destroy p (h @ g)"
proof (induction h)
  case Nil
  then show ?case
    by (induction g) (auto split: if_splits)
next
  case (Cons c h)
  then show ?case by (auto split: if_splits)
qed

lemma no_use_after_destroy_destroys: "no_use_after_destroy p h \<Longrightarrow> destroys p h \<le> 1"
  by (induction h) (auto split: if_splits)

lemma ffi_submit_log: "snd (ffi_submit N t h) = h @ [CSubmit (raw_task_as_ptr t) (NOSV_SUBMIT_NONE N)]"
  by (simp add: ffi_defs)

lemma ffi_destroy_log: "snd (ffi_destroy N t h) = h @ [CDestroy (raw_task_as_ptr t)]"
  by (simp add: ffi_defs)

lemma ffi_create_Ok_nonnull: "ffi_create N tt n h = (Ok t, h') \<Longrightarrow> raw_task_as_ptr t \<noteq> 0"
  by (auto simp: ffi_create_def split: prod.splits sum.splits option.splits)

lemma waitfor_nanos_exact: "duration < 2 ^ 64 \<Longrightarrow> unat (waitfor_nanos duration) = duration"
  by (simp add: waitfor_nanos_def unat_of_nat)

lemma waitfor_nanos_saturates: "2 ^ 64 \<le> duration \<Longrightarrow> waitfor_nanos duration = - 1"
proof -
  assume "2 ^ 64 \<le> duration"
  then have "min duration (2 ^ 64 - 1) = (2 ^ 64 - 1 :: nat)" by simp
  then show ?thesis by (simp add: waitfor_nanos_def)
qed

lemma sample_nosv_simps [simp]:
  "NOSV_SUCCESS sample_nosv = 0" "nosv_submit sample_nosv h p f = 0"
  "nosv_destroy sample_nosv h p = 0" "nosv_suspend sample_nosv h = 0"
  "nosv_create sample_nosv h p n = (0, 64 * of_nat (length h + 1))"
  "nosv_get_task_metadata sample_nosv h p = p + 8"
  "nosv_pause sample_nosv h = 0" "nosv_waitfor sample_nosv h n = 0"
  "nosv_self sample_nosv h = 0" "nosv_detach sample_nosv h = 0"
  "nosv_attach sample_nosv h l = (0, 64 * of_nat (length h + 1))"
  "NOSV_SUBMIT_NONE sample_nosv = 0" "NOSV_SUBMIT_DEADLINE_WAKE sample_nosv = 4"
  by (simp_all add: sample_nosv_def sample_consts_def nosv_consts.defs)

lemma from_code_sample_0 [simp]: "from_code sample_nosv 0 = Ok ()"
  using from_code_success [of sample_nosv] by simp

end
