(* ===== verification/Runtime_Core.thy ===== *)
theory Runtime_Core
  imports Ffi
begin

text \<open>
  The shared state of \<open>src/runtime.rs\<close>: \<open>Lifecycle\<close>, \<open>RuntimeState\<close> and \<open>RuntimeCore\<close>, with the
  operations every other component reaches the runtime through. The type of registered tasks is a
  parameter, instantiated by the task component. The references to the drivers that the core also
  holds are passed to the operations that use them.
\<close>

section \<open>State\<close>

datatype TaskId = TaskId u64

datatype Lifecycle = Running | Closing | Closed

datatype RuntimeClosed = RuntimeClosed

record 'tc RuntimeState =
  lifecycle :: Lifecycle
  tasks :: "(TaskId, 'tc) hashmap"

text \<open>\<open>drained\<close> counts the \<open>notify_all\<close> calls on the condition variable of that name.\<close>

record 'tc RuntimeCore =
  owner_thread :: nat
  rc_pid :: int
  task_type :: RawTaskType
  timer_type :: RawTaskType
  rc_state :: "'tc RuntimeState"
  drained :: nat
  next_task_id_counter :: u64

definition new_runtime_core ::
  "nat \<Rightarrow> int \<Rightarrow> RawTaskType \<Rightarrow> RawTaskType \<Rightarrow> 'tc RuntimeCore" where
  "new_runtime_core thread pid tt timer_tt =
    \<lparr>owner_thread = thread, rc_pid = pid, task_type = tt, timer_type = timer_tt,
     rc_state = \<lparr>lifecycle = Running, tasks = []\<rparr>, drained = 0, next_task_id_counter = 1\<rparr>"

section \<open>Operations\<close>

definition process_matches :: "'tc RuntimeCore \<Rightarrow> int \<Rightarrow> bool" where
  "process_matches core getpid \<longleftrightarrow> rc_pid core = getpid"

text \<open>\<open>fetch_add\<close> wraps at 64 bits; the abort keeps the wrapped counter from being used.\<close>

definition next_task_id :: "'tc RuntimeCore \<Rightarrow> (TaskId \<times> 'tc RuntimeCore) exec" where
  "next_task_id core =
    (let i = next_task_id_counter core; core' = core\<lparr>next_task_id_counter := i + 1\<rparr> in
     if i = - 1 then Abort ''nOS-V Rust runtime exhausted its task identifier space''
     else Return (TaskId i, core'))"

definition task_completed :: "TaskId \<Rightarrow> 'tc RuntimeCore \<Rightarrow> 'tc RuntimeCore" where
  "task_completed i core =
    (let st = (rc_state core)\<lparr>tasks := hm_remove i (tasks (rc_state core))\<rparr>;
         core' = core\<lparr>rc_state := st\<rparr>
     in if tasks st = [] then core'\<lparr>drained := Suc (drained core)\<rparr> else core')"

definition ensure_running ::
  "'tc RuntimeCore \<Rightarrow> int \<Rightarrow> (unit, RuntimeClosed) rust_result" where
  "ensure_running core getpid =
    (if \<not> process_matches core getpid \<or> lifecycle (rc_state core) \<noteq> Running
     then Err RuntimeClosed else Ok ())"

text \<open>Upgrading a weak reference and then checking, as \<open>IoHandle::ensure_running\<close> does.\<close>

definition weak_ensure_running ::
  "'tc RuntimeCore option \<Rightarrow> int \<Rightarrow> (unit, RuntimeClosed) rust_result" where
  "weak_ensure_running weak getpid =
    (case weak of None \<Rightarrow> Err RuntimeClosed | Some core \<Rightarrow> ensure_running core getpid)"

text \<open>A run of consecutive allocations, as successive spawns make them.\<close>

fun alloc_ids :: "nat \<Rightarrow> 'tc RuntimeCore \<Rightarrow> (TaskId list \<times> 'tc RuntimeCore) exec" where
  "alloc_ids 0 core = Return ([], core)"
| "alloc_ids (Suc n) core =
    exec_bind (next_task_id core) (\<lambda>(i, core).
      exec_bind (alloc_ids n core) (\<lambda>(is, core). Return (i # is, core)))"

section \<open>Lemmas\<close>

lemma ensure_running_Ok_iff:
  "ensure_running core getpid = Ok u \<longleftrightarrow>
    rc_pid core = getpid \<and> lifecycle (rc_state core) = Running"
  by (auto simp: ensure_running_def process_matches_def)

lemma next_task_id_Return:
  assumes "next_task_id core = Return (i, core')"
  shows "i = TaskId (next_task_id_counter core)"
    and "unat (next_task_id_counter core') = Suc (unat (next_task_id_counter core))"
    and "core' = core\<lparr>next_task_id_counter := next_task_id_counter core + 1\<rparr>"
proof -
  from assms have ne: "next_task_id_counter core \<noteq> - 1"
    and i: "i = TaskId (next_task_id_counter core)"
    and c: "core' = core\<lparr>next_task_id_counter := next_task_id_counter core + 1\<rparr>"
    by (auto simp: next_task_id_def Let_def split: if_splits)
  show "i = TaskId (next_task_id_counter core)" by (rule i)
  show "core' = core\<lparr>next_task_id_counter := next_task_id_counter core + 1\<rparr>" by (rule c)
  from ne have "1 + next_task_id_counter core \<noteq> 0"
    by (metis add.commute add_eq_0_iff)
  then show "unat (next_task_id_counter core') = Suc (unat (next_task_id_counter core))"
    by (simp add: c unatSuc add.commute)
qed

lemma next_task_id_aborts_iff:
  "(\<exists>m. next_task_id core = Abort m) \<longleftrightarrow> next_task_id_counter core = - 1"
  by (auto simp: next_task_id_def Let_def)

lemma alloc_ids_bounds:
  "alloc_ids n core = Return (is, core') \<Longrightarrow>
    length is = n \<and> distinct is
    \<and> unat (next_task_id_counter core') = unat (next_task_id_counter core) + n
    \<and> (\<forall>w. TaskId w \<in> set is \<longrightarrow> unat (next_task_id_counter core) \<le> unat w)"
proof (induction n arbitrary: core "is")
  case 0
  then show ?case by simp
next
  case (Suc n)
  then obtain i core1 is1 where s: "next_task_id core = Return (i, core1)"
    and r: "alloc_ids n core1 = Return (is1, core')" and "is": "is = i # is1"
    by (auto split: prod.splits)
  note step = next_task_id_Return [OF s]
  from Suc.IH [OF r] step(2) have "i \<notin> set is1"
    by (force simp: step(1))
  moreover from Suc.IH [OF r] step(2)
  have "\<forall>w. TaskId w \<in> set is1 \<longrightarrow> unat (next_task_id_counter core) \<le> unat w"
    by fastforce
  ultimately show ?case using Suc.IH [OF r] step by (simp add: "is")
qed

lemma task_completed_tasks [simp]:
  "tasks (rc_state (task_completed i core)) = hm_remove i (tasks (rc_state core))"
  by (simp add: task_completed_def Let_def)

lemma task_completed_lifecycle [simp]:
  "lifecycle (rc_state (task_completed i core)) = lifecycle (rc_state core)"
  by (simp add: task_completed_def Let_def)

lemma task_completed_notifies:
  "drained (task_completed i core) = drained core +
    (if tasks (rc_state (task_completed i core)) = [] then 1 else 0)"
  by (simp add: task_completed_def Let_def)

section \<open>Properties\<close>

text \<open>
  C5: the identifiers handed out by any number of consecutive allocations are pairwise different
  and never below the starting counter, so no registered task can be overwritten; the counter
  advances by exactly the number of allocations, that is, it never wraps silently, and an
  allocation that would wrap aborts the process instead of returning.
\<close>

theorem alloc_ids_unique:
  assumes "alloc_ids n core = Return (is, core')"
  shows "length is = n \<and> distinct is
    \<and> unat (next_task_id_counter core') = unat (next_task_id_counter core) + n
    \<and> (\<forall>w. TaskId w \<in> set is \<longrightarrow> unat (next_task_id_counter core) \<le> unat w)
    \<and> (next_task_id_counter core' = - 1
        \<longrightarrow> (\<exists>m. alloc_ids (Suc 0) core' = Abort m))"
proof -
  have "next_task_id_counter core' = - 1 \<Longrightarrow> \<exists>m. alloc_ids (Suc 0) core' = Abort m"
    by (simp add: next_task_id_def Let_def)
  then show ?thesis using alloc_ids_bounds [OF assms] by blast
qed

definition sample_core :: "unit RuntimeCore" where
  "sample_core = new_runtime_core 0 42 (RawTaskType 4096) (RawTaskType 8192)"

theorem alloc_ids_unique_witness:
  "\<exists>core'. alloc_ids 3 sample_core = Return ([TaskId 1, TaskId 2, TaskId 3], core')
     \<and> distinct [TaskId 1, TaskId 2, TaskId 3]"
proof -
  have run: "alloc_ids 3 sample_core
      = Return ([TaskId 1, TaskId 2, TaskId 3], sample_core\<lparr>next_task_id_counter := 4\<rparr>)"
    by (simp add: numeral_3_eq_3 next_task_id_def sample_core_def new_runtime_core_def Let_def)
  from alloc_ids_unique [OF run] run show ?thesis by blast
qed

end
