(* ===== verification/Task_Gate.thy ===== *)
theory Task_Gate
  imports Runtime_Core
begin

text \<open>
  The descriptor gate of \<open>src/task.rs\<close>: \<open>TerminalKind\<close>, \<open>NativePhase\<close>, \<open>NativeGate\<close> and the
  methods of \<open>TaskCore\<close>, each of which runs as one critical section under the gate's mutex. A
  method takes the gate and the log of native calls and returns both. The first arguments are the
  native interface, the runtime core that the weak reference upgrades to (\<open>None\<close> when the runtime
  is gone) and the process id of the caller.
\<close>

section \<open>State\<close>

datatype TerminalKind = TReady | TCancelled | TPanicked | TRuntimeError

datatype NativePhase = Building | Live | Terminal TerminalKind | Destroying | Destroyed

record NativeGate =
  ng_task :: "RawTask option"
  ng_phase :: NativePhase
  wake_submitted :: bool
  polling :: bool
  cancel_requested :: bool

record TaskCore =
  tc_native :: NativeGate
  tc_id :: TaskId
  tc_name :: "string option"
  tc_monitoring_cost :: u64

definition is_terminal :: "NativePhase \<Rightarrow> bool" where
  "is_terminal ph = (case ph of Terminal _ \<Rightarrow> True | _ \<Rightarrow> False)"

text \<open>The reference held by a registry entry, a waker or a handle is the task's identifier.\<close>

type_synonym runtime_ref = "TaskId RuntimeCore option"

section \<open>Operations\<close>

text \<open>The tail shared by the two submitting methods: take the descriptor out and submit it.\<close>

definition gate_submit ::
  "'z nosv_scheme \<Rightarrow> string \<Rightarrow> NativeGate \<Rightarrow> nlog \<Rightarrow> (NativeGate \<times> nlog) exec" where
  "gate_submit N failure g h =
    (case ng_task g of
       None \<Rightarrow> Abort ''live task without descriptor''
     | Some raw \<Rightarrow>
         (case ffi_submit N raw h of
            (Inl e, h') \<Rightarrow> Abort failure
          | (Inr _, h') \<Rightarrow> Return (g, h')))"

definition schedule ::
  "'z nosv_scheme \<Rightarrow> runtime_ref \<Rightarrow> int \<Rightarrow> NativeGate \<times> nlog \<Rightarrow> (NativeGate \<times> nlog) exec" where
  "schedule N rt getpid = (\<lambda>(g, h).
    (case rt of
       None \<Rightarrow> Return (g, h)
     | Some runtime \<Rightarrow>
         if \<not> process_matches runtime getpid then Return (g, h)
         else if ng_phase g \<noteq> Live \<or> wake_submitted g then Return (g, h)
         else gate_submit N ''ordinary submit failed for a live task''
                (g\<lparr>wake_submitted := True\<rparr>) h))"

definition request_abort ::
  "'z nosv_scheme \<Rightarrow> runtime_ref \<Rightarrow> int \<Rightarrow> NativeGate \<times> nlog
    \<Rightarrow> (bool \<times> NativeGate \<times> nlog) exec" where
  "request_abort N rt getpid = (\<lambda>(g, h).
    (case rt of
       None \<Rightarrow> Return (False, g, h)
     | Some runtime \<Rightarrow>
         if \<not> process_matches runtime getpid then Return (False, g, h)
         else if ng_phase g \<noteq> Live \<or> cancel_requested g then Return (False, g, h)
         else
           let g = g\<lparr>cancel_requested := True\<rparr> in
           if \<not> wake_submitted g then
             exec_bind (gate_submit N ''ordinary cancellation submit failed''
                          (g\<lparr>wake_submitted := True\<rparr>) h)
               (\<lambda>(g, h). Return (True, g, h))
           else Return (True, g, h)))"

definition start_poll :: "NativeGate \<Rightarrow> (bool \<times> NativeGate) exec" where
  "start_poll g =
    (if ng_phase g \<noteq> Live \<or> polling g then Abort ''invalid callback entry state''
     else
       let g = g\<lparr>polling := True, wake_submitted := False\<rparr> in
       if cancel_requested g
       then Return (False, g\<lparr>polling := False, ng_phase := Terminal TCancelled\<rparr>)
       else Return (True, g))"

definition finish_pending :: "NativeGate \<Rightarrow> (bool \<times> NativeGate) exec" where
  "finish_pending g =
    (if ng_phase g \<noteq> Live \<or> \<not> polling g then Abort ''invalid pending state''
     else
       let g = g\<lparr>polling := False\<rparr> in
       if cancel_requested g then Return (False, g\<lparr>ng_phase := Terminal TCancelled\<rparr>)
       else Return (True, g))"

definition finish_terminal :: "TerminalKind \<Rightarrow> NativeGate \<Rightarrow> (bool \<times> NativeGate) exec" where
  "finish_terminal kind g =
    (if ng_phase g \<noteq> Live \<or> \<not> polling g then Abort ''invalid terminal state''
     else
       let cancelled = cancel_requested g in
       Return (\<not> cancelled,
         g\<lparr>polling := False, ng_phase := Terminal (if cancelled then TCancelled else kind)\<rparr>))"

definition replace_terminal :: "TerminalKind \<Rightarrow> NativeGate \<Rightarrow> NativeGate" where
  "replace_terminal kind g =
    (if is_terminal (ng_phase g) then g\<lparr>ng_phase := Terminal kind\<rparr> else g)"

definition suspend_failed :: "NativeGate \<Rightarrow> NativeGate" where
  "suspend_failed g =
    (if ng_phase g = Live then g\<lparr>ng_phase := Terminal TRuntimeError\<rparr> else g)"

definition retire ::
  "'z nosv_scheme \<Rightarrow> NativeGate \<times> nlog
    \<Rightarrow> (unit, NativeError) rust_result \<times> NativeGate \<times> nlog" where
  "retire N = (\<lambda>(g, h).
    (if \<not> is_terminal (ng_phase g) then (Err InvalidOperation, g, h)
     else
       let g = g\<lparr>ng_phase := Destroying\<rparr> in
       case ng_task g of
         None \<Rightarrow> (Err InvalidOperation, g, h)
       | Some raw \<Rightarrow>
           let g = g\<lparr>ng_task := None\<rparr> in
           (case ffi_destroy N raw h of
              (Inl e, h) \<Rightarrow> (Err e, g, h)
            | (Inr _, h) \<Rightarrow> (Ok (), g\<lparr>ng_phase := Destroyed\<rparr>, h))))"

text \<open>\<open>AbortHandle::is_finished\<close>.\<close>

definition abort_handle_is_finished :: "NativeGate \<Rightarrow> bool" where
  "abort_handle_is_finished g \<longleftrightarrow> ng_phase g = Destroyed"

section \<open>Coalesced wakes as an interface\<close>

text \<open>
  A waker target as its callers see it: \<open>wake\<close> either submits the descriptor once and marks the
  epoch, or changes nothing; \<open>live\<close> says whether submission is still allowed and \<open>cost\<close> counts the
  native submissions made so far. A storm is any number of wakes within one poll epoch.
\<close>

fun wake_storm :: "('s \<Rightarrow> 's exec) \<Rightarrow> nat \<Rightarrow> 's \<Rightarrow> 's exec" where
  "wake_storm wake 0 s = Return s"
| "wake_storm wake (Suc n) s = exec_bind (wake s) (wake_storm wake n)"

locale coalescing_waker =
  fixes wake :: "'s \<Rightarrow> 's exec"
    and live :: "'s \<Rightarrow> bool"
    and marked :: "'s \<Rightarrow> bool"
    and cost :: "'s \<Rightarrow> nat"
  assumes wake_idle: "\<not> live s \<or> marked s \<Longrightarrow> wake s = Return s"
    and wake_submits: "live s \<Longrightarrow> \<not> marked s \<Longrightarrow> wake s = Return t
          \<Longrightarrow> marked t \<and> live t \<and> cost t = Suc (cost s)"
begin

lemma wake_storm_marked: "\<not> live s \<or> marked s \<Longrightarrow> wake_storm wake n s = Return s"
  by (induction n) (simp_all add: wake_idle)

lemma wake_storm_once:
  assumes "wake_storm wake n s = Return t"
  shows "cost t = cost s + (if live s \<and> \<not> marked s \<and> 0 < n then 1 else 0)"
proof (cases n)
  case 0
  with assms show ?thesis by simp
next
  case (Suc m)
  show ?thesis
  proof (cases "live s \<and> \<not> marked s")
    case True
    from assms Suc obtain u where u: "wake s = Return u" "wake_storm wake m u = Return t" by auto
    with True have "marked u" "cost u = Suc (cost s)" using wake_submits by auto
    with u have "t = u" by (simp add: wake_storm_marked)
    with True Suc \<open>cost u = Suc (cost s)\<close> show ?thesis by simp
  next
    case False
    with assms wake_storm_marked [of s n] show ?thesis by auto
  qed
qed

end

section \<open>Lemmas\<close>

lemmas [gate_defs] =
  gate_submit_def schedule_def request_abort_def start_poll_def finish_pending_def
  finish_terminal_def replace_terminal_def suspend_failed_def retire_def Let_def

lemma is_terminal_simps [simp]:
  "is_terminal (Terminal k)" "\<not> is_terminal Live" "\<not> is_terminal Building"
  "\<not> is_terminal Destroying" "\<not> is_terminal Destroyed"
  by (simp_all add: is_terminal_def)

lemma is_terminal_iff: "is_terminal ph \<longleftrightarrow> (\<exists>k. ph = Terminal k)"
  by (cases ph) auto

text \<open>External requests never touch a gate whose phase is not live.\<close>

lemma schedule_not_live: "ng_phase g \<noteq> Live \<Longrightarrow> schedule N rt getpid (g, h) = Return (g, h)"
  by (simp add: schedule_def split: option.split)

lemma request_abort_not_live:
  "ng_phase g \<noteq> Live \<Longrightarrow> request_abort N rt getpid (g, h) = Return (False, g, h)"
  by (simp add: request_abort_def split: option.split)

text \<open>The reachable runtime of this process, as both requests test it first.\<close>

definition rt_usable :: "runtime_ref \<Rightarrow> int \<Rightarrow> bool" where
  "rt_usable rt getpid = (case rt of None \<Rightarrow> False | Some core \<Rightarrow> process_matches core getpid)"

lemma schedule_unusable: "\<not> rt_usable rt getpid \<Longrightarrow> schedule N rt getpid (g, h) = Return (g, h)"
  by (simp add: schedule_def rt_usable_def split: option.splits)

lemma schedule_live_eq:
  "rt_usable rt getpid \<Longrightarrow> ng_phase g = Live \<Longrightarrow> \<not> wake_submitted g
    \<Longrightarrow> schedule N rt getpid (g, h)
        = gate_submit N ''ordinary submit failed for a live task'' (g\<lparr>wake_submitted := True\<rparr>) h"
  by (auto simp: schedule_def rt_usable_def split: option.splits)

lemma schedule_Return_iff:
  "schedule N rt getpid (g, h) = Return (g', h') \<longleftrightarrow>
    (if rt_usable rt getpid \<and> ng_phase g = Live \<and> \<not> wake_submitted g
     then \<exists>raw. ng_task g = Some raw \<and> fst (ffi_submit N raw h) = Ok ()
        \<and> g' = g\<lparr>wake_submitted := True\<rparr> \<and> h' = snd (ffi_submit N raw h)
     else g' = g \<and> h' = h)"
  by (auto simp: schedule_def gate_submit_def rt_usable_def split: option.splits prod.splits sum.splits)

lemma request_abort_Return_iff:
  "request_abort N rt getpid (g, h) = Return (b, g', h') \<longleftrightarrow>
    (if rt_usable rt getpid \<and> ng_phase g = Live \<and> \<not> cancel_requested g
     then b \<and> (if wake_submitted g then g' = g\<lparr>cancel_requested := True\<rparr> \<and> h' = h
       else \<exists>raw. ng_task g = Some raw \<and> fst (ffi_submit N raw h) = Ok ()
          \<and> g' = g\<lparr>cancel_requested := True, wake_submitted := True\<rparr>
          \<and> h' = snd (ffi_submit N raw h))
     else \<not> b \<and> g' = g \<and> h' = h)"
  by (auto simp: request_abort_def gate_submit_def rt_usable_def Let_def
      split: option.splits prod.splits sum.splits)

text \<open>Only a missing descriptor or a rejected submission can abort the process here.\<close>

lemma schedule_no_abort:
  assumes "ng_phase g = Live \<Longrightarrow> \<exists>raw. ng_task g = Some raw \<and> fst (ffi_submit N raw h) = Ok ()"
  shows "\<exists>g' h'. schedule N rt getpid (g, h) = Return (g', h')"
  using assms
  by (auto simp: schedule_def gate_submit_def split: option.splits prod.splits sum.splits)

lemma request_abort_no_abort:
  assumes "ng_phase g = Live \<Longrightarrow> \<exists>raw. ng_task g = Some raw \<and> fst (ffi_submit N raw h) = Ok ()"
  shows "\<exists>b g' h'. request_abort N rt getpid (g, h) = Return (b, g', h')"
  using assms
  by (auto simp: request_abort_def gate_submit_def Let_def
      split: option.splits prod.splits sum.splits)

lemma start_poll_Return_iff:
  "start_poll g = Return (b, g') \<longleftrightarrow>
    ng_phase g = Live \<and> \<not> polling g \<and> b = (\<not> cancel_requested g)
    \<and> g' = (if cancel_requested g
        then g\<lparr>wake_submitted := False, polling := False, ng_phase := Terminal TCancelled\<rparr>
        else g\<lparr>wake_submitted := False, polling := True\<rparr>)"
  by (auto simp: start_poll_def Let_def)

lemma finish_pending_Return_iff:
  "finish_pending g = Return (b, g') \<longleftrightarrow>
    ng_phase g = Live \<and> polling g \<and> b = (\<not> cancel_requested g)
    \<and> g' = (if cancel_requested g then g\<lparr>polling := False, ng_phase := Terminal TCancelled\<rparr>
        else g\<lparr>polling := False\<rparr>)"
  by (auto simp: finish_pending_def Let_def)

lemma finish_terminal_Return_iff:
  "finish_terminal k g = Return (b, g') \<longleftrightarrow>
    ng_phase g = Live \<and> polling g \<and> b = (\<not> cancel_requested g)
    \<and> g' = g\<lparr>polling := False, ng_phase := Terminal (if cancel_requested g then TCancelled else k)\<rparr>"
  by (auto simp: finish_terminal_def Let_def)

lemma retire_Ok_iff:
  "retire N (g, h) = (Ok u, g', h') \<longleftrightarrow>
    is_terminal (ng_phase g) \<and> (\<exists>raw. ng_task g = Some raw \<and> fst (ffi_destroy N raw h) = Ok ()
      \<and> g' = g\<lparr>ng_task := None, ng_phase := Destroyed\<rparr> \<and> h' = snd (ffi_destroy N raw h))"
  by (auto simp: retire_def Let_def split: option.splits prod.splits sum.splits)

text \<open>The descriptor of a gate, for counting its submissions in the log.\<close>

definition gate_cost :: "nosv_ptr \<Rightarrow> NativeGate \<times> nlog \<Rightarrow> nat" where
  "gate_cost p = (\<lambda>(g, h). submits p h)"

definition gate_live :: "nosv_ptr \<Rightarrow> runtime_ref \<Rightarrow> int \<Rightarrow> NativeGate \<times> nlog \<Rightarrow> bool" where
  "gate_live p rt getpid = (\<lambda>(g, h).
    rt_usable rt getpid \<and> ng_phase g = Live \<and> ng_task g = Some (RawTask p))"

definition gate_marked :: "nosv_ptr \<Rightarrow> NativeGate \<times> nlog \<Rightarrow> bool" where
  "gate_marked p = (\<lambda>(g, h). wake_submitted g)"

text \<open>
  \<open>schedule\<close> restricted to gates of one descriptor: other gates are outside the interface.
\<close>

definition wake_task ::
  "'z nosv_scheme \<Rightarrow> nosv_ptr \<Rightarrow> runtime_ref \<Rightarrow> int \<Rightarrow> NativeGate \<times> nlog \<Rightarrow> (NativeGate \<times> nlog) exec"
  where
  "wake_task N p rt getpid = (\<lambda>(g, h).
    if ng_task g = Some (RawTask p) then schedule N rt getpid (g, h) else Return (g, h))"

interpretation task_waker:
  coalescing_waker "wake_task N p rt getpid" "gate_live p rt getpid" "gate_marked p" "gate_cost p"
  for N p rt getpid
proof unfold_locales
  fix s :: "NativeGate \<times> nlog"
  assume "\<not> gate_live p rt getpid s \<or> gate_marked p s"
  then show "wake_task N p rt getpid s = Return s"
    by (auto simp: wake_task_def gate_live_def gate_marked_def schedule_def rt_usable_def
        split: option.splits prod.splits)
next
  fix s t :: "NativeGate \<times> nlog"
  assume "gate_live p rt getpid s" "\<not> gate_marked p s" "wake_task N p rt getpid s = Return t"
  then show "gate_marked p t \<and> gate_live p rt getpid t \<and> gate_cost p t = Suc (gate_cost p s)"
    by (cases s; cases t)
      (auto simp: wake_task_def gate_live_def gate_marked_def gate_cost_def schedule_Return_iff
        ffi_defs)
qed

end
