(* ===== verification/Join_State.thy ===== *)
theory Join_State
  imports Nosv_Error
begin

text \<open>
  The join cell of \<open>src/task.rs\<close>: \<open>JoinInner\<close>, the methods of \<open>JoinState\<close> and the polling side,
  \<open>JoinHandle::poll\<close> and \<open>JoinHandle::is_finished\<close>. Each method is one critical section. The waker
  that \<open>publish\<close> calls after unlocking is returned. The interface between a producer that completes
  once and a consumer that polls with changing wakers is the locale \<open>wake_cell\<close>; the timer
  component implements it a second time.
\<close>

section \<open>State\<close>

record ('a, 'p) JoinInner =
  jn_result :: "('a, 'p JoinError) rust_result option"
  native_completed :: bool
  jn_waiter :: "waker option"
  consumed :: bool

definition join_new :: "('a, 'p) JoinInner" where
  "join_new = \<lparr>jn_result = None, native_completed = False, jn_waiter = None, consumed = False\<rparr>"

section \<open>Operations\<close>

definition join_store ::
  "('a, 'p JoinError) rust_result \<Rightarrow> ('a, 'p) JoinInner \<Rightarrow> ('a, 'p) JoinInner exec" where
  "join_store r inner =
    (if jn_result inner \<noteq> None then Abort ''task result stored twice''
     else Return (inner\<lparr>jn_result := Some r\<rparr>))"

definition replace_error_if_unpublished ::
  "'p JoinError \<Rightarrow> ('a, 'p) JoinInner \<Rightarrow> ('a, 'p) JoinInner" where
  "replace_error_if_unpublished e inner =
    (if \<not> native_completed inner then inner\<lparr>jn_result := Some (Err e)\<rparr> else inner)"

definition join_publish :: "('a, 'p) JoinInner \<Rightarrow> waker option \<times> ('a, 'p) JoinInner" where
  "join_publish inner =
    (let inner = (if jn_result inner = None
                  then inner\<lparr>jn_result := Some (Err (JoinRuntime InvalidOperation))\<rparr> else inner);
         inner = inner\<lparr>native_completed := True\<rparr>;
         (waiter, slot) = option_take (jn_waiter inner)
     in (waiter, inner\<lparr>jn_waiter := slot\<rparr>))"

definition join_poll ::
  "waker \<Rightarrow> ('a, 'p) JoinInner
    \<Rightarrow> ((('a, 'p JoinError) rust_result, 'p) polled \<times> ('a, 'p) JoinInner) exec" where
  "join_poll w inner =
    (if consumed inner then Panic ''JoinHandle polled after completion''
     else if native_completed inner then
       let inner = inner\<lparr>consumed := True\<rparr>;
           (r, slot) = option_take (jn_result inner)
       in Return (Ready (case r of Some x \<Rightarrow> x | None \<Rightarrow> Err (JoinRuntime InvalidOperation)),
                  inner\<lparr>jn_result := slot\<rparr>)
     else if (case jn_waiter inner of None \<Rightarrow> True | Some old \<Rightarrow> old \<noteq> w)
       then Return (Pending, inner\<lparr>jn_waiter := Some w\<rparr>)
       else Return (Pending, inner))"

definition join_is_finished :: "('a, 'p) JoinInner \<Rightarrow> bool" where
  "join_is_finished inner = native_completed inner"

section \<open>A cell polled by one consumer and completed by one producer\<close>

text \<open>
  The laws a consumer of such a cell relies on: before completion every poll is pending and leaves
  its own waker registered, whatever waker was there; completion hands out the registered waker;
  after completion the next poll is ready. A consumer polls once for every waker of a list.
\<close>

fun poll_all ::
  "(waker \<Rightarrow> 's \<Rightarrow> (('r, 'p) polled \<times> 's) exec) \<Rightarrow> waker list \<Rightarrow> 's \<Rightarrow> 's exec" where
  "poll_all poll [] s = Return s"
| "poll_all poll (w # ws) s = exec_bind (poll w s) (\<lambda>(_, t). poll_all poll ws t)"

locale wake_cell =
  fixes poll :: "waker \<Rightarrow> 's \<Rightarrow> (('r, 'p) polled \<times> 's) exec"
    and complete :: "'s \<Rightarrow> waker option \<times> 's"
    and open_cell :: "'s \<Rightarrow> bool"
    and filled :: "'s \<Rightarrow> bool"
    and registered :: "'s \<Rightarrow> waker option"
  assumes poll_open: "open_cell s
      \<Longrightarrow> \<exists>t. poll w s = Return (Pending, t) \<and> open_cell t \<and> registered t = Some w"
    and complete_open: "open_cell s
      \<Longrightarrow> fst (complete s) = registered s \<and> filled (snd (complete s))"
    and poll_filled: "filled s \<Longrightarrow> \<exists>r t. poll w s = Return (Ready r, t)"
begin

lemma poll_all_registers:
  "open_cell s \<Longrightarrow> \<exists>t. poll_all poll ws s = Return t \<and> open_cell t
      \<and> registered t = (if ws = [] then registered s else Some (last ws))"
proof (induction ws arbitrary: s)
  case (Cons w ws)
  from poll_open [OF Cons.prems, of w] obtain u
    where u: "poll w s = Return (Pending, u)" "open_cell u" "registered u = Some w" by blast
  from Cons.IH [OF u(2)] u show ?case by auto
qed simp

lemma no_lost_completion:
  assumes "open_cell s" and "ws \<noteq> []"
  shows "\<exists>t. poll_all poll ws s = Return t \<and> fst (complete t) = Some (last ws)
      \<and> (\<exists>r v. poll w (snd (complete t)) = Return (Ready r, v))"
proof -
  from poll_all_registers [OF assms(1), of ws] assms(2) obtain t
    where t: "poll_all poll ws s = Return t" "open_cell t" "registered t = Some (last ws)" by auto
  from complete_open [OF t(2)] t(3)
  have "fst (complete t) = Some (last ws)" "filled (snd (complete t))" by auto
  with poll_filled t(1) show ?thesis by blast
qed

end

section \<open>Lemmas\<close>

lemma join_store_Return_iff:
  "join_store r j = Return j' \<longleftrightarrow> jn_result j = None \<and> j' = j\<lparr>jn_result := Some r\<rparr>"
  by (auto simp: join_store_def)

lemma join_publish_simps [simp]:
  "native_completed (snd (join_publish j))"
  "jn_waiter (snd (join_publish j)) = None"
  "fst (join_publish j) = jn_waiter j"
  "consumed (snd (join_publish j)) = consumed j"
  "jn_result (snd (join_publish j)) = Some (case jn_result j of
      Some r \<Rightarrow> r | None \<Rightarrow> Err (JoinRuntime InvalidOperation))"
  by (auto simp: join_publish_def option_take_def split: option.splits)

lemma join_poll_open:
  "\<not> consumed j \<Longrightarrow> \<not> native_completed j
    \<Longrightarrow> join_poll w j = Return (Pending, j\<lparr>jn_waiter := Some w\<rparr>)"
  by (cases j) (auto simp: join_poll_def split: option.splits)

lemma join_poll_filled:
  "\<not> consumed j \<Longrightarrow> native_completed j
    \<Longrightarrow> join_poll w j = Return (Ready (case jn_result j of Some x \<Rightarrow> x
          | None \<Rightarrow> Err (JoinRuntime InvalidOperation)), j\<lparr>consumed := True, jn_result := None\<rparr>)"
  by (simp add: join_poll_def option_take_def)

definition join_open :: "('a, 'p) JoinInner \<Rightarrow> bool" where
  "join_open j \<longleftrightarrow> \<not> consumed j \<and> \<not> native_completed j"

definition join_filled :: "('a, 'p) JoinInner \<Rightarrow> bool" where
  "join_filled j \<longleftrightarrow> \<not> consumed j \<and> native_completed j"

interpretation join_cell:
  wake_cell join_poll join_publish join_open join_filled jn_waiter
  by unfold_locales (auto simp: join_open_def join_filled_def join_poll_open join_poll_filled)

section \<open>Properties\<close>

text \<open>
  C4: a joiner that keeps polling before publication, with any sequence of wakers, is always told
  to wait; the publication then wakes exactly the waker of its last poll, and the poll after it
  returns the stored outcome (a runtime error when none was stored) exactly once: one more poll
  panics as documented.
\<close>

theorem join_wakes_last_and_delivers_once:
  assumes "join_open j" and "ws \<noteq> []"
  shows "\<exists>t. poll_all join_poll ws j = Return t
    \<and> fst (join_publish t) = Some (last ws)
    \<and> (\<exists>v. join_poll w (snd (join_publish t))
            = Return (Ready (case jn_result t of Some x \<Rightarrow> x
                | None \<Rightarrow> Err (JoinRuntime InvalidOperation)), v)
         \<and> join_poll w' v = Panic ''JoinHandle polled after completion'')"
proof -
  from join_cell.poll_all_registers [OF assms(1), of ws] assms(2)
  obtain t where t: "poll_all join_poll ws j = Return t" "join_open t" "jn_waiter t = Some (last ws)"
    by auto
  then have "\<not> consumed (snd (join_publish t))" by (simp add: join_open_def)
  then have "join_poll w (snd (join_publish t)) = Return (Ready (case jn_result t of Some x \<Rightarrow> x
                | None \<Rightarrow> Err (JoinRuntime InvalidOperation)),
      (snd (join_publish t))\<lparr>consumed := True, jn_result := None\<rparr>)"
    by (simp add: join_poll_filled)
  moreover have "join_poll w' ((snd (join_publish t))\<lparr>consumed := True, jn_result := None\<rparr>)
      = Panic ''JoinHandle polled after completion''"
    by (simp add: join_poll_def)
  ultimately show ?thesis using t by auto
qed

theorem join_wakes_last_and_delivers_once_witness:
  "\<exists>t. poll_all join_poll [7, 9, 9] (join_new\<lparr>jn_result := Some (Ok (5::nat))\<rparr>) = Return t
    \<and> fst (join_publish t) = Some 9
    \<and> (\<exists>v. join_poll 9 (snd (join_publish t)) = Return (Ready (Ok (5::nat)), v
        :: (nat, unit) JoinInner))"
proof -
  let ?j = "join_new\<lparr>jn_result := Some (Ok 5)\<rparr> :: (nat, unit) JoinInner"
  have o: "join_open ?j" by (simp add: join_open_def join_new_def)
  from join_wakes_last_and_delivers_once [OF o, of "[7, 9, 9]" 9 9]
  obtain t v where t: "poll_all join_poll [7, 9, 9] ?j = Return t" "fst (join_publish t) = Some 9"
    "join_poll 9 (snd (join_publish t)) = Return (Ready (case jn_result t of Some x \<Rightarrow> x
                | None \<Rightarrow> Err (JoinRuntime InvalidOperation)), v)" by auto
  from t(1) have "jn_result t = Some (Ok 5)"
    by (auto simp: join_poll_def join_new_def)
  with t show ?thesis by auto
qed

end
