(* ===== verification/Task_Run.thy ===== *)
theory Task_Run
  imports Task_Gate Join_State
begin

text \<open>
  The run side of \<open>src/task.rs\<close>: \<open>Runnable\<close> with its methods. \<open>run_once\<close> is the composition of the
  segments \<open>run_start\<close>, the poll of the user's future, \<open>run_polled\<close> and \<open>run_suspend\<close>, in the order
  of the source; between the segments the task has released its mutexes, so requests of other
  threads (\<open>ext_req\<close>) may run there. Inside a segment no other thread can change what the segment
  reads: a segment either holds the gate or has already moved it out of the live phase.
\<close>

section \<open>State\<close>

text \<open>
  The user's future is a parameter: one poll maps its state to an outcome and a next state, and
  dropping it may unwind with a payload.
\<close>

record ('f, 'a, 'p) user_future =
  uf_poll :: "'f \<Rightarrow> ('a, 'p) polled \<times> 'f"
  uf_drop :: "'f \<Rightarrow> 'p option"

record ('f, 'a, 'p) Runnable =
  rn_core :: TaskCore
  rn_future :: "'f option"
  rn_join :: "('a, 'p) JoinInner"

abbreviation rn_gate :: "('f, 'a, 'p) Runnable \<Rightarrow> NativeGate" where
  "rn_gate c \<equiv> tc_native (rn_core c)"

definition set_gate :: "NativeGate \<Rightarrow> ('f, 'a, 'p) Runnable \<Rightarrow> ('f, 'a, 'p) Runnable" where
  "set_gate g c = c\<lparr>rn_core := (rn_core c)\<lparr>tc_native := g\<rparr>\<rparr>"

section \<open>Requests of other threads\<close>

datatype ext_req = ExtWake | ExtAbort

fun ext_step ::
  "'z nosv_scheme \<Rightarrow> runtime_ref \<Rightarrow> int \<Rightarrow> ext_req \<Rightarrow> NativeGate \<times> nlog \<Rightarrow> (NativeGate \<times> nlog) exec"
  where
  "ext_step N rt getpid ExtWake s = schedule N rt getpid s"
| "ext_step N rt getpid ExtAbort s =
    exec_bind (request_abort N rt getpid s) (\<lambda>(_, g, h). Return (g, h))"

fun ext_run ::
  "'z nosv_scheme \<Rightarrow> runtime_ref \<Rightarrow> int \<Rightarrow> ext_req list \<Rightarrow> NativeGate \<times> nlog
    \<Rightarrow> (NativeGate \<times> nlog) exec" where
  "ext_run N rt getpid [] s = Return s"
| "ext_run N rt getpid (r # rs) s = exec_bind (ext_step N rt getpid r s) (ext_run N rt getpid rs)"

section \<open>Operations\<close>

definition take_and_drop_future ::
  "('f, 'a, 'p) user_future \<Rightarrow> ('f, 'a, 'p) Runnable \<Rightarrow> 'p option \<times> ('f, 'a, 'p) Runnable" where
  "take_and_drop_future U c =
    (let (future, slot) = option_take (rn_future c); c = c\<lparr>rn_future := slot\<rparr> in
     (case future of None \<Rightarrow> (None, c) | Some f \<Rightarrow> (uf_drop U f, c)))"

definition store_result ::
  "('a, 'p JoinError) rust_result \<Rightarrow> ('f, 'a, 'p) Runnable \<Rightarrow> ('f, 'a, 'p) Runnable exec" where
  "store_result r c = exec_bind (join_store r (rn_join c)) (\<lambda>j. Return (c\<lparr>rn_join := j\<rparr>))"

definition terminal_cancelled ::
  "('f, 'a, 'p) user_future \<Rightarrow> ('f, 'a, 'p) Runnable \<Rightarrow> ('f, 'a, 'p) Runnable exec" where
  "terminal_cancelled U c =
    (case take_and_drop_future U c of (_, c) \<Rightarrow> store_result (Err JoinCancelled) c)"

text \<open>Up to the poll; the flag says whether the future is polled.\<close>

definition run_start ::
  "('f, 'a, 'p) user_future \<Rightarrow> runtime_ref \<Rightarrow> ('f, 'a, 'p) Runnable
    \<Rightarrow> (bool \<times> ('f, 'a, 'p) Runnable) exec" where
  "run_start U rt c =
    exec_bind (start_poll (rn_gate c)) (\<lambda>(go, g).
      let c = set_gate g c in
      if \<not> go then exec_bind (terminal_cancelled U c) (\<lambda>c. Return (False, c))
      else if rt = None then
        exec_bind (finish_terminal TRuntimeError (rn_gate c)) (\<lambda>(_, g).
          case take_and_drop_future U (set_gate g c) of (_, c) \<Rightarrow>
            exec_bind (store_result (Err (JoinRuntime InvalidOperation)) c)
              (\<lambda>c. Return (False, c)))
      else if rn_future c = None then Abort ''future missing during poll''
      else Return (True, c))"

text \<open>The poll itself, with the future's mutex held.\<close>

definition run_poll ::
  "('f, 'a, 'p) user_future \<Rightarrow> ('f, 'a, 'p) Runnable \<Rightarrow> ('a, 'p) polled \<times> ('f, 'a, 'p) Runnable" where
  "run_poll U c =
    (case rn_future c of
       None \<Rightarrow> (Pending, c)
     | Some f \<Rightarrow> (case uf_poll U f of (out, f') \<Rightarrow> (out, c\<lparr>rn_future := Some f'\<rparr>)))"

text \<open>The branches after the poll; the flag says whether the task goes on to suspend.\<close>

definition run_polled ::
  "('f, 'a, 'p) user_future \<Rightarrow> ('a, 'p) polled \<Rightarrow> ('f, 'a, 'p) Runnable
    \<Rightarrow> (bool \<times> ('f, 'a, 'p) Runnable) exec" where
  "run_polled U out c =
    (case out of
       Pending \<Rightarrow>
         exec_bind (finish_pending (rn_gate c)) (\<lambda>(go, g).
           let c = set_gate g c in
           if \<not> go then exec_bind (terminal_cancelled U c) (\<lambda>c. Return (False, c))
           else Return (True, c))
     | Ready output \<Rightarrow>
         exec_bind (finish_terminal TReady (rn_gate c)) (\<lambda>(wins, g).
           let c = set_gate g c; (drop_panic, c) = take_and_drop_future U c in
           if \<not> wins then
             exec_bind (store_result (Err JoinCancelled) c) (\<lambda>c. Return (False, c))
           else (case drop_panic of
               Some payload \<Rightarrow>
                 exec_bind (store_result (Err (JoinPanic payload))
                     (set_gate (replace_terminal TPanicked (rn_gate c)) c))
                   (\<lambda>c. Return (False, c))
             | None \<Rightarrow> exec_bind (store_result (Ok output) c) (\<lambda>c. Return (False, c))))
     | Panicked payload \<Rightarrow>
         exec_bind (finish_terminal TPanicked (rn_gate c)) (\<lambda>(panic_wins, g).
           let c = set_gate g c; (drop_panic, c) = take_and_drop_future U c in
           if panic_wins then
             exec_bind (store_result (Err (JoinPanic
                 (case drop_panic of Some p \<Rightarrow> p | None \<Rightarrow> payload))) c)
               (\<lambda>c. Return (False, c))
           else exec_bind (store_result (Err JoinCancelled) c) (\<lambda>c. Return (False, c))))"

definition run_suspend ::
  "'z nosv_scheme \<Rightarrow> ('f, 'a, 'p) user_future \<Rightarrow> ('f, 'a, 'p) Runnable \<times> nlog
    \<Rightarrow> (bool \<times> ('f, 'a, 'p) Runnable \<times> nlog) exec" where
  "run_suspend N U = (\<lambda>(c, h).
    (case ffi_suspend N h of
       (Inl e, h) \<Rightarrow>
         (case take_and_drop_future U (set_gate (suspend_failed (rn_gate c)) c) of (_, c) \<Rightarrow>
            exec_bind (store_result (Err (JoinRuntime e)) c) (\<lambda>c. Return (False, c, h)))
     | (Inr _, h) \<Rightarrow> Return (True, c, h)))"

text \<open>Other threads act on the gate while the task runs user code.\<close>

definition ext_requests ::
  "'z nosv_scheme \<Rightarrow> runtime_ref \<Rightarrow> int \<Rightarrow> ext_req list \<Rightarrow> ('f, 'a, 'p) Runnable \<times> nlog
    \<Rightarrow> (('f, 'a, 'p) Runnable \<times> nlog) exec" where
  "ext_requests N rt getpid rs = (\<lambda>(c, h).
    exec_bind (ext_run N rt getpid rs (rn_gate c, h)) (\<lambda>(g, h). Return (set_gate g c, h)))"

text \<open>
  The whole callback body: \<open>during\<close> are the requests of other threads (or of the future itself)
  that arrive while the future is polled, \<open>late\<close> those between the end of the poll and the
  suspension. The flag says whether the task was suspended successfully.
\<close>

definition run_once ::
  "'z nosv_scheme \<Rightarrow> ('f, 'a, 'p) user_future \<Rightarrow> runtime_ref \<Rightarrow> int \<Rightarrow> ext_req list \<Rightarrow> ext_req list
    \<Rightarrow> ('f, 'a, 'p) Runnable \<times> nlog \<Rightarrow> (bool \<times> ('f, 'a, 'p) Runnable \<times> nlog) exec" where
  "run_once N U rt getpid during late = (\<lambda>(c, h).
    exec_bind (run_start U rt c) (\<lambda>(go, c).
      if \<not> go then Return (False, c, h)
      else (case run_poll U c of (out, c) \<Rightarrow>
        exec_bind (ext_requests N rt getpid during (c, h)) (\<lambda>(c, h).
          exec_bind (run_polled U out c) (\<lambda>(suspend, c).
            if \<not> suspend then Return (False, c, h)
            else exec_bind (ext_requests N rt getpid late (c, h)) (run_suspend N U))))))"

definition publish_native_completion ::
  "('f, 'a, 'p) Runnable \<Rightarrow> waker option \<times> ('f, 'a, 'p) Runnable" where
  "publish_native_completion c =
    (case join_publish (rn_join c) of (w, j) \<Rightarrow> (w, c\<lparr>rn_join := j\<rparr>))"

definition force_panic :: "'p \<Rightarrow> ('f, 'a, 'p) Runnable \<Rightarrow> ('f, 'a, 'p) Runnable" where
  "force_panic payload c =
    (let c = set_gate (replace_terminal TPanicked (rn_gate c)) c in
     c\<lparr>rn_join := replace_error_if_unpublished (JoinPanic payload) (rn_join c)\<rparr>)"

definition force_native_error :: "NativeError \<Rightarrow> ('f, 'a, 'p) Runnable \<Rightarrow> ('f, 'a, 'p) Runnable" where
  "force_native_error e c =
    c\<lparr>rn_join := replace_error_if_unpublished (JoinRuntime e) (rn_join c)\<rparr>"

section \<open>Yielding\<close>

text \<open>The future returned by \<open>yield_now\<close>: the state is \<open>yielded\<close>, the flag is the self-wake.\<close>

record YieldNow =
  yielded :: bool

definition yield_now :: YieldNow where
  "yield_now = \<lparr>yielded = False\<rparr>"

definition yield_now_poll :: "YieldNow \<Rightarrow> (unit, 'p) polled \<times> bool \<times> YieldNow" where
  "yield_now_poll y =
    (if yielded y then (Ready (), False, y) else (Pending, True, y\<lparr>yielded := True\<rparr>))"

section \<open>What one run is meant to do\<close>

text \<open>
  The specification of one run callback, as a function of what it observes: whether cancellation
  was requested before the poll, whether the runtime is alive, the outcome of the poll, whether
  cancellation was requested by the end of the poll, whether the future's destructor unwinds and
  what suspending returned. \<open>None\<close> means that the task stays suspended.
\<close>

fun run_spec ::
  "bool \<Rightarrow> bool \<Rightarrow> ('a, 'p) polled \<Rightarrow> bool \<Rightarrow> 'p option \<Rightarrow> (unit, NativeError) rust_result
    \<Rightarrow> ('a, 'p JoinError) rust_result option" where
  "run_spec True alive out late_cancel dp susp = Some (Err JoinCancelled)"
| "run_spec False False out late_cancel dp susp = Some (Err (JoinRuntime InvalidOperation))"
| "run_spec False True out True dp susp = Some (Err JoinCancelled)"
| "run_spec False True (Ready v) False None susp = Some (Ok v)"
| "run_spec False True (Ready v) False (Some p) susp = Some (Err (JoinPanic p))"
| "run_spec False True (Panicked q) False None susp = Some (Err (JoinPanic q))"
| "run_spec False True (Panicked q) False (Some p) susp = Some (Err (JoinPanic p))"
| "run_spec False True Pending False dp (Inl e) = Some (Err (JoinRuntime e))"
| "run_spec False True Pending False dp (Inr u) = None"

text \<open>The terminal kind a result is recorded under.\<close>

fun result_kind :: "('a, 'p JoinError) rust_result \<Rightarrow> TerminalKind" where
  "result_kind (Inr v) = TReady"
| "result_kind (Inl JoinCancelled) = TCancelled"
| "result_kind (Inl (JoinPanic p)) = TPanicked"
| "result_kind (Inl (JoinRuntime e)) = TRuntimeError"

text \<open>The states in which nOS-V may enter the run callback.\<close>

definition runnable_ready :: "('f, 'a, 'p) Runnable \<Rightarrow> bool" where
  "runnable_ready c \<longleftrightarrow> ng_phase (rn_gate c) = Live \<and> \<not> polling (rn_gate c)
    \<and> rn_future c \<noteq> None \<and> jn_result (rn_join c) = None"


section \<open>Lemmas\<close>

lemma set_gate_simps [simp]:
  "rn_gate (set_gate g c) = g" "rn_future (set_gate g c) = rn_future c"
  "rn_join (set_gate g c) = rn_join c" "set_gate g (set_gate g' c) = set_gate g c"
  "set_gate g (c\<lparr>rn_future := f\<rparr>) = (set_gate g c)\<lparr>rn_future := f\<rparr>"
  "set_gate g (c\<lparr>rn_join := j\<rparr>) = (set_gate g c)\<lparr>rn_join := j\<rparr>"
  by (simp_all add: set_gate_def)

lemma take_and_drop_future_eq:
  "take_and_drop_future U c =
    (case rn_future c of None \<Rightarrow> None | Some f \<Rightarrow> uf_drop U f, c\<lparr>rn_future := None\<rparr>)"
  by (simp add: take_and_drop_future_def option_take_def split: option.split)

lemma store_result_Return_iff:
  "store_result r c = Return c' \<longleftrightarrow>
    jn_result (rn_join c) = None \<and> c' = c\<lparr>rn_join := (rn_join c)\<lparr>jn_result := Some r\<rparr>\<rparr>"
  by (auto simp: store_result_def join_store_Return_iff)

lemma store_result_fresh:
  "jn_result (rn_join c) = None
    \<Longrightarrow> store_result r c = Return (c\<lparr>rn_join := (rn_join c)\<lparr>jn_result := Some r\<rparr>\<rparr>)"
  by (simp add: store_result_def join_store_def)

text \<open>
  What the requests of other threads can change on a live gate: the wake mark and the cancellation
  mark only. At most one submission is made, exactly when the wake mark is newly set.
\<close>

lemma ext_step_live:
  assumes "ng_phase g = Live" and "ext_step N rt getpid r (g, h) = Return (g', h')"
  shows "ng_task g' = ng_task g \<and> ng_phase g' = Live \<and> polling g' = polling g
    \<and> cancel_requested g' = (cancel_requested g \<or> rt_usable rt getpid \<and> r = ExtAbort)
    \<and> (wake_submitted g \<longrightarrow> wake_submitted g' \<and> h' = h)
    \<and> (if wake_submitted g' = wake_submitted g then h' = h
       else \<exists>raw. ng_task g = Some raw \<and> h' = snd (ffi_submit N raw h))
    \<and> (rt_usable rt getpid \<and> (r = ExtWake \<or> \<not> cancel_requested g) \<longrightarrow> wake_submitted g')"
  using assms
  by (cases r) (auto simp: schedule_Return_iff request_abort_Return_iff split: if_splits)

lemma ext_run_live:
  assumes "ng_phase g = Live" and "ext_run N rt getpid rs (g, h) = Return (g', h')"
  shows "ng_task g' = ng_task g \<and> ng_phase g' = Live \<and> polling g' = polling g
    \<and> cancel_requested g' = (cancel_requested g \<or> rt_usable rt getpid \<and> ExtAbort \<in> set rs)
    \<and> (wake_submitted g \<longrightarrow> wake_submitted g' \<and> h' = h)
    \<and> (if wake_submitted g' = wake_submitted g then h' = h
       else \<exists>raw. ng_task g = Some raw \<and> h' = snd (ffi_submit N raw h))"
  using assms
proof (induction rs arbitrary: g h)
  case Nil
  then show ?case by auto
next
  case (Cons r rs)
  then obtain g1 h1 where s: "ext_step N rt getpid r (g, h) = Return (g1, h1)"
    and rest: "ext_run N rt getpid rs (g1, h1) = Return (g', h')" by auto
  note one = ext_step_live [OF Cons.prems(1) s]
  then have "ng_phase g1 = Live" by blast
  note more = Cons.IH [OF this rest]
  from one more show ?case by (auto split: if_splits)
qed


text \<open>
  What nOS-V documents of a descriptor that has not been destroyed: submitting and destroying it
  succeed.
\<close>

definition descriptor_contract :: "'z nosv_scheme \<Rightarrow> nosv_ptr \<Rightarrow> bool" where
  "descriptor_contract N p \<longleftrightarrow>
    (\<forall>h. destroys p h = 0 \<longrightarrow> from_code N (nosv_submit N h p (NOSV_SUBMIT_NONE N)) = Ok ()
        \<and> from_code N (nosv_destroy N h p) = Ok ())"

lemma descriptor_contract_submit:
  "descriptor_contract N p \<Longrightarrow> destroys p h = 0 \<Longrightarrow> fst (ffi_submit N (RawTask p) h) = Ok ()"
  by (simp add: descriptor_contract_def ffi_defs)

lemma descriptor_contract_destroy:
  "descriptor_contract N p \<Longrightarrow> destroys p h = 0 \<Longrightarrow> fst (ffi_destroy N (RawTask p) h) = Ok ()"
  by (simp add: descriptor_contract_def ffi_defs)

lemma descriptor_contract_sample: "descriptor_contract sample_nosv p"
  by (simp add: descriptor_contract_def)

lemma ext_step_returns:
  assumes "descriptor_contract N p" "destroys p h = 0"
    and "ng_phase g = Live \<Longrightarrow> ng_task g = Some (RawTask p)"
  shows "\<exists>g' h'. ext_step N rt getpid r (g, h) = Return (g', h')"
proof -
  have ok: "ng_phase g = Live \<Longrightarrow> \<exists>raw. ng_task g = Some raw \<and> fst (ffi_submit N raw h) = Ok ()"
    using assms by (simp add: descriptor_contract_submit)
  show ?thesis
  proof (cases r)
    case ExtWake
    then show ?thesis using schedule_no_abort [OF ok] by simp
  next
    case ExtAbort
    from request_abort_no_abort [OF ok] obtain b g' h'
      where "request_abort N rt getpid (g, h) = Return (b, g', h')" by blast
    with ExtAbort show ?thesis by simp
  qed
qed

lemma ext_run_returns:
  assumes "descriptor_contract N p" "destroys p h = 0"
    and "ng_phase g = Live" "ng_task g = Some (RawTask p)"
  shows "\<exists>g' h'. ext_run N rt getpid rs (g, h) = Return (g', h') \<and> destroys p h' = 0"
  using assms
proof (induction rs arbitrary: g h)
  case (Cons r rs)
  then obtain g1 h1 where s: "ext_step N rt getpid r (g, h) = Return (g1, h1)"
    using ext_step_returns by blast
  note one = ext_step_live [OF Cons.prems(3) s]
  then have "destroys p h1 = 0"
    using Cons.prems by (auto simp: ffi_submit_log split: if_splits)
  with one s Cons show ?case by auto
qed simp

text \<open>A finished run: the gate is closed, the future dropped and the result stored.\<close>

definition finished ::
  "NativeGate \<Rightarrow> ('a, 'p JoinError) rust_result \<Rightarrow> ('f, 'a, 'p) Runnable \<Rightarrow> ('f, 'a, 'p) Runnable" where
  "finished g r c =
    (set_gate g c)\<lparr>rn_future := None, rn_join := (rn_join c)\<lparr>jn_result := Some r\<rparr>\<rparr>"

lemma finished_simps [simp]:
  "rn_gate (finished g r c) = g" "rn_future (finished g r c) = None"
  "rn_join (finished g r c) = (rn_join c)\<lparr>jn_result := Some r\<rparr>"
  by (simp_all add: finished_def set_gate_def)

lemma start_poll_live:
  "ng_phase g = Live \<Longrightarrow> \<not> polling g \<Longrightarrow> start_poll g = Return (\<not> cancel_requested g,
      if cancel_requested g
      then g\<lparr>wake_submitted := False, polling := False, ng_phase := Terminal TCancelled\<rparr>
      else g\<lparr>wake_submitted := False, polling := True\<rparr>)"
  by (simp add: start_poll_def)

lemma finish_terminal_live:
  "ng_phase g = Live \<Longrightarrow> polling g \<Longrightarrow> finish_terminal k g = Return (\<not> cancel_requested g,
      g\<lparr>polling := False, ng_phase := Terminal (if cancel_requested g then TCancelled else k)\<rparr>)"
  by (simp add: finish_terminal_def)

lemma finish_pending_live:
  "ng_phase g = Live \<Longrightarrow> polling g \<Longrightarrow> finish_pending g = Return (\<not> cancel_requested g,
      if cancel_requested g then g\<lparr>polling := False, ng_phase := Terminal TCancelled\<rparr>
      else g\<lparr>polling := False\<rparr>)"
  by (simp add: finish_pending_def)

lemmas run_segment_simps =
  Let_def terminal_cancelled_def take_and_drop_future_eq store_result_fresh finished_def
  finish_terminal_live finish_pending_live

lemma run_start_eq:
  assumes "runnable_ready c"
  defines "g \<equiv> (rn_gate c)\<lparr>wake_submitted := False\<rparr>"
  shows "run_start U rt c = Return
    (if cancel_requested (rn_gate c)
       then (False, finished (g\<lparr>polling := False, ng_phase := Terminal TCancelled\<rparr>) (Err JoinCancelled) c)
     else if rt = None
       then (False, finished (g\<lparr>polling := False, ng_phase := Terminal TRuntimeError\<rparr>)
               (Err (JoinRuntime InvalidOperation)) c)
     else (True, set_gate (g\<lparr>polling := True\<rparr>) c))"
proof -
  from assms(1) obtain f where c: "ng_phase (rn_gate c) = Live" "\<not> polling (rn_gate c)"
    "rn_future c = Some f" "jn_result (rn_join c) = None" by (auto simp: runnable_ready_def)
  show ?thesis
  proof (cases "cancel_requested (rn_gate c)")
    case True
    with c show ?thesis by (simp add: g_def run_start_def start_poll_live run_segment_simps)
  next
    case False
    with c show ?thesis by (simp add: g_def run_start_def start_poll_live run_segment_simps)
  qed
qed

lemma run_polled_cancelled:
  assumes "ng_phase (rn_gate c) = Live" "polling (rn_gate c)" "jn_result (rn_join c) = None"
    and "cancel_requested (rn_gate c)"
  shows "run_polled U out c = Return (False,
      finished ((rn_gate c)\<lparr>polling := False, ng_phase := Terminal TCancelled\<rparr>) (Err JoinCancelled) c)"
  using assms by (cases out) (simp_all add: run_polled_def run_segment_simps)

lemma run_polled_uncancelled:
  assumes "ng_phase (rn_gate c) = Live" "polling (rn_gate c)" "jn_result (rn_join c) = None"
    and "rn_future c = Some f" and "\<not> cancel_requested (rn_gate c)"
  shows "run_polled U out c = Return
    (case run_spec False True out False (uf_drop U f) (Ok ()) of
       None \<Rightarrow> (True, set_gate ((rn_gate c)\<lparr>polling := False\<rparr>) c)
     | Some r \<Rightarrow> (False,
         finished ((rn_gate c)\<lparr>polling := False, ng_phase := Terminal (result_kind r)\<rparr>) r c))"
proof (cases out)
  case (Ready v)
  with assms show ?thesis
    by (cases "uf_drop U f") (simp_all add: run_polled_def run_segment_simps replace_terminal_def)
next
  case Pending
  with assms show ?thesis by (simp add: run_polled_def run_segment_simps)
next
  case (Panicked q)
  with assms show ?thesis
    by (cases "uf_drop U f") (simp_all add: run_polled_def run_segment_simps)
qed

lemma run_suspend_eq:
  assumes "ng_phase (rn_gate c) = Live" "jn_result (rn_join c) = None"
  shows "run_suspend N U (c, h) = Return
    (case fst (ffi_suspend N h) of
       Inr _ \<Rightarrow> (True, c, h @ [CSuspend])
     | Inl e \<Rightarrow> (False, finished ((rn_gate c)\<lparr>ng_phase := Terminal TRuntimeError\<rparr>)
           (Err (JoinRuntime e)) c, h @ [CSuspend]))"
  using assms
  by (auto simp: run_suspend_def ffi_suspend_def suspend_failed_def take_and_drop_future_eq
      store_result_fresh finished_def split: sum.splits)


lemma ext_requests_live:
  assumes "descriptor_contract N p" "destroys p h = 0"
    and "ng_phase (rn_gate c) = Live" "ng_task (rn_gate c) = Some (RawTask p)"
  obtains g' h' where "ext_requests N rt getpid rs (c, h) = Return (set_gate g' c, h')"
    and "ng_task g' = Some (RawTask p)" "ng_phase g' = Live" "polling g' = polling (rn_gate c)"
    and "cancel_requested g' = (cancel_requested (rn_gate c) \<or> rt_usable rt getpid \<and> ExtAbort \<in> set rs)"
    and "destroys p h' = 0"
proof -
  from ext_run_returns [OF assms] obtain g' h'
    where r: "ext_run N rt getpid rs (rn_gate c, h) = Return (g', h')" and "destroys p h' = 0" by blast
  with ext_run_live [OF assms(3) r] assms(4) show thesis
    by (intro that [of g' h']) (simp_all add: ext_requests_def)
qed

text \<open>The last stretch of a run whose poll was pending and not cancelled.\<close>

lemma run_late_suspend:
  assumes "descriptor_contract N p" "destroys p h = 0"
    and "ng_phase (rn_gate c) = Live" "ng_task (rn_gate c) = Some (RawTask p)"
    and "\<not> polling (rn_gate c)" "jn_result (rn_join c) = None" "rn_future c = Some f'"
  shows "\<exists>susp c' h'. exec_bind (ext_requests N rt getpid late (c, h)) (run_suspend N U)
        = Return (susp, c', h')
    \<and> jn_result (rn_join c') = run_spec False True Pending False d (fst (ffi_suspend N (butlast h')))
    \<and> (case jn_result (rn_join c') of
         None \<Rightarrow> susp \<and> runnable_ready c' \<and> rn_future c' = Some f' \<and> last h' = CSuspend
       | Some r \<Rightarrow> \<not> susp \<and> rn_future c' = None \<and> ng_phase (rn_gate c') = Terminal (result_kind r)
           \<and> \<not> polling (rn_gate c'))"
proof -
  from ext_requests_live [OF assms(1-4), of rt getpid late] assms(5) obtain g1 h1
    where "ext_requests N rt getpid late (c, h) = Return (set_gate g1 c, h1)"
      "ng_phase g1 = Live" "\<not> polling g1" by metis
  with assms(6,7) show ?thesis
    by (cases "fst (ffi_suspend N h1)") (simp_all add: run_suspend_eq runnable_ready_def)
qed

text \<open>The run callback against its specification.\<close>

lemma run_once_spec:
  assumes "descriptor_contract N p" and "destroys p h = 0"
    and "runnable_ready c" and "ng_task (rn_gate c) = Some (RawTask p)"
    and "rn_future c = Some f" and "uf_poll U f = (out, f')"
  shows "\<exists>susp c' h'. run_once N U rt getpid during late (c, h) = Return (susp, c', h')
    \<and> jn_result (rn_join c') =
        run_spec (cancel_requested (rn_gate c)) (rt \<noteq> None) out
          (rt_usable rt getpid \<and> ExtAbort \<in> set during) (uf_drop U f') (fst (ffi_suspend N (butlast h')))
    \<and> (case jn_result (rn_join c') of
         None \<Rightarrow> susp \<and> runnable_ready c' \<and> rn_future c' = Some f' \<and> last h' = CSuspend
       | Some r \<Rightarrow> \<not> susp \<and> rn_future c' = None \<and> ng_phase (rn_gate c') = Terminal (result_kind r)
           \<and> \<not> polling (rn_gate c'))"
proof (cases "cancel_requested (rn_gate c) \<or> rt = None")
  case True
  with assms(3) show ?thesis
    by (cases "cancel_requested (rn_gate c)") (auto simp: run_once_def run_start_eq)
next
  case False
  define c1 where "c1 = (set_gate ((rn_gate c)\<lparr>wake_submitted := False, polling := True\<rparr>) c)
    \<lparr>rn_future := Some f'\<rparr>"
  have c1: "ng_phase (rn_gate c1) = Live" "ng_task (rn_gate c1) = Some (RawTask p)"
    "polling (rn_gate c1)" "\<not> cancel_requested (rn_gate c1)" "rn_future c1 = Some f'"
    "jn_result (rn_join c1) = None"
    using assms(3-4) False by (simp_all add: c1_def runnable_ready_def)
  obtain g2 h2 where c2: "ext_requests N rt getpid during (c1, h) = Return (set_gate g2 c1, h2)"
    "ng_task g2 = Some (RawTask p)" "ng_phase g2 = Live" "polling g2"
    "cancel_requested g2 = (rt_usable rt getpid \<and> ExtAbort \<in> set during)" "destroys p h2 = 0"
    using ext_requests_live [OF assms(1,2) c1(1,2), of rt getpid during] c1(3,4) by metis
  have start: "run_start U rt c
      = Return (True, set_gate ((rn_gate c)\<lparr>wake_submitted := False, polling := True\<rparr>) c)"
    using run_start_eq [OF assms(3)] False by simp
  have poll: "run_poll U (set_gate ((rn_gate c)\<lparr>wake_submitted := False, polling := True\<rparr>) c)
      = (out, c1)"
    using assms(5,6) by (simp add: run_poll_def c1_def)
  have run: "run_once N U rt getpid during late (c, h) =
      exec_bind (run_polled U out (set_gate g2 c1)) (\<lambda>(suspend, c).
        if \<not> suspend then Return (False, c, h2)
        else exec_bind (ext_requests N rt getpid late (c, h2)) (run_suspend N U))"
    by (simp add: run_once_def start poll c2(1))
  show ?thesis
  proof (cases "cancel_requested g2")
    case True
    then show ?thesis
      using False c1(6) c2(3-5) by (simp add: run run_polled_cancelled)
  next
    case nc: False
    with c2(5) have lc: "(rt_usable rt getpid \<and> ExtAbort \<in> set during) = False" by simp
    show ?thesis
    proof (cases "run_spec False True out False (uf_drop U f') (Ok ())")
      case (Some r)
      then have "run_spec False True out False (uf_drop U f') s = Some r" for s
        by (cases out; cases "uf_drop U f'") auto
      then show ?thesis unfolding lc
        using False nc c1(5,6) c2(3,4) Some by (simp add: run run_polled_uncancelled)
    next
      case None
      then have out: "out = Pending" by (cases out; cases "uf_drop U f'") auto
      show ?thesis unfolding lc
        using run_late_suspend [OF assms(1) c2(6), of "set_gate (g2\<lparr>polling := False\<rparr>) c1" f' rt
            getpid late U "uf_drop U f'"] False nc c1(5,6) c2(2-4) out
        by (simp add: run run_polled_uncancelled)
    qed
  qed
qed

section \<open>Properties\<close>

text \<open>
  C1: one run callback on a task that nOS-V may run always returns, whatever other threads do
  meanwhile, and does what its specification says. Either it stays suspended, alive and ready for
  its next run with the polled future kept and no result, or it is finished: the future has been
  dropped, exactly one result is stored, the one the specification names (a cancellation request
  that arrived before the end of the poll beats output and panic, a panicking destructor beats
  the output), and the gate is closed under the kind of that result.
\<close>

theorem run_once_meets_spec:
  assumes "descriptor_contract N p" and "destroys p h = 0"
    and "runnable_ready c" and "ng_task (rn_gate c) = Some (RawTask p)"
    and "rn_future c = Some f" and "uf_poll U f = (out, f')"
  shows "\<exists>susp c' h'. run_once N U rt getpid during late (c, h) = Return (susp, c', h')
    \<and> jn_result (rn_join c') =
        run_spec (cancel_requested (rn_gate c)) (rt \<noteq> None) out
          (rt_usable rt getpid \<and> ExtAbort \<in> set during) (uf_drop U f') (fst (ffi_suspend N (butlast h')))
    \<and> (case jn_result (rn_join c') of
         None \<Rightarrow> susp \<and> runnable_ready c' \<and> rn_future c' = Some f' \<and> last h' = CSuspend
       | Some r \<Rightarrow> \<not> susp \<and> rn_future c' = None \<and> ng_phase (rn_gate c') = Terminal (result_kind r)
           \<and> \<not> polling (rn_gate c'))"
  by (rule run_once_spec [OF assms])


text \<open>A task whose future counts down before it is ready, as nOS-V finds it after a submission.\<close>

definition sample_future :: "(nat, nat, unit) user_future" where
  "sample_future = \<lparr>uf_poll = (\<lambda>n. if n = 0 then (Ready 5, 0) else (Pending, n - 1)),
     uf_drop = (\<lambda>_. None)\<rparr>"

definition sample_runnable :: "nat \<Rightarrow> (nat, nat, unit) Runnable" where
  "sample_runnable n =
    \<lparr>rn_core = \<lparr>tc_native = \<lparr>ng_task = Some (RawTask 64), ng_phase = Live, wake_submitted = True,
        polling = False, cancel_requested = False\<rparr>,
       tc_id = TaskId 1, tc_name = None, tc_monitoring_cost = 1\<rparr>,
     rn_future = Some n, rn_join = join_new\<rparr>"

definition sample_rt :: runtime_ref where
  "sample_rt = Some (new_runtime_core 0 42 (RawTaskType 4096) (RawTaskType 8192))"

theorem run_once_meets_spec_witness:
  "\<exists>susp c' h'. run_once sample_nosv sample_future sample_rt 42 [ExtWake, ExtWake] []
      (sample_runnable 0, []) = Return (susp, c', h')
    \<and> jn_result (rn_join c') = Some (Ok 5) \<and> rn_future c' = None
    \<and> ng_phase (rn_gate c') = Terminal TReady"
proof -
  have ready: "runnable_ready (sample_runnable 0)"
    by (simp add: runnable_ready_def sample_runnable_def join_new_def)
  have gate: "ng_task (rn_gate (sample_runnable 0)) = Some (RawTask 64)"
    "rn_future (sample_runnable 0) = Some 0" "\<not> cancel_requested (rn_gate (sample_runnable 0))"
    by (simp_all add: sample_runnable_def)
  have fut: "uf_poll sample_future 0 = (Ready 5, 0)" "uf_drop sample_future 0 = None"
    by (simp_all add: sample_future_def)
  have rt: "sample_rt \<noteq> None" by (simp add: sample_rt_def)
  show ?thesis
    using run_once_meets_spec [OF descriptor_contract_sample [of 64], of "[]", OF _ ready gate(1,2) fut(1),
        of sample_rt 42 "[ExtWake, ExtWake]" "[]"] gate(3) fut(2) rt
    by auto
qed

end
