(* ===== verification/Task_System.thy ===== *)
theory Task_System
  imports Task_Run
begin

text \<open>
  One spawned task as a transition system. Every step is one critical section of the code, applied
  to the shared state: wakes and abort requests from any thread at any time (through any runtime
  reference and from any process), the segments of the run callback, the two halves of the completed
  callback and polls of the joiner. The descriptor address is \<open>p\<close>; the outcome of each poll and the
  future's next state are arbitrary. nOS-V contributes when callbacks run: the run callback is
  entered once per submission, never twice at a time, the completed callback follows a run callback
  that ended without a successful suspension. Native calls of other tasks may be logged in between.
\<close>

section \<open>State\<close>

text \<open>
  Where nOS-V is with the task: waiting for a submission, inside the poll, past the poll and about
  to suspend, returned from the last run callback, descriptor retired, result published.
\<close>

datatype cb_pc = CbIdle | CbPolling | CbSuspending | CbTerminal | CbRetired | CbDone

record ('f, 'a, 'p) Sys =
  sy_task :: "('f, 'a, 'p) Runnable"
  sy_log :: nlog
  sy_pc :: cb_pc
  sy_entries :: nat
  sy_woken :: "waker list"
  sy_delivered :: "('a, 'p JoinError) rust_result list"

abbreviation sy_gate :: "('f, 'a, 'p) Sys \<Rightarrow> NativeGate" where
  "sy_gate s \<equiv> rn_gate (sy_task s)"

abbreviation sy_join :: "('f, 'a, 'p) Sys \<Rightarrow> ('a, 'p) JoinInner" where
  "sy_join s \<equiv> rn_join (sy_task s)"

text \<open>The task right after a successful \<open>spawn_on\<close>.\<close>

definition sys_init :: "nosv_ptr \<Rightarrow> ('f, 'a, 'p) Sys \<Rightarrow> bool" where
  "sys_init p s \<longleftrightarrow>
    sy_gate s = \<lparr>ng_task = Some (RawTask p), ng_phase = Live, wake_submitted = True,
      polling = False, cancel_requested = False\<rparr>
    \<and> rn_future (sy_task s) \<noteq> None \<and> sy_join s = join_new
    \<and> submits p (sy_log s) = 1 \<and> destroys p (sy_log s) = 0 \<and> no_use_after_destroy p (sy_log s)
    \<and> sy_pc s = CbIdle \<and> sy_entries s = 0 \<and> sy_woken s = [] \<and> sy_delivered s = []"

section \<open>Steps\<close>

definition sys_gate :: "NativeGate \<times> nlog \<Rightarrow> ('f, 'a, 'p) Sys \<Rightarrow> ('f, 'a, 'p) Sys" where
  "sys_gate = (\<lambda>(g, h) s. s\<lparr>sy_task := set_gate g (sy_task s), sy_log := h\<rparr>)"

text \<open>A joiner's poll that is ready records what it returned.\<close>

fun deliver :: "('r, 'p) polled \<Rightarrow> 'r list" where
  "deliver (Ready r) = [r]"
| "deliver Pending = []"
| "deliver (Panicked _) = []"

inductive sys_step ::
  "'z nosv_scheme \<Rightarrow> ('f, 'a, 'p) user_future \<Rightarrow> nosv_ptr \<Rightarrow> ('f, 'a, 'p) Sys \<Rightarrow> ('f, 'a, 'p) Sys \<Rightarrow> bool"
  for N U p where
  wake: "schedule N rt getpid (sy_gate s, sy_log s) = Return gh
    \<Longrightarrow> sys_step N U p s (sys_gate gh s)"
| abort: "request_abort N rt getpid (sy_gate s, sy_log s) = Return (b, gh)
    \<Longrightarrow> sys_step N U p s (sys_gate gh s)"
| enter: "sy_pc s = CbIdle \<Longrightarrow> sy_entries s < submits p (sy_log s)
    \<Longrightarrow> run_start U rt (sy_task s) = Return (go, c)
    \<Longrightarrow> sys_step N U p s (s\<lparr>sy_task := c, sy_pc := (if go then CbPolling else CbTerminal),
          sy_entries := Suc (sy_entries s)\<rparr>)"
| poll: "sy_pc s = CbPolling
    \<Longrightarrow> run_polled U out ((sy_task s)\<lparr>rn_future := Some f'\<rparr>) = Return (suspend, c)
    \<Longrightarrow> sys_step N U p s (s\<lparr>sy_task := c, sy_pc := (if suspend then CbSuspending else CbTerminal)\<rparr>)"
| suspend: "sy_pc s = CbSuspending
    \<Longrightarrow> run_suspend N U (sy_task s, sy_log s) = Return (done, c, h)
    \<Longrightarrow> sys_step N U p s (s\<lparr>sy_task := c, sy_log := h, sy_pc := (if done then CbIdle else CbTerminal)\<rparr>)"
| retire: "sy_pc s = CbTerminal \<Longrightarrow> retire N (sy_gate s, sy_log s) = (Ok (), gh)
    \<Longrightarrow> sys_step N U p s ((sys_gate gh s)\<lparr>sy_pc := CbRetired\<rparr>)"
| publish: "sy_pc s = CbRetired \<Longrightarrow> publish_native_completion (sy_task s) = (w, c)
    \<Longrightarrow> sys_step N U p s (s\<lparr>sy_task := c, sy_pc := CbDone, sy_woken := push_waker w (sy_woken s)\<rparr>)"
| join: "join_poll w (sy_join s) = Return (r, j)
    \<Longrightarrow> sys_step N U p s (s\<lparr>sy_task := (sy_task s)\<lparr>rn_join := j\<rparr>,
          sy_delivered := sy_delivered s @ deliver r\<rparr>)"
| other: "submits p calls = 0 \<Longrightarrow> destroys p calls = 0
    \<Longrightarrow> sys_step N U p s (s\<lparr>sy_log := sy_log s @ calls\<rparr>)"

abbreviation sys_steps where
  "sys_steps N U p \<equiv> (sys_step N U p)\<^sup>*\<^sup>*"

inductive_cases sys_stepE: "sys_step N U p s t"

text \<open>The situations in which the code would give up with \<open>invariant_abort\<close>.\<close>

definition sys_aborts ::
  "'z nosv_scheme \<Rightarrow> ('f, 'a, 'p) user_future \<Rightarrow> nosv_ptr \<Rightarrow> ('f, 'a, 'p) Sys \<Rightarrow> bool" where
  "sys_aborts N U p s \<longleftrightarrow>
    (\<exists>rt getpid m. schedule N rt getpid (sy_gate s, sy_log s) = Abort m)
    \<or> (\<exists>rt getpid m. request_abort N rt getpid (sy_gate s, sy_log s) = Abort m)
    \<or> (sy_pc s = CbIdle \<and> sy_entries s < submits p (sy_log s)
        \<and> (\<exists>rt m. run_start U rt (sy_task s) = Abort m))
    \<or> (sy_pc s = CbPolling
        \<and> (\<exists>out f' m. run_polled U out ((sy_task s)\<lparr>rn_future := Some f'\<rparr>) = Abort m))
    \<or> (sy_pc s = CbSuspending \<and> (\<exists>m. run_suspend N U (sy_task s, sy_log s) = Abort m))
    \<or> (sy_pc s = CbTerminal \<and> (\<exists>e gh. retire N (sy_gate s, sy_log s) = (Err e, gh)))"

section \<open>Invariant\<close>

definition pc_live :: "cb_pc \<Rightarrow> bool" where
  "pc_live pc \<longleftrightarrow> pc \<in> {CbIdle, CbPolling, CbSuspending}"

definition pc_retired :: "cb_pc \<Rightarrow> bool" where
  "pc_retired pc \<longleftrightarrow> pc \<in> {CbRetired, CbDone}"

text \<open>A live gate: the phase, the poll mark, the pending submission and the cancellation mark.\<close>

definition live_inv :: "nosv_ptr \<Rightarrow> ('f, 'a, 'p) Sys \<Rightarrow> bool" where
  "live_inv p s \<longleftrightarrow> ng_phase (sy_gate s) = Live \<and> polling (sy_gate s) = (sy_pc s = CbPolling)
    \<and> jn_result (sy_join s) = None
    \<and> submits p (sy_log s) = sy_entries s + of_bool (wake_submitted (sy_gate s))
    \<and> (cancel_requested (sy_gate s) \<longrightarrow> wake_submitted (sy_gate s))"

text \<open>A gate that has left the live phase: a result is there until the joiner takes it.\<close>

definition closed_inv :: "('f, 'a, 'p) Sys \<Rightarrow> bool" where
  "closed_inv s \<longleftrightarrow>
    (\<exists>r. (if sy_delivered s = [] then jn_result (sy_join s) = Some r
         else sy_delivered s = [r] \<and> jn_result (sy_join s) = None)
       \<and> ng_phase (sy_gate s) = (if sy_pc s = CbTerminal then Terminal (result_kind r) else Destroyed)
       \<and> ((\<exists>v. r = Ok v) \<longrightarrow> \<not> cancel_requested (sy_gate s)))"

definition task_inv :: "nosv_ptr \<Rightarrow> ('f, 'a, 'p) Sys \<Rightarrow> bool" where
  "task_inv p s \<longleftrightarrow>
    no_use_after_destroy p (sy_log s)
    \<and> destroys p (sy_log s) = of_bool (pc_retired (sy_pc s))
    \<and> ng_task (sy_gate s) = (if pc_retired (sy_pc s) then None else Some (RawTask p))
    \<and> (rn_future (sy_task s) \<noteq> None) = pc_live (sy_pc s)
    \<and> native_completed (sy_join s) = (sy_pc s = CbDone)
    \<and> consumed (sy_join s) = (sy_delivered s \<noteq> [])
    \<and> (consumed (sy_join s) \<longrightarrow> sy_pc s = CbDone)
    \<and> (if pc_live (sy_pc s) then live_inv p s else closed_inv s)"


section \<open>Lemmas\<close>

lemma pc_simps [simp]:
  "pc_live CbIdle" "pc_live CbPolling" "pc_live CbSuspending"
  "\<not> pc_live CbTerminal" "\<not> pc_live CbRetired" "\<not> pc_live CbDone"
  "\<not> pc_retired CbIdle" "\<not> pc_retired CbPolling" "\<not> pc_retired CbSuspending"
  "\<not> pc_retired CbTerminal" "pc_retired CbRetired" "pc_retired CbDone"
  by (simp_all add: pc_live_def pc_retired_def)

lemma pc_live_not_retired: "pc_live pc \<Longrightarrow> \<not> pc_retired pc"
  by (auto simp: pc_live_def)

lemma sys_gate_simps [simp]:
  "sy_task (sys_gate (g, h) s) = set_gate g (sy_task s)" "sy_log (sys_gate (g, h) s) = h"
  "sy_pc (sys_gate gh s) = sy_pc s" "sy_entries (sys_gate gh s) = sy_entries s"
  "sy_woken (sys_gate gh s) = sy_woken s" "sy_delivered (sys_gate gh s) = sy_delivered s"
  by (simp_all add: sys_gate_def split: prod.split)

lemma sys_gate_id [simp]: "sys_gate (sy_gate s, sy_log s) s = s"
  by (simp add: sys_gate_def set_gate_def)

lemma closed_inv_not_live: "closed_inv s \<Longrightarrow> ng_phase (sy_gate s) \<noteq> Live"
  by (auto simp: closed_inv_def split: if_splits)

text \<open>Steps that touch neither the gate, the future nor the result keep the invariant.\<close>

lemma task_inv_frame:
  assumes "task_inv p s" and "sy_gate t = sy_gate s" "rn_future (sy_task t) = rn_future (sy_task s)"
    and "jn_result (sy_join t) = jn_result (sy_join s)"
    and "native_completed (sy_join t) = native_completed (sy_join s)"
    and "consumed (sy_join t) = consumed (sy_join s)"
    and "sy_pc t = sy_pc s" "sy_entries t = sy_entries s" "sy_delivered t = sy_delivered s"
    and "sy_log t = sy_log s @ calls" "submits p calls = 0" "destroys p calls = 0"
  shows "task_inv p t"
proof -
  have "no_use_after_destroy p (sy_log t)"
    unfolding assms(10) using assms(1,11,12)
    by (intro no_use_after_destroy_frame) (simp_all add: task_inv_def)
  moreover have "live_inv p t = live_inv p s" "closed_inv t = closed_inv s"
    using assms(2-) by (simp_all add: live_inv_def closed_inv_def)
  ultimately show ?thesis using assms by (simp add: task_inv_def)
qed

lemma task_inv_init: "sys_init p s \<Longrightarrow> task_inv p s"
  by (simp add: sys_init_def task_inv_def live_inv_def join_new_def)

text \<open>Requests of other threads.\<close>

lemma task_inv_ext:
  assumes "task_inv p s" and "ext_step N rt getpid r (sy_gate s, sy_log s) = Return (g, h)"
  shows "task_inv p (sys_gate (g, h) s)"
proof (cases "pc_live (sy_pc s)")
  case True
  with assms(1) have live: "live_inv p s" and nr: "\<not> pc_retired (sy_pc s)"
    by (simp_all add: task_inv_def pc_live_not_retired)
  then have "ng_phase (sy_gate s) = Live" by (simp add: live_inv_def)
  note step = ext_step_live [OF this assms(2)]
  have can: "cancel_requested g \<longrightarrow> wake_submitted g"
    using step live by (cases r) (auto simp: live_inv_def)
  show ?thesis
  proof (cases "wake_submitted g = wake_submitted (sy_gate s)")
    case same: True
    with step True nr assms(1) live can show ?thesis
      by (simp add: task_inv_def live_inv_def)
  next
    case False
    with step have w: "wake_submitted g" "\<not> wake_submitted (sy_gate s)"
      and h: "h = sy_log s @ [CSubmit p (NOSV_SUBMIT_NONE N)]"
      using assms(1) nr by (auto simp: task_inv_def ffi_submit_log)
    have "no_use_after_destroy p h"
      unfolding h using assms(1) nr by (intro no_use_after_destroy_append) (simp_all add: task_inv_def)
    with step True nr assms(1) live can w h show ?thesis
      by (simp add: task_inv_def live_inv_def ffi_submit_log)
  qed
next
  case False
  with assms(1) have "ng_phase (sy_gate s) \<noteq> Live"
    by (simp add: task_inv_def closed_inv_not_live)
  with assms(2) have "g = sy_gate s" "h = sy_log s"
    by (cases r; simp add: schedule_not_live request_abort_not_live)+
  with assms(1) show ?thesis by simp
qed

lemma task_inv_enter:
  assumes "task_inv p s" "sy_pc s = CbIdle" "sy_entries s < submits p (sy_log s)"
    and "run_start U rt (sy_task s) = Return (go, c)"
  shows "task_inv p (s\<lparr>sy_task := c, sy_pc := (if go then CbPolling else CbTerminal),
          sy_entries := Suc (sy_entries s)\<rparr>)"
proof -
  have ready: "runnable_ready (sy_task s)"
    using assms(1,2) by (simp add: task_inv_def live_inv_def runnable_ready_def)
  from assms(1-3) have wake: "wake_submitted (sy_gate s)"
    by (auto simp: task_inv_def live_inv_def of_bool_def split: if_splits)
  from assms(1,2) have nd: "sy_delivered s = []" by (auto simp: task_inv_def)
  show ?thesis
    using assms(1,2,4) wake nd unfolding run_start_eq [OF ready]
    by (auto simp: task_inv_def live_inv_def closed_inv_def split: if_splits)
qed

lemma task_inv_poll:
  assumes "task_inv p s" "sy_pc s = CbPolling"
    and "run_polled U out ((sy_task s)\<lparr>rn_future := Some f'\<rparr>) = Return (suspend, c)"
  shows "task_inv p (s\<lparr>sy_task := c, sy_pc := (if suspend then CbSuspending else CbTerminal)\<rparr>)"
proof -
  let ?c = "(sy_task s)\<lparr>rn_future := Some f'\<rparr>"
  have c: "ng_phase (rn_gate ?c) = Live" "polling (rn_gate ?c)" "jn_result (rn_join ?c) = None"
    "rn_future ?c = Some f'"
    using assms(1,2) by (simp_all add: task_inv_def live_inv_def)
  from assms(1,2) have nd: "sy_delivered s = []" by (auto simp: task_inv_def)
  show ?thesis
  proof (cases "cancel_requested (rn_gate ?c)")
    case True
    with assms nd run_polled_cancelled [OF c(1-3) True, of U out] show ?thesis
      by (auto simp: task_inv_def closed_inv_def)
  next
    case False
    with assms nd run_polled_uncancelled [OF c False, of U out] show ?thesis
      by (auto simp: task_inv_def live_inv_def closed_inv_def split: option.splits)
  qed
qed

lemma task_inv_suspend:
  assumes "task_inv p s" "sy_pc s = CbSuspending"
    and "run_suspend N U (sy_task s, sy_log s) = Return (done, c, h)"
  shows "task_inv p (s\<lparr>sy_task := c, sy_log := h, sy_pc := (if done then CbIdle else CbTerminal)\<rparr>)"
proof -
  have c: "ng_phase (sy_gate s) = Live" "jn_result (sy_join s) = None"
    using assms(1,2) by (simp_all add: task_inv_def live_inv_def)
  from assms(1,2) have nd: "sy_delivered s = []" by (auto simp: task_inv_def)
  have "no_use_after_destroy p (sy_log s @ [CSuspend])"
    using assms(1) by (intro no_use_after_destroy_frame) (simp_all add: task_inv_def)
  with assms nd show ?thesis
    unfolding run_suspend_eq [OF c]
    by (auto simp: task_inv_def live_inv_def closed_inv_def split: sum.splits)
qed

lemma task_inv_retire:
  assumes "task_inv p s" "sy_pc s = CbTerminal" "retire N (sy_gate s, sy_log s) = (Ok (), g, h)"
  shows "task_inv p ((sys_gate (g, h) s)\<lparr>sy_pc := CbRetired\<rparr>)"
proof -
  from assms have h: "h = sy_log s @ [CDestroy p]"
    and g: "g = (sy_gate s)\<lparr>ng_task := None, ng_phase := Destroyed\<rparr>"
    by (auto simp: retire_Ok_iff task_inv_def ffi_destroy_log)
  have "no_use_after_destroy p h"
    unfolding h using assms(1,2) by (intro no_use_after_destroy_append) (simp_all add: task_inv_def)
  with assms(1,2) h g show ?thesis
    by (auto simp: task_inv_def closed_inv_def)
qed

lemma task_inv_publish:
  assumes "task_inv p s" "sy_pc s = CbRetired" "publish_native_completion (sy_task s) = (w, c)"
  shows "task_inv p (s\<lparr>sy_task := c, sy_pc := CbDone, sy_woken := ws\<rparr>)"
  using assms
  by (auto simp: publish_native_completion_def task_inv_def closed_inv_def case_prod_beta)

lemma task_inv_join:
  assumes "task_inv p s" "join_poll w (sy_join s) = Return (r, j)"
  shows "task_inv p (s\<lparr>sy_task := (sy_task s)\<lparr>rn_join := j\<rparr>,
          sy_delivered := sy_delivered s @ deliver r\<rparr>)"
proof -
  from assms(2) have "\<not> consumed (sy_join s)" by (auto simp: join_poll_def)
  show ?thesis
  proof (cases "native_completed (sy_join s)")
    case True
    with assms \<open>\<not> consumed _\<close> show ?thesis
      by (auto simp: join_poll_filled task_inv_def closed_inv_def)
  next
    case False
    with assms(2) \<open>\<not> consumed _\<close> have "r = Pending" "j = (sy_join s)\<lparr>jn_waiter := Some w\<rparr>"
      by (auto simp: join_poll_open)
    then show ?thesis
      by (intro task_inv_frame [OF assms(1), where calls = "[]"]) simp_all
  qed
qed

lemma task_inv_step:
  assumes "task_inv p s" and "sys_step N U p s t"
  shows "task_inv p t"
  using assms(2,1)
proof cases
  case (wake rt getpid gh)
  with task_inv_ext [OF assms(1), of N rt getpid ExtWake "fst gh" "snd gh"] show ?thesis by simp
next
  case (abort rt getpid b gh)
  then have "ext_step N rt getpid ExtAbort (sy_gate s, sy_log s) = Return gh"
    by (cases gh) simp
  with abort task_inv_ext [OF assms(1), of N rt getpid ExtAbort "fst gh" "snd gh"] show ?thesis by simp
next
  case (retire gh)
  with task_inv_retire [OF assms(1), of N "fst gh" "snd gh"] show ?thesis by simp
next
  case (other calls)
  then show ?thesis by (intro task_inv_frame [OF assms(1), where calls = calls]) simp_all
next
  case (enter rt go c)
  show ?thesis unfolding enter(1) by (rule task_inv_enter [OF assms(1) enter(2-4)])
next
  case (poll out f' suspend c)
  show ?thesis unfolding poll(1) by (rule task_inv_poll [OF assms(1) poll(2,3)])
next
  case (suspend don c h)
  show ?thesis unfolding suspend(1) by (rule task_inv_suspend [OF assms(1) suspend(2,3)])
next
  case (publish w c)
  show ?thesis unfolding publish(1) by (rule task_inv_publish [OF assms(1) publish(2,3)])
next
  case (join w r j)
  show ?thesis unfolding join(1) by (rule task_inv_join [OF assms(1) join(2)])
qed

lemma task_inv_steps: "sys_steps N U p s t \<Longrightarrow> task_inv p s \<Longrightarrow> task_inv p t"
  by (induction rule: rtranclp_induct) (auto intro: task_inv_step)


lemma task_inv_reachable: "sys_init p s \<Longrightarrow> sys_steps N U p s t \<Longrightarrow> task_inv p t"
  by (blast intro: task_inv_steps task_inv_init)

lemma retire_returns:
  assumes "descriptor_contract N p" "task_inv p s" "sy_pc s = CbTerminal"
  shows "\<exists>g h. retire N (sy_gate s, sy_log s) = (Ok (), g, h)"
proof -
  have "is_terminal (ng_phase (sy_gate s))" "ng_task (sy_gate s) = Some (RawTask p)"
    "destroys p (sy_log s) = 0"
    using assms(2,3) by (auto simp: task_inv_def closed_inv_def)
  with descriptor_contract_destroy [OF assms(1)] show ?thesis by (auto simp: retire_Ok_iff)
qed

lemma task_inv_no_abort:
  assumes "descriptor_contract N p" "task_inv p s"
  shows "\<not> sys_aborts N U p s"
proof -
  have gate: "ng_task (sy_gate s) = Some (RawTask p) \<and> destroys p (sy_log s) = 0"
    if "ng_phase (sy_gate s) = Live"
    using that assms(2) closed_inv_not_live [of s]
    by (cases "pc_live (sy_pc s)") (auto simp: task_inv_def pc_live_not_retired)
  then have ok: "ng_phase (sy_gate s) = Live
      \<Longrightarrow> \<exists>raw. ng_task (sy_gate s) = Some raw \<and> fst (ffi_submit N raw (sy_log s)) = Ok ()"
    using descriptor_contract_submit [OF assms(1)] by auto
  have "schedule N rt getpid (sy_gate s, sy_log s) \<noteq> Abort m"
    "request_abort N rt getpid (sy_gate s, sy_log s) \<noteq> Abort m" for rt getpid m
    using schedule_no_abort [OF ok, of rt getpid] request_abort_no_abort [OF ok, of rt getpid] by auto
  moreover have "run_start U rt (sy_task s) \<noteq> Abort m" if "sy_pc s = CbIdle" for rt m
    using that assms(2) by (subst run_start_eq) (simp_all add: task_inv_def live_inv_def runnable_ready_def)
  moreover have "run_polled U out ((sy_task s)\<lparr>rn_future := Some f'\<rparr>) \<noteq> Abort m"
    if "sy_pc s = CbPolling" for out f' m
  proof (cases "cancel_requested (sy_gate s)")
    case True
    then show ?thesis using that assms(2)
      by (subst run_polled_cancelled) (simp_all add: task_inv_def live_inv_def)
  next
    case False
    then show ?thesis using that assms(2)
      by (subst run_polled_uncancelled [where f = f']) (simp_all add: task_inv_def live_inv_def)
  qed
  moreover have "run_suspend N U (sy_task s, sy_log s) \<noteq> Abort m" if "sy_pc s = CbSuspending" for m
    using that assms(2) by (subst run_suspend_eq) (simp_all add: task_inv_def live_inv_def)
  moreover have "retire N (sy_gate s, sy_log s) \<noteq> (Err e, gh)" if "sy_pc s = CbTerminal" for e gh
    using retire_returns [OF assms that] by auto
  ultimately show ?thesis unfolding sys_aborts_def by blast
qed


text \<open>A cancellation request is never withdrawn.\<close>

lemma cancel_requested_step:
  assumes "sys_step N U p s t" "task_inv p s" "cancel_requested (sy_gate s)"
  shows "cancel_requested (sy_gate t)"
  using assms(1)
proof cases
  case (wake rt getpid gh)
  with assms(3) show ?thesis by (cases gh) (auto simp: schedule_Return_iff split: if_splits)
next
  case (abort rt getpid b gh)
  with assms(3) show ?thesis by (cases gh) (auto simp: request_abort_Return_iff split: if_splits)
next
  case (enter rt go c)
  have "runnable_ready (sy_task s)"
    using assms(2) enter(2) by (simp add: task_inv_def live_inv_def runnable_ready_def)
  with enter assms(3) show ?thesis by (auto simp: run_start_eq)
next
  case (poll out f' suspend c)
  have "run_polled U out ((sy_task s)\<lparr>rn_future := Some f'\<rparr>) = Return (False,
      finished ((sy_gate s)\<lparr>polling := False, ng_phase := Terminal TCancelled\<rparr>) (Err JoinCancelled)
        ((sy_task s)\<lparr>rn_future := Some f'\<rparr>))"
    using assms(2,3) poll(2) by (subst run_polled_cancelled) (simp_all add: task_inv_def live_inv_def)
  with poll assms(3) show ?thesis by auto
next
  case (suspend don c h)
  have "ng_phase (sy_gate s) = Live" "jn_result (sy_join s) = None"
    using assms(2) suspend(2) by (simp_all add: task_inv_def live_inv_def)
  with suspend assms(3) show ?thesis by (auto simp: run_suspend_eq split: sum.splits)
next
  case (retire gh)
  with assms(3) show ?thesis by (cases gh) (auto simp: retire_Ok_iff)
next
  case (publish w c)
  with assms(3) show ?thesis by (auto simp: publish_native_completion_def case_prod_beta)
qed (use assms(3) in simp_all)

lemma cancel_requested_steps:
  assumes "sys_steps N U p s t" "task_inv p s" "cancel_requested (sy_gate s)"
  shows "cancel_requested (sy_gate t)"
  using assms
  by (induction rule: rtranclp_induct) (auto intro: cancel_requested_step task_inv_steps)

subsection \<open>An example run\<close>

definition sample_sys :: "nat \<Rightarrow> (nat, nat, unit) Sys" where
  "sample_sys n = \<lparr>sy_task = sample_runnable n, sy_log = [CSubmit 64 0], sy_pc = CbIdle,
     sy_entries = 0, sy_woken = [], sy_delivered = []\<rparr>"

abbreviation sample_steps where
  "sample_steps \<equiv> sys_steps sample_nosv sample_future 64"

lemma sample_sys_init: "sys_init 64 (sample_sys n)"
  by (simp add: sys_init_def sample_sys_def sample_runnable_def)

text \<open>The states of a run that is polled once, is ready, retires, publishes and is joined.\<close>

definition sample_polling :: "nat \<Rightarrow> (nat, nat, unit) Sys" where
  "sample_polling n = (sample_sys n)\<lparr>sy_task := set_gate ((rn_gate (sample_runnable n))
       \<lparr>wake_submitted := False, polling := True\<rparr>) (sample_runnable n),
     sy_pc := CbPolling, sy_entries := 1\<rparr>"

definition sample_ready :: "(nat, nat, unit) Sys" where
  "sample_ready = (sample_polling 0)\<lparr>sy_task := finished ((sy_gate (sample_polling 0))
       \<lparr>polling := False, ng_phase := Terminal TReady\<rparr>) (Ok 5) (sy_task (sample_polling 0)),
     sy_pc := CbTerminal\<rparr>"

definition sample_retired :: "(nat, nat, unit) Sys" where
  "sample_retired = (sys_gate ((sy_gate sample_ready)\<lparr>ng_task := None, ng_phase := Destroyed\<rparr>,
     [CSubmit 64 0, CDestroy 64]) sample_ready)\<lparr>sy_pc := CbRetired\<rparr>"

lemma sample_enter: "sample_steps (sample_sys n) (sample_polling n)"
proof -
  have "runnable_ready (sample_runnable n)" "\<not> cancel_requested (rn_gate (sample_runnable n))"
    by (simp_all add: runnable_ready_def sample_runnable_def join_new_def)
  then have "run_start sample_future sample_rt (sy_task (sample_sys n))
      = Return (True, sy_task (sample_polling n))"
    by (simp add: run_start_eq sample_polling_def sample_sys_def sample_rt_def)
  from sys_step.enter [OF _ _ this, where N = sample_nosv and p = 64] show ?thesis
    by (intro r_into_rtranclp) (simp add: sample_polling_def sample_sys_def)
qed

lemma sample_poll: "sample_steps (sample_polling 0) sample_ready"
proof -
  let ?c = "(sy_task (sample_polling 0))\<lparr>rn_future := Some 0\<rparr>"
  have "run_polled sample_future (Ready 5) ?c = Return (False, sy_task sample_ready)"
    by (subst run_polled_uncancelled [where f = 0])
      (simp_all add: sample_polling_def sample_ready_def sample_runnable_def join_new_def
        sample_future_def finished_def)
  from sys_step.poll [OF _ this] show ?thesis
    by (intro r_into_rtranclp) (simp add: sample_polling_def sample_ready_def)
qed

lemma sample_retire: "sample_steps sample_ready sample_retired"
proof -
  have "retire sample_nosv (sy_gate sample_ready, sy_log sample_ready)
    = (Ok (), (sy_gate sample_ready)\<lparr>ng_task := None, ng_phase := Destroyed\<rparr>, [CSubmit 64 0, CDestroy 64])"
    by (simp add: retire_Ok_iff sample_ready_def sample_polling_def sample_runnable_def sample_sys_def
        ffi_destroy_def)
  from sys_step.retire [OF _ this] show ?thesis
    by (intro r_into_rtranclp) (simp add: sample_retired_def sample_ready_def)
qed

lemma sample_run:
  "\<exists>t. sample_steps (sample_sys 0) t \<and> sy_delivered t = [Ok 5]"
proof -
  let ?pub = "sample_retired\<lparr>sy_task := snd (publish_native_completion (sy_task sample_retired)),
    sy_pc := CbDone,
    sy_woken := push_waker (fst (publish_native_completion (sy_task sample_retired))) []\<rparr>"
  have pub: "sys_step sample_nosv sample_future 64 sample_retired ?pub"
    using sys_step.publish [of sample_retired "fst (publish_native_completion (sy_task sample_retired))"
        "snd (publish_native_completion (sy_task sample_retired))" sample_nosv sample_future 64]
    by (simp add: sample_retired_def sample_ready_def sample_polling_def sample_sys_def)
  have "\<not> consumed (sy_join ?pub)" "native_completed (sy_join ?pub)"
    "jn_result (sy_join ?pub) = Some (Ok 5)" "sy_delivered ?pub = []"
    by (simp_all add: publish_native_completion_def case_prod_beta sample_retired_def sample_ready_def
        sample_polling_def sample_sys_def sample_runnable_def join_new_def)
  then have "\<exists>t. sys_step sample_nosv sample_future 64 ?pub t \<and> sy_delivered t = [Ok 5]"
    using sys_step.join [of 0 ?pub "Ready (Ok 5)" _ sample_nosv sample_future 64]
    by (fastforce simp: join_poll_filled)
  with pub sample_enter [of 0] sample_poll sample_retire show ?thesis
    by (meson rtranclp.rtrancl_into_rtrancl rtranclp_trans)
qed

section \<open>Properties\<close>

text \<open>
  C7: whatever wakes, aborts, polls, native calls of other tasks and joins are interleaved, a
  spawned task never reaches a situation in which the code would abort the process: no callback is
  entered in a wrong state, no descriptor is missing, no result is stored twice, and the descriptor
  of a completed task can be retired.
\<close>

theorem no_invariant_abort:
  assumes "descriptor_contract N p" and "sys_init p s" and "sys_steps N U p s t"
  shows "\<not> sys_aborts N U p t"
  by (rule task_inv_no_abort [OF assms(1) task_inv_reachable [OF assms(2,3)]])

theorem no_invariant_abort_witness:
  "sample_steps (sample_sys 0) sample_ready \<and> \<not> sys_aborts sample_nosv sample_future 64 sample_ready"
proof -
  have "sample_steps (sample_sys 0) sample_ready"
    by (rule rtranclp_trans [OF sample_enter sample_poll])
  with no_invariant_abort [OF descriptor_contract_sample sample_sys_init this] show ?thesis by blast
qed


text \<open>
  C8: a joiner gets its result at most once, and only after the task is completely gone: the future
  has been dropped, the descriptor has been destroyed exactly once, and in the whole history no
  call on the descriptor followed its destruction. Before that, the descriptor is never destroyed
  while the future still exists.
\<close>

theorem join_only_after_retirement:
  assumes "sys_init p s" and "sys_steps N U p s t"
  shows "no_use_after_destroy p (sy_log t) \<and> length (sy_delivered t) \<le> 1
    \<and> (destroys p (sy_log t) \<noteq> 0 \<longrightarrow> rn_future (sy_task t) = None)
    \<and> (sy_delivered t \<noteq> [] \<or> join_is_finished (sy_join t)
        \<longrightarrow> destroys p (sy_log t) = 1 \<and> abort_handle_is_finished (sy_gate t)
          \<and> rn_future (sy_task t) = None)"
proof -
  from task_inv_reachable [OF assms] have inv: "task_inv p t" .
  show ?thesis
  proof (cases "pc_live (sy_pc t)")
    case True
    with inv show ?thesis
      by (auto simp: task_inv_def pc_live_not_retired join_is_finished_def)
  next
    case False
    with inv have "closed_inv t" by (simp add: task_inv_def)
    with False inv show ?thesis
      by (auto simp: task_inv_def closed_inv_def join_is_finished_def abort_handle_is_finished_def
          split: if_splits)
  qed
qed

theorem join_only_after_retirement_witness:
  "\<exists>t. sample_steps (sample_sys 0) t \<and> sy_delivered t = [Ok 5]
    \<and> destroys 64 (sy_log t) = 1 \<and> rn_future (sy_task t) = None"
proof -
  obtain t where t: "sample_steps (sample_sys 0) t" "sy_delivered t = [Ok 5]" using sample_run by blast
  with join_only_after_retirement [OF sample_sys_init t(1)] show ?thesis by auto
qed


text \<open>
  C9: no wake is lost and none is submitted twice. After a wake through a usable runtime reference
  the task either is no longer live or has exactly one submission that nOS-V has not yet answered
  with a run, even when the wake raced with the poll or with the suspension.
\<close>

theorem wake_never_lost:
  assumes "sys_init p s" and "sys_steps N U p s t" and "rt_usable rt getpid"
    and "schedule N rt getpid (sy_gate t, sy_log t) = Return (g, h)"
  shows "ng_phase g \<noteq> Live \<or> wake_submitted g \<and> submits p h = Suc (sy_entries t)"
proof -
  let ?u = "sys_gate (g, h) t"
  have "sys_step N U p t ?u" by (rule sys_step.wake) (rule assms(4))
  with assms(1,2) have inv: "task_inv p ?u"
    by (blast intro: task_inv_reachable rtranclp.rtrancl_into_rtrancl)
  show ?thesis
  proof (cases "pc_live (sy_pc t)")
    case True
    with inv have "live_inv p ?u" by (simp add: task_inv_def)
    moreover have "wake_submitted g"
      using assms(3,4) calculation
      by (auto simp: schedule_Return_iff live_inv_def split: if_splits)
    ultimately show ?thesis by (simp add: live_inv_def)
  next
    case False
    with inv have "closed_inv ?u" by (simp add: task_inv_def)
    then show ?thesis using closed_inv_not_live [of ?u] by simp
  qed
qed

theorem wake_never_lost_witness:
  "\<exists>g h. schedule sample_nosv sample_rt 42 (sy_gate (sample_polling 3), sy_log (sample_polling 3))
      = Return (g, h) \<and> wake_submitted g \<and> submits 64 h = 2"
proof -
  have use: "rt_usable sample_rt 42"
    by (simp add: rt_usable_def sample_rt_def new_runtime_core_def process_matches_def)
  have g: "ng_phase (sy_gate (sample_polling 3)) = Live" "\<not> wake_submitted (sy_gate (sample_polling 3))"
    "ng_task (sy_gate (sample_polling 3)) = Some (RawTask 64)" "sy_entries (sample_polling 3) = 1"
    by (simp_all add: sample_polling_def sample_runnable_def)
  have run: "schedule sample_nosv sample_rt 42 (sy_gate (sample_polling 3), sy_log (sample_polling 3))
      = Return ((sy_gate (sample_polling 3))\<lparr>wake_submitted := True\<rparr>,
          snd (ffi_submit sample_nosv (RawTask 64) (sy_log (sample_polling 3))))"
    using use g by (simp add: schedule_Return_iff ffi_defs)
  from wake_never_lost [OF sample_sys_init sample_enter use run] run g show ?thesis by auto
qed





text \<open>
  C11: a cancelled task that is not running terminates: nOS-V owes it exactly one run, that run can
  only end with cancellation recorded, and then retiring and publishing are possible and hand the
  cancellation to the joiner.
\<close>

theorem cancelled_task_terminates:
  assumes "descriptor_contract N p" and "sys_init p s" and "sys_steps N U p s t"
    and "sy_pc t = CbIdle" and "cancel_requested (sy_gate t)"
  shows "submits p (sy_log t) = Suc (sy_entries t)
    \<and> (\<exists>c1 g2 h2 w c3. run_start U rt (sy_task t) = Return (False, c1)
        \<and> retire N (rn_gate c1, sy_log t) = (Ok (), g2, h2)
        \<and> publish_native_completion (set_gate g2 c1) = (w, c3)
        \<and> (\<exists>j. join_poll k (rn_join c3) = Return (Ready (Err JoinCancelled), j)))"
proof -
  from task_inv_reachable [OF assms(2,3)] have inv: "task_inv p t" .
  then have ready: "runnable_ready (sy_task t)"
    using assms(4) by (simp add: task_inv_def live_inv_def runnable_ready_def)
  define c1 where "c1 = finished ((sy_gate t)\<lparr>wake_submitted := False, polling := False,
      ng_phase := Terminal TCancelled\<rparr>) (Err JoinCancelled) (sy_task t)"
  have start: "run_start U rt (sy_task t) = Return (False, c1)"
    using run_start_eq [OF ready, of U rt] assms(5) by (simp add: c1_def)
  have g1: "is_terminal (ng_phase (rn_gate c1))" "ng_task (rn_gate c1) = Some (RawTask p)"
    "destroys p (sy_log t) = 0" "\<not> consumed (rn_join c1)" "jn_result (rn_join c1) = Some (Err JoinCancelled)"
    using inv assms(4) by (auto simp: c1_def task_inv_def)
  with descriptor_contract_destroy [OF assms(1)] obtain g2 h2
    where ret: "retire N (rn_gate c1, sy_log t) = (Ok (), g2, h2)" by (auto simp: retire_Ok_iff)
  have "submits p (sy_log t) = Suc (sy_entries t)"
    using inv assms(4,5) by (simp add: task_inv_def live_inv_def)
  with start ret g1 show ?thesis
    by (auto simp: publish_native_completion_def case_prod_beta join_poll_filled)
qed

theorem cancelled_task_terminates_witness:
  "\<exists>t. sample_steps (sample_sys 0) t \<and> cancel_requested (sy_gate t)
    \<and> (\<exists>c1. run_start sample_future sample_rt (sy_task t) = Return (False, c1))"
proof -
  have use: "rt_usable sample_rt 42"
    by (simp add: rt_usable_def sample_rt_def new_runtime_core_def process_matches_def)
  let ?t = "sys_gate ((sy_gate (sample_sys 0))\<lparr>cancel_requested := True\<rparr>, sy_log (sample_sys 0)) (sample_sys 0)"
  have "request_abort sample_nosv sample_rt 42 (sy_gate (sample_sys 0), sy_log (sample_sys 0))
      = Return (True, (sy_gate (sample_sys 0))\<lparr>cancel_requested := True\<rparr>, sy_log (sample_sys 0))"
    using use by (simp add: request_abort_Return_iff sample_sys_def sample_runnable_def)
  from sys_step.abort [OF this] have t: "sample_steps (sample_sys 0) ?t" by blast
  have "sy_pc ?t = CbIdle" "cancel_requested (sy_gate ?t)" by (simp_all add: sample_sys_def)
  with cancelled_task_terminates [OF descriptor_contract_sample sample_sys_init t, of sample_rt] t
  show ?thesis by blast
qed


end
