(* ===== verification/Memory_Stats.thy ===== *)
theory Memory_Stats
  imports Runtime_Core Complex_Main
begin

text \<open>
  \<open>src/memory.rs\<close> and \<open>Handle::memory_stats\<close> of \<open>src/runtime.rs\<close>. A single-precision number is
  a not-a-number, a signed infinity or a finite value; each native query returns its status and
  the value left in its output, which the code reads only after success.
\<close>

section \<open>Definitions\<close>

datatype f32 = F32_NaN | F32_Inf bool | F32 rat

record nosv_memory = nosv_consts +
  nosv_memory_get_used :: "i32 \<times> usize"
  nosv_memory_get_size :: "i32 \<times> usize"
  nosv_memory_get_pressure :: "i32 \<times> f32"

record MemoryStats =
  ms_used :: usize
  ms_size :: usize
  ms_pressure :: f32

fun f32_is_finite :: "f32 \<Rightarrow> bool" where
  "f32_is_finite (F32 _) = True"
| "f32_is_finite _ = False"

text \<open>\<open>(0.0..=1.0).contains\<close>: comparisons with a not-a-number are false.\<close>

fun f32_in_unit_range :: "f32 \<Rightarrow> bool" where
  "f32_in_unit_range (F32 x) \<longleftrightarrow> 0 \<le> x \<and> x \<le> 1"
| "f32_in_unit_range (F32_Inf _) \<longleftrightarrow> False"
| "f32_in_unit_range F32_NaN \<longleftrightarrow> False"

definition memory_query :: "'z nosv_memory_scheme \<Rightarrow> (MemoryStats, NativeError) rust_result" where
  "memory_query M =
    (case from_code M (fst (nosv_memory_get_used M)) of Inl e \<Rightarrow> Err e | Inr _ \<Rightarrow>
     (case from_code M (fst (nosv_memory_get_size M)) of Inl e \<Rightarrow> Err e | Inr _ \<Rightarrow>
     (case from_code M (fst (nosv_memory_get_pressure M)) of Inl e \<Rightarrow> Err e | Inr _ \<Rightarrow>
       (let used = snd (nosv_memory_get_used M); size = snd (nosv_memory_get_size M);
            pressure = snd (nosv_memory_get_pressure M)
        in if used > size \<or> \<not> f32_is_finite pressure \<or> \<not> f32_in_unit_range pressure
           then Err InvalidOperation
           else Ok \<lparr>ms_used = used, ms_size = size, ms_pressure = pressure\<rparr>))))"

definition handle_memory_stats ::
  "'z nosv_memory_scheme \<Rightarrow> 'tc RuntimeCore \<Rightarrow> int \<Rightarrow> (MemoryStats, NativeError) rust_result" where
  "handle_memory_stats M core getpid =
    (if \<not> process_matches core getpid then Err NotInitialized
     else if lifecycle (rc_state core) \<noteq> Running then Err NotInitialized
     else memory_query M)"

section \<open>Properties\<close>

text \<open>
  Every memory snapshot a caller can obtain comes from a running runtime of the calling
  process, keeps usage within capacity and pressure a finite number between zero and one, and
  holds exactly the values the three successful native queries delivered.
\<close>

theorem memory_stats_valid:
  assumes "handle_memory_stats M core getpid = Ok st"
  shows "ensure_running core getpid = Ok () \<and> ms_used st \<le> ms_size st
    \<and> (\<exists>x. ms_pressure st = F32 x \<and> 0 \<le> x \<and> x \<le> 1)
    \<and> nosv_memory_get_used M = (NOSV_SUCCESS M, ms_used st)
    \<and> nosv_memory_get_size M = (NOSV_SUCCESS M, ms_size st)
    \<and> nosv_memory_get_pressure M = (NOSV_SUCCESS M, ms_pressure st)"
proof -
  from assms have run: "ensure_running core getpid = Ok ()" and q: "memory_query M = Ok st"
    by (auto simp: handle_memory_stats_def ensure_running_def split: if_splits)
  obtain c1 u c2 s c3 p where vals: "nosv_memory_get_used M = (c1, u)"
    "nosv_memory_get_size M = (c2, s)" "nosv_memory_get_pressure M = (c3, p)"
    by (metis surj_pair)
  from q vals have "c1 = NOSV_SUCCESS M" "c2 = NOSV_SUCCESS M" "c3 = NOSV_SUCCESS M"
    "\<not> u > s" "f32_is_finite p" "f32_in_unit_range p"
    "st = \<lparr>ms_used = u, ms_size = s, ms_pressure = p\<rparr>"
    by (auto simp: memory_query_def from_code_Ok_iff Let_def split: sum.splits if_splits)
  with run vals show ?thesis by (cases p) auto
qed

definition sample_memory :: nosv_memory where
  "sample_memory = nosv_consts.extend sample_consts
    \<lparr>nosv_memory_get_used = (0, 10), nosv_memory_get_size = (0, 40),
     nosv_memory_get_pressure = (0, F32 (1 / 4))\<rparr>"

theorem memory_stats_valid_witness:
  "\<exists>st. handle_memory_stats sample_memory sample_core 42 = Ok st \<and> ms_used st \<le> ms_size st"
proof -
  have "handle_memory_stats sample_memory sample_core 42
      = Ok \<lparr>ms_used = 10, ms_size = 40, ms_pressure = F32 (1 / 4)\<rparr>"
    by (simp add: handle_memory_stats_def process_matches_def sample_core_def new_runtime_core_def
        memory_query_def from_code_def sample_memory_def sample_consts_def nosv_consts.defs)
  with memory_stats_valid [OF this] show ?thesis by blast
qed

end
