(* ===== verification/Io_Buffers.thy ===== *)
theory Io_Buffers
  imports Runtime_Core
begin

text \<open>
  \<open>src/io.rs\<close>: I/O errors, owned buffers and the conversion of kernel results. The constants of the
  C library are the fields of the record \<open>libc\<close>. A buffer is its allocation, a list of cells of
  which \<open>None\<close> is an uninitialised byte, with the length of the initialised prefix that it reports.
\<close>

section \<open>The C library and I/O errors\<close>

record libc =
  EINTR :: i32
  EAGAIN :: i32
  EBUSY :: i32
  ECANCELED :: i32

datatype io_kind =
    InvalidInput | InvalidData | UnexpectedEof | WriteZero | BrokenPipe | Unsupported
  | WouldBlock | Interrupted | TimedOut | Other | Uncategorized

datatype io_error = OsError i32 | IoError io_kind string

type_synonym 'a io_result = "('a, io_error) rust_result"

definition raw_os_error :: "io_error \<Rightarrow> i32 option" where
  "raw_os_error e = (case e of OsError c \<Rightarrow> Some c | IoError _ _ \<Rightarrow> None)"

text \<open>The kinds that the code tests for; the standard library maps these two error numbers to them.\<close>

definition error_kind :: "'z libc_scheme \<Rightarrow> io_error \<Rightarrow> io_kind" where
  "error_kind C e = (case e of
     IoError k _ \<Rightarrow> k
   | OsError c \<Rightarrow> if c = EAGAIN C then WouldBlock else if c = EINTR C then Interrupted else Uncategorized)"

definition runtime_closed_error :: io_error where
  "runtime_closed_error = IoError BrokenPipe ''nOS-V I/O runtime is closed''"

definition unsupported_opcode_error :: io_error where
  "unsupported_opcode_error = IoError Unsupported ''kernel io_uring does not support this operation''"

text \<open>
  \<open>result\<close> negates a negative code; negating the least \<open>i32\<close> wraps in a release build. \<open>as usize\<close>
  of a non-negative code is its value.
\<close>

definition cqe_result :: "i32 \<Rightarrow> nat io_result" where
  "cqe_result r = (if r <s 0 then Err (OsError (- r)) else Ok (unat r))"

section \<open>Owned buffers\<close>

datatype buf_kind = VecBuf | SliceBuf

record io_buf =
  bf_kind :: buf_kind
  bf_cells :: "u8 option list"
  bf_len :: nat

definition bytes_init :: "io_buf \<Rightarrow> nat" where
  "bytes_init b = (case bf_kind b of VecBuf \<Rightarrow> bf_len b | SliceBuf \<Rightarrow> length (bf_cells b))"

definition bytes_total :: "io_buf \<Rightarrow> nat" where
  "bytes_total b = length (bf_cells b)"

definition set_init :: "nat \<Rightarrow> io_buf \<Rightarrow> io_buf" where
  "set_init n b = (case bf_kind b of VecBuf \<Rightarrow> b\<lparr>bf_len := n\<rparr> | SliceBuf \<Rightarrow> b)"

text \<open>
  What the trait's safety section demands of a buffer: the initialised prefix lies inside the
  allocation and holds no uninitialised byte.
\<close>

definition buf_sound :: "io_buf \<Rightarrow> bool" where
  "buf_sound b \<longleftrightarrow> bytes_init b \<le> bytes_total b \<and> (\<forall>c \<in> set (take (bytes_init b) (bf_cells b)). c \<noteq> None)"

text \<open>What a kernel that stores \<open>data\<close> from cell \<open>off\<close> on makes of the allocation.\<close>

definition store_bytes :: "nat \<Rightarrow> u8 list \<Rightarrow> io_buf \<Rightarrow> io_buf" where
  "store_bytes off data b = b\<lparr>bf_cells :=
     take off (bf_cells b) @ map Some data @ drop (off + length data) (bf_cells b)\<rparr>"

definition buf_bytes :: "io_buf \<Rightarrow> u8 list" where
  "buf_bytes b = map the (take (bytes_init b) (bf_cells b))"

text \<open>The buffers a caller makes: \<open>Vec::with_capacity\<close> (here exactly that capacity) and a full vector.\<close>

definition vec_with_capacity :: "nat \<Rightarrow> io_buf" where
  "vec_with_capacity n = \<lparr>bf_kind = VecBuf, bf_cells = replicate n None, bf_len = 0\<rparr>"

definition vec_of :: "u8 list \<Rightarrow> io_buf" where
  "vec_of xs = \<lparr>bf_kind = VecBuf, bf_cells = map Some xs, bf_len = length xs\<rparr>"

section \<open>Lemmas\<close>

lemma cqe_result_nonneg: "\<not> r <s 0 \<Longrightarrow> cqe_result r = Ok (unat r)"
  by (simp add: cqe_result_def)

lemma bytes_total_simps [simp]:
  "bytes_total (set_init n b) = bytes_total b"
  "bytes_total (vec_with_capacity n) = n"
  "bytes_total (vec_of xs) = length xs"
  by (simp_all add: bytes_total_def set_init_def vec_with_capacity_def vec_of_def split: buf_kind.split)

lemma bytes_init_simps [simp]:
  "bytes_init (vec_with_capacity n) = 0"
  "bytes_init (vec_of xs) = length xs"
  by (simp_all add: bytes_init_def vec_with_capacity_def vec_of_def)

lemma buf_sound_simps [simp]: "buf_sound (vec_with_capacity n)" "buf_sound (vec_of xs)"
  by (simp_all add: buf_sound_def) (auto simp: vec_of_def)

lemma buf_bytes_vec_of [simp]: "buf_bytes (vec_of xs) = xs"
  by (simp add: buf_bytes_def) (simp add: vec_of_def comp_def)

lemma store_bytes_total: "off + length data \<le> bytes_total b \<Longrightarrow> bytes_total (store_bytes off data b) = bytes_total b"
  by (simp add: bytes_total_def store_bytes_def)

end
