(* ===== verification/Uring_Config.thy ===== *)
theory Uring_Config
  imports Io_Buffers
begin

text \<open>
  The configuration of the ring in \<open>src/io_uring.rs\<close>: \<open>IoUringConfig\<close> with its validation,
  \<open>PreparedRing::new\<close> and the messages of the error types. Ring construction and probing are calls
  of the \<open>io-uring\<close> crate, the fields of \<open>ring_setup\<close>.
\<close>

section \<open>Configuration\<close>

text \<open>The poll interval is in nanoseconds.\<close>

record IoUringConfig =
  cf_entries :: u32
  cf_reap_size :: nat
  cf_poll_interval :: nat
  cf_max_buffered :: nat

definition io_uring_config_default :: IoUringConfig where
  "io_uring_config_default = \<lparr>cf_entries = 256, cf_reap_size = 256, cf_poll_interval = 50000,
     cf_max_buffered = 65536\<rparr>"

definition is_power_of_two :: "u32 \<Rightarrow> bool" where
  "is_power_of_two n \<longleftrightarrow> n \<in> set (map (\<lambda>k. 2 ^ k) [0..<32])"

definition config_validate :: "IoUringConfig \<Rightarrow> (IoUringConfig, InvalidIoUringConfig) rust_result" where
  "config_validate c =
    (if cf_entries c = 0 then Err ZeroEntries
     else if \<not> is_power_of_two (cf_entries c) then Err EntriesNotPowerOfTwo
     else if cf_reap_size c = 0 then Err ZeroReapSize
     else if cf_poll_interval c = 0 then Err ZeroPollInterval
     else if cf_max_buffered c = 0 then Err ZeroCompletionBuffer
     else Ok c)"

section \<open>Error messages\<close>

datatype CompletionError = BufferOverflow

definition completion_error_fmt :: "CompletionError \<Rightarrow> string" where
  "completion_error_fmt e = ''io_uring completion buffer overflowed; cancellation was requested''"

datatype SubmissionErrorKind = SubmitRuntimeClosed | CompletionBufferOverflow

fun submission_error_fmt :: "SubmissionErrorKind \<Rightarrow> string" where
  "submission_error_fmt SubmitRuntimeClosed = ''the io_uring runtime is closed''"
| "submission_error_fmt CompletionBufferOverflow = ''completion buffering overflowed during admission''"

section \<open>Preparing the ring\<close>

record 'q ring_setup =
  rs_build :: "u32 \<Rightarrow> 'q io_result"
  rs_nodrop :: "'q \<Rightarrow> bool"
  rs_probe :: "'q \<Rightarrow> (u8 \<Rightarrow> bool) io_result"
  rs_async_cancel_code :: u8

record 'q PreparedRing =
  pr_ring :: 'q
  pr_config :: IoUringConfig
  pr_supported :: "bool list"

definition unsupported :: "string \<Rightarrow> io_error" where
  "unsupported message = IoError Unsupported message"

definition prepared_ring_new ::
  "('q, 'z) ring_setup_scheme \<Rightarrow> IoUringConfig \<Rightarrow> ('q PreparedRing, io_error InitError) rust_result" where
  "prepared_ring_new S config =
    (case config_validate config of
       Inl e \<Rightarrow> Err (InitInvalidIoUringConfig e)
     | Inr config \<Rightarrow>
    (case rs_build S (cf_entries config) of
       Inl e \<Rightarrow> Err (InitIoUring e)
     | Inr ring \<Rightarrow>
         if \<not> rs_nodrop S ring then
           Err (InitIoUring (unsupported ''kernel io_uring does not provide IORING_FEAT_NODROP''))
         else
    (case rs_probe S ring of
       Inl e \<Rightarrow> Err (InitIoUring e)
     | Inr is_supported \<Rightarrow>
         if \<not> is_supported (rs_async_cancel_code S) then
           Err (InitIoUring (unsupported ''kernel io_uring does not support IORING_OP_ASYNC_CANCEL''))
         else Ok \<lparr>pr_ring = ring, pr_config = config,
                  pr_supported = map (\<lambda>code. is_supported (word_of_nat code)) [0..<256]\<rparr>)))"

text \<open>The lookup \<open>supported[usize::from(opcode)]\<close>, in range for every \<open>u8\<close>.\<close>

definition opcode_supported :: "bool list \<Rightarrow> u8 \<Rightarrow> bool" where
  "opcode_supported supported code = supported ! unat code"

section \<open>Lemmas\<close>

lemma is_power_of_two_iff: "is_power_of_two n \<longleftrightarrow> (\<exists>k < 32. n = 2 ^ k)"
  by (auto simp: is_power_of_two_def)

lemma config_validate_Ok_iff:
  "config_validate c = Ok c' \<longleftrightarrow> c' = c \<and> (\<exists>k < 32. cf_entries c = 2 ^ k)
    \<and> 0 < cf_reap_size c \<and> 0 < cf_poll_interval c \<and> 0 < cf_max_buffered c"
proof -
  have "(2::u32) ^ k \<noteq> 0" if "k < 32" for k
    using that by (simp add: exp_eq_zero_iff)
  then show ?thesis by (auto simp: config_validate_def is_power_of_two_iff)
qed

section \<open>Properties\<close>

text \<open>
  A ring is prepared only for a configuration whose queue depth is a power of two within 32 bits
  and whose limits are all positive, on a kernel that never drops completions and supports
  cancellation; its table then answers for every one of the 256 opcodes exactly what the kernel's
  probe answered.
\<close>

theorem prepared_ring_exact:
  assumes "prepared_ring_new S config = Ok r"
  shows "pr_config r = config
    \<and> (\<exists>k < 32. cf_entries config = 2 ^ k) \<and> 0 < cf_reap_size config
    \<and> 0 < cf_poll_interval config \<and> 0 < cf_max_buffered config
    \<and> rs_nodrop S (pr_ring r)
    \<and> (\<exists>probe. rs_probe S (pr_ring r) = Ok probe \<and> probe (rs_async_cancel_code S)
         \<and> (\<forall>code. opcode_supported (pr_supported r) code = probe code))"
proof -
  have table: "opcode_supported (map (\<lambda>code. probe (word_of_nat code)) [0..<256]) code = probe code"
    for probe :: "u8 \<Rightarrow> bool" and code
    using unsigned_less [of code, where ?'a = nat] by (simp add: opcode_supported_def)
  from assms show ?thesis
    by (auto simp: prepared_ring_new_def table config_validate_Ok_iff split: sum.splits if_splits)
qed

definition sample_setup :: "unit ring_setup" where
  "sample_setup = \<lparr>rs_build = (\<lambda>_. Ok ()), rs_nodrop = (\<lambda>_. True),
     rs_probe = (\<lambda>_. Ok (\<lambda>code. code < 60)), rs_async_cancel_code = 14\<rparr>"

theorem prepared_ring_exact_witness:
  "\<exists>r. prepared_ring_new sample_setup io_uring_config_default = Ok r
    \<and> opcode_supported (pr_supported r) 14 \<and> \<not> opcode_supported (pr_supported r) 200"
proof -
  have "is_power_of_two 256" by (auto simp: is_power_of_two_iff intro: exI [of _ 8])
  then obtain r where r: "prepared_ring_new sample_setup io_uring_config_default = Ok r"
    by (simp add: prepared_ring_new_def sample_setup_def io_uring_config_default_def config_validate_def)
  from prepared_ring_exact [OF r] have "\<forall>code. opcode_supported (pr_supported r) code = (code < 60)"
    by (auto simp: sample_setup_def)
  with r show ?thesis by auto
qed

end
