(* ===== verification/Uring_Submission.thy ===== *)
theory Uring_Submission
  imports Uring_Config
begin

text \<open>
  One submitted iterator in \<open>src/io_uring.rs\<close>: \<open>SubmissionInner\<close> with its queues, counters and four
  waker slots, and the futures that read it: the completion stream, the cancellation stream and
  \<open>WaitDrained\<close>. Each operation is one critical section of the submission's mutex. The buffering
  limit lies beside the mutex in the code and never changes; here it is a field. The counters are
  natural numbers: they count live heap objects and cannot reach the bound of \<open>usize\<close>.
\<close>

section \<open>State\<close>

text \<open>A completion entry: user data, result and flags of the common part, and what a wider entry adds.\<close>

record 'x cqe =
  cq_user_data :: u64
  cq_result :: i32
  cq_flags :: u32
  cq_extra :: 'x

record 'x Completion =
  cp_index :: usize
  cp_cqe :: "'x cqe"

datatype Delivery = DeliveryOpen | DeliveryCancelling | DeliveryOverflow | DeliveryDetached

record 'x SubmissionInner =
  si_limit :: nat
  si_delivery :: Delivery
  si_normal :: "'x Completion list"
  si_cancellations :: "'x Completion list"
  si_normal_overflow :: bool
  si_cancel_overflow :: bool
  si_iterator_finished :: bool
  si_originals :: nat
  si_accepted :: nat
  si_original_terminal :: nat
  si_cancels :: nat
  si_cancel_terminal :: nat
  si_admission_waker :: "waker option"
  si_normal_waker :: "waker option"
  si_cancel_waker :: "waker option"
  si_drain_waker :: "waker option"

definition submission_new :: "nat \<Rightarrow> 'x SubmissionInner" where
  "submission_new limit = \<lparr>si_limit = limit, si_delivery = DeliveryOpen, si_normal = [],
     si_cancellations = [], si_normal_overflow = False, si_cancel_overflow = False,
     si_iterator_finished = False, si_originals = 0, si_accepted = 0, si_original_terminal = 0,
     si_cancels = 0, si_cancel_terminal = 0, si_admission_waker = None, si_normal_waker = None,
     si_cancel_waker = None, si_drain_waker = None\<rparr>"

section \<open>Operations\<close>

definition replace_waker :: "waker option \<Rightarrow> waker \<Rightarrow> waker option" where
  "replace_waker slot replacement =
    (if (case slot of None \<Rightarrow> True | Some old \<Rightarrow> old \<noteq> replacement) then Some replacement else slot)"

definition drained :: "'x SubmissionInner \<Rightarrow> bool" where
  "drained s \<longleftrightarrow> si_original_terminal s = si_originals s \<and> si_cancel_terminal s = si_cancels s"

definition wake_drain :: "'x SubmissionInner \<Rightarrow> waker list \<Rightarrow> 'x SubmissionInner \<times> waker list" where
  "wake_drain s wakes =
    (if drained s then
       let (w, slot) = option_take (si_drain_waker s) in (s\<lparr>si_drain_waker := slot\<rparr>, push_waker w wakes)
     else (s, wakes))"

definition take_admission_waker :: "'x SubmissionInner \<Rightarrow> waker list \<Rightarrow> 'x SubmissionInner \<times> waker list" where
  "take_admission_waker s wakes =
    (let (w, slot) = option_take (si_admission_waker s) in (s\<lparr>si_admission_waker := slot\<rparr>, push_waker w wakes))"

definition take_normal_waker :: "'x SubmissionInner \<Rightarrow> waker list \<Rightarrow> 'x SubmissionInner \<times> waker list" where
  "take_normal_waker s wakes =
    (let (w, slot) = option_take (si_normal_waker s) in (s\<lparr>si_normal_waker := slot\<rparr>, push_waker w wakes))"

definition take_cancel_waker :: "'x SubmissionInner \<Rightarrow> waker list \<Rightarrow> 'x SubmissionInner \<times> waker list" where
  "take_cancel_waker s wakes =
    (let (w, slot) = option_take (si_cancel_waker s) in (s\<lparr>si_cancel_waker := slot\<rparr>, push_waker w wakes))"

definition discard_delivery :: "'x SubmissionInner \<Rightarrow> 'x SubmissionInner" where
  "discard_delivery s = s\<lparr>si_normal := [], si_cancellations := [], si_normal_waker := None,
     si_cancel_waker := None\<rparr>"

definition detach :: "'x SubmissionInner \<Rightarrow> 'x SubmissionInner" where
  "detach s = discard_delivery (s\<lparr>si_delivery := DeliveryDetached\<rparr>)"

text \<open>The first half of \<open>request_cancel\<close>: closing delivery.\<close>

definition close_delivery :: "Delivery \<Rightarrow> 'x SubmissionInner \<Rightarrow> 'x SubmissionInner" where
  "close_delivery delivery s =
    (let s = (if si_delivery s = DeliveryOpen \<or> delivery = DeliveryDetached
              then s\<lparr>si_delivery := delivery\<rparr> else s)
     in if delivery = DeliveryDetached then discard_delivery s else s)"

text \<open>Delivery of one original completion; the flag reports the first overflow.\<close>

definition deliver_original ::
  "'x Completion \<Rightarrow> 'x SubmissionInner \<Rightarrow> waker list \<Rightarrow> bool \<times> 'x SubmissionInner \<times> waker list" where
  "deliver_original c s wakes =
    (if si_delivery s = DeliveryOpen then
       let (overflow, s) =
             (if length (si_normal s) < si_limit s then (False, s\<lparr>si_normal := si_normal s @ [c]\<rparr>)
              else if \<not> si_normal_overflow s then
                (True, s\<lparr>si_normal_overflow := True, si_delivery := DeliveryOverflow\<rparr>)
              else (False, s));
           (s, wakes) = take_normal_waker s wakes
       in (overflow, s, wakes)
     else (False, s, wakes))"

definition finish_original :: "'x SubmissionInner \<Rightarrow> waker list \<Rightarrow> 'x SubmissionInner \<times> waker list" where
  "finish_original s wakes =
    (let s = s\<lparr>si_original_terminal := si_original_terminal s + 1\<rparr>;
         (s, wakes) = (if si_original_terminal s = si_originals s then take_normal_waker s wakes
                       else (s, wakes))
     in wake_drain s wakes)"

definition deliver_cancellation ::
  "'x Completion \<Rightarrow> 'x SubmissionInner \<Rightarrow> waker list \<Rightarrow> 'x SubmissionInner \<times> waker list" where
  "deliver_cancellation c s wakes =
    (let (s, wakes) =
           (if si_delivery s \<noteq> DeliveryDetached then
              take_cancel_waker
                (if length (si_cancellations s) < si_limit s
                 then s\<lparr>si_cancellations := si_cancellations s @ [c]\<rparr>
                 else s\<lparr>si_cancel_overflow := True\<rparr>) wakes
            else (s, wakes));
         s = s\<lparr>si_cancel_terminal := si_cancel_terminal s + 1\<rparr>;
         (s, wakes) = (if si_cancel_terminal s = si_cancels s then take_cancel_waker s wakes
                       else (s, wakes))
     in wake_drain s wakes)"

section \<open>Readers\<close>

type_synonym 'x stream_item = "('x Completion, CompletionError) rust_result option"

definition next_completion_poll ::
  "waker \<Rightarrow> 'x SubmissionInner \<Rightarrow> ('x stream_item, unit) polled \<times> 'x SubmissionInner" where
  "next_completion_poll w s =
    (case si_normal s of
       c # rest \<Rightarrow> (Ready (Some (Ok c)), s\<lparr>si_normal := rest\<rparr>)
     | [] \<Rightarrow>
         if si_normal_overflow s then
           (Ready (Some (Err BufferOverflow)), s\<lparr>si_normal_overflow := False\<rparr>)
         else if si_delivery s \<noteq> DeliveryOpen
           \<or> si_iterator_finished s \<and> si_original_terminal s = si_originals s then (Ready None, s)
         else (Pending, s\<lparr>si_normal_waker := replace_waker (si_normal_waker s) w\<rparr>))"

definition next_cancellation_poll ::
  "waker \<Rightarrow> 'x SubmissionInner \<Rightarrow> ('x stream_item, unit) polled \<times> 'x SubmissionInner" where
  "next_cancellation_poll w s =
    (case si_cancellations s of
       c # rest \<Rightarrow> (Ready (Some (Ok c)), s\<lparr>si_cancellations := rest\<rparr>)
     | [] \<Rightarrow>
         if si_cancel_overflow s then
           (Ready (Some (Err BufferOverflow)), s\<lparr>si_cancel_overflow := False\<rparr>)
         else if si_cancel_terminal s = si_cancels s then (Ready None, s)
         else (Pending, s\<lparr>si_cancel_waker := replace_waker (si_cancel_waker s) w\<rparr>))"

definition wait_drained_poll :: "waker \<Rightarrow> 'x SubmissionInner \<Rightarrow> (unit, unit) polled \<times> 'x SubmissionInner" where
  "wait_drained_poll w s =
    (if drained s then (Ready (), s)
     else (Pending, s\<lparr>si_drain_waker := replace_waker (si_drain_waker s) w\<rparr>))"

section \<open>Lemmas\<close>

text \<open>What the ledger of the driver reads of a submission, and what its buffers may hold.\<close>

definition si_counts :: "'x SubmissionInner \<Rightarrow> nat \<times> nat \<times> nat \<times> nat \<times> nat" where
  "si_counts s = (si_originals s, si_accepted s, si_original_terminal s, si_cancels s, si_cancel_terminal s)"

definition si_bounded :: "'x SubmissionInner \<Rightarrow> bool" where
  "si_bounded s \<longleftrightarrow> length (si_normal s) \<le> si_limit s \<and> length (si_cancellations s) \<le> si_limit s
    \<and> (si_normal_overflow s \<longrightarrow> si_delivery s \<noteq> DeliveryOpen)"

lemma si_counts_eq_iff:
  "si_counts s = si_counts t \<longleftrightarrow> si_originals s = si_originals t \<and> si_accepted s = si_accepted t
    \<and> si_original_terminal s = si_original_terminal t \<and> si_cancels s = si_cancels t
    \<and> si_cancel_terminal s = si_cancel_terminal t"
  by (simp add: si_counts_def)

lemmas submission_defs = replace_waker_def wake_drain_def take_admission_waker_def
  take_normal_waker_def take_cancel_waker_def discard_delivery_def detach_def close_delivery_def
  deliver_original_def finish_original_def deliver_cancellation_def option_take_def

lemma submission_counts [simp]:
  "si_counts (fst (wake_drain s wakes)) = si_counts s"
  "si_counts (fst (take_admission_waker s wakes)) = si_counts s"
  "si_counts (detach s) = si_counts s"
  "si_counts (close_delivery d s) = si_counts s"
  "si_counts (fst (snd (deliver_original c s wakes))) = si_counts s"
  "si_counts (fst (finish_original s wakes)) = si_counts (s\<lparr>si_original_terminal := si_original_terminal s + 1\<rparr>)"
  "si_counts (fst (deliver_cancellation c s wakes)) = si_counts (s\<lparr>si_cancel_terminal := si_cancel_terminal s + 1\<rparr>)"
  "si_counts (snd (next_completion_poll w s)) = si_counts s"
  "si_counts (snd (next_cancellation_poll w s)) = si_counts s"
  "si_counts (snd (wait_drained_poll w s)) = si_counts s"
  by (auto simp: si_counts_def submission_defs next_completion_poll_def next_cancellation_poll_def
      wait_drained_poll_def Let_def split: list.split)

lemma submission_bounded [simp]:
  "si_bounded (submission_new limit)"
  "si_bounded s \<Longrightarrow> si_bounded (fst (wake_drain s wakes))"
  "si_bounded s \<Longrightarrow> si_bounded (fst (take_admission_waker s wakes))"
  "si_bounded s \<Longrightarrow> si_bounded (detach s)"
  "si_bounded s \<Longrightarrow> d \<noteq> DeliveryOpen \<Longrightarrow> si_bounded (close_delivery d s)"
  "si_bounded s \<Longrightarrow> si_bounded (fst (snd (deliver_original c s wakes)))"
  "si_bounded s \<Longrightarrow> si_bounded (fst (finish_original s wakes))"
  "si_bounded s \<Longrightarrow> si_bounded (fst (deliver_cancellation c s wakes))"
  "si_bounded s \<Longrightarrow> si_bounded (snd (next_completion_poll w s))"
  "si_bounded s \<Longrightarrow> si_bounded (snd (next_cancellation_poll w s))"
  "si_bounded s \<Longrightarrow> si_bounded (snd (wait_drained_poll w s))"
  by (auto simp: si_bounded_def submission_new_def submission_defs next_completion_poll_def
      next_cancellation_poll_def wait_drained_poll_def Let_def split: list.split)

end
