(* ===== verification/Uring_Contexts.thy ===== *)
theory Uring_Contexts
  imports Uring_Submission
begin

text \<open>
  The data shared by all producers and the completion consumer of the ring driver in
  \<open>src/io_uring.rs\<close>: completion contexts keyed by the address that the kernel carries as user data,
  the queue of staged entries, pending cancellations, and the operations on submitted iterators:
  admission, cancellation, staging, submission of the staged prefix and dispatch of completions.
  A submission is an index into the store \<open>dd_states\<close>; contexts and commands hold that index where
  the code holds an \<open>Arc\<close>.
\<close>

section \<open>State\<close>

datatype ContextKind = CtxOriginal | CtxCancel

datatype ContextPhase = CtxStaged | CtxSubmitted | CtxTerminal

record CqeContext =
  cx_kind :: ContextKind
  cx_phase :: ContextPhase
  cx_index :: usize
  cx_user_data :: u64
  cx_state :: nat
  cx_target :: "u64 option"
  cx_cancel_queued :: bool
  cx_cancel_seen :: bool

record CancelCommand =
  cc_target :: u64
  cc_index :: usize
  cc_user_data :: u64
  cc_state :: nat

text \<open>The contexts of completion-native operations; \<open>'h\<close> is the handler with its resources.\<close>

record 'h OwnedCqeContext =
  oc_phase :: ContextPhase
  oc_control :: nat
  oc_handler :: "'h option"
  oc_cancel_queued :: bool
  oc_cancel_seen :: bool

record OwnedCancelContext =
  on_phase :: ContextPhase
  on_target :: u64

record 'h QueuedOwnedOp =
  qo_control :: nat
  qo_handler :: 'h

datatype StagedContext = StagedRaw u64 | StagedOwned u64 | StagedOwnedCancel u64

record ('x, 'h) DriverData =
  dd_contexts :: "(u64, CqeContext) hashmap"
  dd_staged :: "StagedContext list"
  dd_cancel_queue :: "CancelCommand list"
  dd_owned_contexts :: "(u64, 'h OwnedCqeContext) hashmap"
  dd_owned_cancel_contexts :: "(u64, OwnedCancelContext) hashmap"
  dd_owned_pending :: "'h QueuedOwnedOp list"
  dd_owned_cancel_queue :: "u64 list"
  dd_submissions :: "nat list"
  dd_accepting :: bool
  dd_shutdown :: bool
  dd_states :: "nat \<Rightarrow> 'x SubmissionInner"

definition driver_data_new :: "('x, 'h) DriverData" where
  "driver_data_new = \<lparr>dd_contexts = [], dd_staged = [], dd_cancel_queue = [], dd_owned_contexts = [],
     dd_owned_cancel_contexts = [], dd_owned_pending = [], dd_owned_cancel_queue = [],
     dd_submissions = [], dd_accepting = True, dd_shutdown = False,
     dd_states = (\<lambda>_. submission_new 0)\<rparr>"

text \<open>
  The interface of the \<open>io-uring\<close> crate: pushing an entry (\<open>None\<close> when the queue is full),
  submitting, reaping at most a number of completions (with a flag that tells whether the queue is
  then empty), the \<open>more\<close> flag and the body of a cancellation entry. \<open>alloc\<close> is \<open>Box::new\<close>: the
  address of a new box when the given addresses are live, \<open>None\<close> when memory is exhausted, where
  the standard library aborts.
\<close>

record 's sqe =
  sq_user_data :: u64
  sq_body :: 's

record ('q, 's, 'x) ring_lib =
  rl_push :: "'s sqe \<Rightarrow> 'q \<Rightarrow> 'q option"
  rl_submit :: "'q \<Rightarrow> nat io_result \<times> 'q"
  rl_reap :: "nat \<Rightarrow> 'q \<Rightarrow> 'x cqe list \<times> bool \<times> 'q"
  rl_more :: "u32 \<Rightarrow> bool"
  rl_async_cancel :: "u64 \<Rightarrow> 's"
  rl_alloc :: "u64 list \<Rightarrow> u64 option"

definition live_pointers :: "('x, 'h) DriverData \<Rightarrow> u64 list" where
  "live_pointers d = map fst (dd_contexts d) @ map fst (dd_owned_contexts d)
     @ map fst (dd_owned_cancel_contexts d)"

definition set_state :: "nat \<Rightarrow> 'x SubmissionInner \<Rightarrow> ('x, 'h) DriverData \<Rightarrow> ('x, 'h) DriverData" where
  "set_state s v d = d\<lparr>dd_states := (dd_states d)(s := v)\<rparr>"

section \<open>Registration and cancellation\<close>

text \<open>
  \<open>live\<close> tells which weak references can still be upgraded, \<open>s\<close> is the index of the new state.
\<close>

definition register_submission ::
  "nat \<Rightarrow> (nat \<Rightarrow> bool) \<Rightarrow> nat \<Rightarrow> ('x, 'h) DriverData \<Rightarrow> ('x, 'h) DriverData" where
  "register_submission limit live s d =
    (let d = set_state s (submission_new limit) d
     in d\<lparr>dd_submissions := filter live (dd_submissions d) @ [s]\<rparr>)"

definition cancel_targets :: "nat \<Rightarrow> ('x, 'h) DriverData \<Rightarrow> u64 list" where
  "cancel_targets s d = map fst (filter (\<lambda>(_, c). cx_kind c = CtxOriginal \<and> cx_phase c \<noteq> CtxTerminal
     \<and> \<not> cx_cancel_queued c \<and> cx_state c = s) (dd_contexts d))"

fun queue_cancels :: "u64 list \<Rightarrow> ('x, 'h) DriverData \<Rightarrow> CancelCommand list \<Rightarrow>
    (('x, 'h) DriverData \<times> CancelCommand list) exec" where
  "queue_cancels [] d commands = Return (d, commands)"
| "queue_cancels (p # ps) d commands =
    (case hm_get (dd_contexts d) p of
       None \<Rightarrow> Panic ''collected context''
     | Some c \<Rightarrow>
         queue_cancels ps
           (d\<lparr>dd_contexts := hm_update p (\<lambda>c. c\<lparr>cx_cancel_queued := True\<rparr>) (dd_contexts d)\<rparr>)
           (commands @ [\<lparr>cc_target = p, cc_index = cx_index c, cc_user_data = cx_user_data c,
              cc_state = cx_state c\<rparr>]))"

text \<open>\<open>request_cancel\<close> up to its final notification.\<close>

definition request_cancel :: "nat \<Rightarrow> Delivery \<Rightarrow> ('x, 'h) DriverData \<Rightarrow> ('x, 'h) DriverData exec" where
  "request_cancel s delivery d =
    (let d = set_state s (close_delivery delivery (dd_states d s)) d in
     exec_bind (queue_cancels (cancel_targets s d) d []) (\<lambda>(d, commands).
       let d = d\<lparr>dd_cancel_queue := dd_cancel_queue d @ commands\<rparr>;
           st = dd_states d s
       in Return (if commands \<noteq> [] then set_state s (st\<lparr>si_cancels := si_cancels st + length commands\<rparr>) d
                  else d)))"

section \<open>Staging and submission\<close>

fun stage_cancels ::
  "('q, 's, 'x, 'z) ring_lib_scheme \<Rightarrow> CancelCommand list \<Rightarrow> ('x, 'h) DriverData \<times> 'q
    \<Rightarrow> (('x, 'h) DriverData \<times> 'q) exec" where
  "stage_cancels L [] (d, q) = Return (d\<lparr>dd_cancel_queue := []\<rparr>, q)"
| "stage_cancels L (command # rest) (d, q) =
    (case rl_alloc L (live_pointers d) of
       None \<Rightarrow> Abort ''memory allocation failed''
     | Some p \<Rightarrow>
         if hm_contains p (dd_contexts d) then Abort ''reused live cancel pointer''
         else (case rl_push L \<lparr>sq_user_data = p, sq_body = rl_async_cancel L (cc_target command)\<rparr> q of
           None \<Rightarrow> Return (d\<lparr>dd_cancel_queue := command # rest\<rparr>, q)
         | Some q \<Rightarrow>
             stage_cancels L rest
               (d\<lparr>dd_cancel_queue := rest,
                  dd_contexts := hm_insert p \<lparr>cx_kind = CtxCancel, cx_phase = CtxStaged,
                    cx_index = cc_index command, cx_user_data = cc_user_data command,
                    cx_state = cc_state command, cx_target = Some (cc_target command),
                    cx_cancel_queued = False, cx_cancel_seen = False\<rparr> (dd_contexts d),
                  dd_staged := dd_staged d @ [StagedRaw p]\<rparr>, q)))"

definition stage_cancellations ::
  "('q, 's, 'x, 'z) ring_lib_scheme \<Rightarrow> ('x, 'h) DriverData \<times> 'q \<Rightarrow> (('x, 'h) DriverData \<times> 'q) exec" where
  "stage_cancellations L = (\<lambda>(d, q). stage_cancels L (dd_cancel_queue d) (d, q))"

definition is_retryable :: "'y libc_scheme \<Rightarrow> io_error \<Rightarrow> bool" where
  "is_retryable C e = (case raw_os_error e of
     None \<Rightarrow> False | Some c \<Rightarrow> c = EINTR C \<or> c = EAGAIN C \<or> c = EBUSY C)"

text \<open>One accepted entry: the front of the staged queue becomes known to the kernel.\<close>

definition accept_raw ::
  "u64 \<Rightarrow> ('x, 'h) DriverData \<Rightarrow> waker list \<Rightarrow> (('x, 'h) DriverData \<times> waker list) exec" where
  "accept_raw p d wakes =
    (case hm_get (dd_contexts d) p of
       None \<Rightarrow> Abort ''staged raw context disappeared''
     | Some c \<Rightarrow>
         if cx_phase c \<noteq> CtxStaged then Abort ''raw context submitted twice''
         else
           let d = d\<lparr>dd_contexts := hm_update p (\<lambda>c. c\<lparr>cx_phase := CtxSubmitted\<rparr>) (dd_contexts d)\<rparr> in
           if cx_kind c = CtxOriginal then
             let st = dd_states d (cx_state c);
                 (st, wakes) = take_admission_waker (st\<lparr>si_accepted := si_accepted st + 1\<rparr>) wakes
             in Return (set_state (cx_state c) st d, wakes)
           else Return (d, wakes))"

definition accept_owned :: "u64 \<Rightarrow> ('x, 'h) DriverData \<Rightarrow> ('x, 'h) DriverData exec" where
  "accept_owned p d =
    (case hm_get (dd_owned_contexts d) p of
       None \<Rightarrow> Abort ''staged owned context disappeared''
     | Some c \<Rightarrow>
         if oc_phase c \<noteq> CtxStaged then Abort ''owned context submitted twice''
         else Return (d\<lparr>dd_owned_contexts :=
           hm_update p (\<lambda>c. c\<lparr>oc_phase := CtxSubmitted\<rparr>) (dd_owned_contexts d)\<rparr>))"

definition accept_owned_cancel :: "u64 \<Rightarrow> ('x, 'h) DriverData \<Rightarrow> ('x, 'h) DriverData exec" where
  "accept_owned_cancel p d =
    (case hm_get (dd_owned_cancel_contexts d) p of
       None \<Rightarrow> Abort ''staged owned cancellation disappeared''
     | Some c \<Rightarrow>
         if on_phase c \<noteq> CtxStaged then Abort ''owned cancellation submitted twice''
         else Return (d\<lparr>dd_owned_cancel_contexts :=
           hm_update p (\<lambda>c. c\<lparr>on_phase := CtxSubmitted\<rparr>) (dd_owned_cancel_contexts d)\<rparr>))"

definition accept_one ::
  "StagedContext \<Rightarrow> ('x, 'h) DriverData \<Rightarrow> waker list \<Rightarrow> (('x, 'h) DriverData \<times> waker list) exec" where
  "accept_one e d wakes =
    (case e of
       StagedRaw p \<Rightarrow> accept_raw p d wakes
     | StagedOwned p \<Rightarrow> exec_bind (accept_owned p d) (\<lambda>d. Return (d, wakes))
     | StagedOwnedCancel p \<Rightarrow> exec_bind (accept_owned_cancel p d) (\<lambda>d. Return (d, wakes)))"

fun accept_prefix ::
  "nat \<Rightarrow> ('x, 'h) DriverData \<Rightarrow> waker list \<Rightarrow> (('x, 'h) DriverData \<times> waker list) exec" where
  "accept_prefix 0 d wakes = Return (d, wakes)"
| "accept_prefix (Suc n) d wakes =
    (case dd_staged d of
       [] \<Rightarrow> Panic ''validated staged prefix''
     | e # rest \<Rightarrow> exec_bind (accept_one e (d\<lparr>dd_staged := rest\<rparr>) wakes)
         (\<lambda>(d, wakes). accept_prefix n d wakes))"

definition submit_staged ::
  "'y libc_scheme \<Rightarrow> ('q, 's, 'x, 'z) ring_lib_scheme \<Rightarrow> ('x, 'h) DriverData \<times> 'q \<Rightarrow> waker list
    \<Rightarrow> ((('x, 'h) DriverData \<times> 'q) \<times> waker list) exec" where
  "submit_staged C L = (\<lambda>(d, q) wakes.
    (case rl_submit L q of
       (Inr accepted, q) \<Rightarrow>
         if length (dd_staged d) < accepted then Abort ''kernel accepted unstaged SQEs''
         else exec_bind (accept_prefix accepted d wakes) (\<lambda>(d, wakes). Return ((d, q), wakes))
     | (Inl e, q) \<Rightarrow>
         if is_retryable C e then Return ((d, q), wakes) else Abort ''unrecoverable submit error''))"

section \<open>Admission\<close>

text \<open>
  The caller's iterator is the list of its answers: \<open>Some\<close> entry, or \<open>None\<close>, which an iterator that
  is not fused may give before further entries; an exhausted list answers \<open>None\<close>.
\<close>

type_synonym 's sqe_iter = "'s sqe option list"

fun iter_next :: "'s sqe_iter \<Rightarrow> 's sqe option \<times> 's sqe_iter" where
  "iter_next [] = (None, [])"
| "iter_next (x # xs) = (x, xs)"

text \<open>The locals that \<open>admit\<close> updates through references: the entry that did not fit, the next index.\<close>

record 's admission =
  ad_iter :: "'s sqe_iter"
  ad_pending :: "(usize \<times> 's sqe) option"
  ad_next_index :: usize

text \<open>Staging one entry; \<open>None\<close> when the queue is full.\<close>

definition stage_original ::
  "('q, 's, 'x, 'z) ring_lib_scheme \<Rightarrow> nat \<Rightarrow> usize \<Rightarrow> 's sqe \<Rightarrow> ('x, 'h) DriverData \<times> 'q
    \<Rightarrow> (('x, 'h) DriverData \<times> 'q) option exec" where
  "stage_original L s index entry = (\<lambda>(d, q).
    (case rl_alloc L (live_pointers d) of
       None \<Rightarrow> Abort ''memory allocation failed''
     | Some p \<Rightarrow>
         if hm_contains p (dd_contexts d) then Abort ''allocator reused a live context pointer''
         else (case rl_push L (entry\<lparr>sq_user_data := p\<rparr>) q of
           None \<Rightarrow> Return None
         | Some q \<Rightarrow>
             let d = d\<lparr>dd_contexts := hm_insert p \<lparr>cx_kind = CtxOriginal, cx_phase = CtxStaged,
                         cx_index = index, cx_user_data = sq_user_data entry, cx_state = s,
                         cx_target = None, cx_cancel_queued = False, cx_cancel_seen = False\<rparr>
                         (dd_contexts d),
                       dd_staged := dd_staged d @ [StagedRaw p]\<rparr>;
                 st = dd_states d s
             in Return (Some (set_state s (st\<lparr>si_originals := si_originals st + 1\<rparr>) d, q)))))"

definition finish_iterator ::
  "nat \<Rightarrow> ('x, 'h) DriverData \<Rightarrow> waker list \<Rightarrow> ('x, 'h) DriverData \<times> waker list" where
  "finish_iterator s d wakes =
    (let (st, wakes) = take_admission_waker ((dd_states d s)\<lparr>si_iterator_finished := True\<rparr>) wakes
     in (set_state s st d, wakes))"

text \<open>The loop, entered with nothing pending; the flag says whether an entry was staged.\<close>

fun admit_loop ::
  "('q, 's, 'x, 'z) ring_lib_scheme \<Rightarrow> nat \<Rightarrow> 's sqe_iter \<Rightarrow> usize \<Rightarrow> bool \<Rightarrow> waker list
    \<Rightarrow> ('x, 'h) DriverData \<times> 'q \<Rightarrow> ('s admission \<times> bool \<times> waker list \<times> ('x, 'h) DriverData \<times> 'q) exec" where
  "admit_loop L s [] next staged wakes (d, q) =
    (let (d, wakes) = finish_iterator s d wakes
     in Return (\<lparr>ad_iter = [], ad_pending = None, ad_next_index = next\<rparr>, staged, wakes, d, q))"
| "admit_loop L s (None # it) next staged wakes (d, q) =
    (let (d, wakes) = finish_iterator s d wakes
     in Return (\<lparr>ad_iter = it, ad_pending = None, ad_next_index = next\<rparr>, staged, wakes, d, q))"
| "admit_loop L s (Some entry # it) next staged wakes (d, q) =
    (case checked_add next 1 of
       None \<Rightarrow> Abort ''SQE index exhausted''
     | Some next' \<Rightarrow>
         exec_bind (stage_original L s next entry (d, q)) (\<lambda>r. case r of
             None \<Rightarrow> Return (\<lparr>ad_iter = it, ad_pending = Some (next, entry), ad_next_index = next'\<rparr>,
                       staged, wakes, d, q)
           | Some dq \<Rightarrow> admit_loop L s it next' True wakes dq))"

text \<open>An entry left over from the previous poll goes first.\<close>

definition admit_all ::
  "('q, 's, 'x, 'z) ring_lib_scheme \<Rightarrow> nat \<Rightarrow> 's admission \<Rightarrow> ('x, 'h) DriverData \<times> 'q
    \<Rightarrow> ('s admission \<times> bool \<times> waker list \<times> ('x, 'h) DriverData \<times> 'q) exec" where
  "admit_all L s a = (\<lambda>(d, q).
    (case ad_pending a of
       None \<Rightarrow> admit_loop L s (ad_iter a) (ad_next_index a) False [] (d, q)
     | Some (index, entry) \<Rightarrow>
         exec_bind (stage_original L s index entry (d, q)) (\<lambda>r. case r of
             None \<Rightarrow> Return (a, False, [], d, q)
           | Some dq \<Rightarrow> admit_loop L s (ad_iter a) (ad_next_index a) True [] dq)))"

text \<open>
  \<open>admit\<close> without its notifications: the new locals, whether the driver must be notified, and the
  wakers to call. \<open>owned_busy\<close> says that completion-native work is queued, which goes first.
\<close>

definition admit ::
  "'y libc_scheme \<Rightarrow> ('q, 's, 'x, 'z) ring_lib_scheme \<Rightarrow> bool \<Rightarrow> nat \<Rightarrow> 's admission
    \<Rightarrow> ('x, 'h) DriverData \<times> 'q
    \<Rightarrow> ('s admission \<times> bool \<times> waker list \<times> ('x, 'h) DriverData \<times> 'q) exec" where
  "admit C L owned_queue_empty s a = (\<lambda>(d, q).
    (if \<not> dd_accepting d then
       exec_bind (request_cancel s DeliveryCancelling d) (\<lambda>d. Return (a, True, [], d, q))
     else if dd_owned_pending d \<noteq> [] \<or> dd_owned_cancel_queue d \<noteq> [] \<or> \<not> owned_queue_empty then
       Return (a, True, [], d, q)
     else
       exec_bind (stage_cancellations L (d, q)) (\<lambda>dq.
       exec_bind (admit_all L s a dq) (\<lambda>(a, staged, wakes, dq).
       exec_bind (submit_staged C L dq wakes) (\<lambda>(dq, wakes).
         Return (a, staged \<or> ad_pending a \<noteq> None, wakes, dq))))))"

end
