(* ===== verification/Uring_Raw.thy ===== *)
theory Uring_Raw
  imports Uring_Contexts
begin

text \<open>
  Dispatch of completions to submitted iterators in \<open>src/io_uring.rs\<close>, and the invariant of the
  driver's data for them: every context, staged entry, pending cancellation and counter is accounted
  for. Each operation of \<open>Uring_Contexts\<close> and the dispatch preserve it.
\<close>

section \<open>Dispatch\<close>

definition dispatch_original ::
  "'x cqe \<Rightarrow> bool \<Rightarrow> u64 \<Rightarrow> CqeContext \<Rightarrow> ('x, 'h) DriverData \<Rightarrow> waker list
    \<Rightarrow> nat option \<times> ('x, 'h) DriverData \<times> waker list" where
  "dispatch_original cqe again p c d wakes =
    (let st = dd_states d (cx_state c);
         (st, wakes) = (if \<not> si_iterator_finished st then take_admission_waker st wakes else (st, wakes));
         (overflow, st, wakes) = deliver_original \<lparr>cp_index = cx_index c, cp_cqe = cqe\<rparr> st wakes;
         (c, st, wakes) =
           (if \<not> again then (let (st, wakes) = finish_original st wakes
                              in (c\<lparr>cx_phase := CtxTerminal\<rparr>, st, wakes))
            else (c, st, wakes));
         d = set_state (cx_state c) st d;
         d = (if again \<or> cx_cancel_queued c \<and> \<not> cx_cancel_seen c
              then d\<lparr>dd_contexts := hm_insert p c (dd_contexts d)\<rparr> else d)
     in (if overflow then Some (cx_state c) else None, d, wakes))"

definition dispatch_cancel ::
  "'x cqe \<Rightarrow> bool \<Rightarrow> CqeContext \<Rightarrow> ('x, 'h) DriverData \<Rightarrow> waker list
    \<Rightarrow> (('x, 'h) DriverData \<times> waker list) exec" where
  "dispatch_cancel cqe again c d wakes =
    (if again then Abort ''multishot cancellation CQE''
     else case cx_target c of
       None \<Rightarrow> Abort ''cancel context without target''
     | Some target \<Rightarrow>
         let (st, wakes) = deliver_cancellation \<lparr>cp_index = cx_index c, cp_cqe = cqe\<rparr>
               (dd_states d (cx_state c)) wakes;
             d = set_state (cx_state c) st d
         in (case hm_get (dd_contexts d) target of
               None \<Rightarrow> Abort ''cancel target disappeared''
             | Some original \<Rightarrow>
                 let d = d\<lparr>dd_contexts :=
                       hm_update target (\<lambda>c. c\<lparr>cx_cancel_seen := True\<rparr>) (dd_contexts d)\<rparr>
                 in Return (if cx_phase original = CtxTerminal
                            then d\<lparr>dd_contexts := hm_remove target (dd_contexts d)\<rparr> else d, wakes)))"

definition dispatch_raw ::
  "('q, 's, 'x, 'z) ring_lib_scheme \<Rightarrow> 'x cqe \<Rightarrow> ('x, 'h) DriverData \<Rightarrow> waker list
    \<Rightarrow> (nat option \<times> ('x, 'h) DriverData \<times> waker list) exec" where
  "dispatch_raw L cqe d wakes =
    (let p = cq_user_data cqe; again = rl_more L (cq_flags cqe) in
     if p = 0 then Abort ''null CQE context pointer''
     else case hm_get (dd_contexts d) p of
       None \<Rightarrow> Abort ''unknown or duplicate CQE pointer''
     | Some c \<Rightarrow>
         if cx_phase c \<noteq> CtxSubmitted then Abort ''CQE for unsubmitted context''
         else
           let d = d\<lparr>dd_contexts := hm_remove p (dd_contexts d)\<rparr>;
               cqe = cqe\<lparr>cq_user_data := cx_user_data c\<rparr>
           in (case cx_kind c of
                 CtxOriginal \<Rightarrow> Return (dispatch_original cqe again p c d wakes)
               | CtxCancel \<Rightarrow> exec_bind (dispatch_cancel cqe again c d wakes)
                   (\<lambda>(d, wakes). Return (None, d, wakes))))"

section \<open>The invariant\<close>

definition awaits_cancel :: "CqeContext \<Rightarrow> bool" where
  "awaits_cancel c \<longleftrightarrow> cx_kind c = CtxOriginal \<and> cx_cancel_queued c \<and> \<not> cx_cancel_seen c"

text \<open>Every staged context occurs exactly once in the staged queue, and nothing else does.\<close>

definition staged_inv :: "('x, 'h) DriverData \<Rightarrow> bool" where
  "staged_inv d \<longleftrightarrow> (\<forall>p. count_list (dd_staged d) (StagedRaw p) =
     (case hm_get (dd_contexts d) p of Some c \<Rightarrow> of_bool (cx_phase c = CtxStaged) | None \<Rightarrow> 0))"

text \<open>
  A context that awaits its cancellation has exactly one of them under way, as a command or as a
  context; no other context, and no address that is not a context, is targeted.
\<close>

definition commands_for :: "u64 \<Rightarrow> CancelCommand list \<Rightarrow> nat" where
  "commands_for t q = length (filter (\<lambda>k. cc_target k = t) q)"

definition cancels_for :: "u64 \<Rightarrow> (u64, CqeContext) hashmap \<Rightarrow> nat" where
  "cancels_for t = hm_count (\<lambda>_ c. cx_kind c = CtxCancel \<and> cx_target c = Some t)"

definition cancel_inv :: "('x, 'h) DriverData \<Rightarrow> bool" where
  "cancel_inv d \<longleftrightarrow> (\<forall>t. commands_for t (dd_cancel_queue d) + cancels_for t (dd_contexts d)
     = (case hm_get (dd_contexts d) t of Some c \<Rightarrow> of_bool (awaits_cancel c) | None \<Rightarrow> 0))"

definition shape_ok :: "CqeContext \<Rightarrow> bool" where
  "shape_ok c \<longleftrightarrow> (cx_kind c = CtxCancel \<longrightarrow> cx_phase c \<noteq> CtxTerminal \<and> cx_target c \<noteq> None)
    \<and> (cx_phase c = CtxTerminal \<longrightarrow> awaits_cancel c) \<and> (cx_cancel_seen c \<longrightarrow> cx_cancel_queued c)"

definition shape_inv :: "('x, 'h) DriverData \<Rightarrow> bool" where
  "shape_inv d \<longleftrightarrow> (\<forall>p c. hm_get (dd_contexts d) p = Some c \<longrightarrow> p \<noteq> 0 \<and> shape_ok c)"

definition live_originals :: "nat \<Rightarrow> (u64, CqeContext) hashmap \<Rightarrow> nat" where
  "live_originals s = hm_count (\<lambda>_ c. cx_kind c = CtxOriginal \<and> cx_phase c \<noteq> CtxTerminal \<and> cx_state c = s)"

definition staged_originals :: "nat \<Rightarrow> (u64, CqeContext) hashmap \<Rightarrow> nat" where
  "staged_originals s = hm_count (\<lambda>_ c. cx_kind c = CtxOriginal \<and> cx_phase c = CtxStaged \<and> cx_state c = s)"

definition live_cancels :: "nat \<Rightarrow> (u64, CqeContext) hashmap \<Rightarrow> nat" where
  "live_cancels s = hm_count (\<lambda>_ c. cx_kind c = CtxCancel \<and> cx_state c = s)"

definition queued_cancels :: "nat \<Rightarrow> CancelCommand list \<Rightarrow> nat" where
  "queued_cancels s q = length (filter (\<lambda>k. cc_state k = s) q)"

text \<open>The counters of a submission are a ledger of its live contexts and pending commands.\<close>

definition ledger_ok :: "'x SubmissionInner \<Rightarrow> nat \<Rightarrow> (u64, CqeContext) hashmap \<Rightarrow> CancelCommand list \<Rightarrow> bool" where
  "ledger_ok st s m q \<longleftrightarrow> si_originals st = si_original_terminal st + live_originals s m
     \<and> si_originals st = si_accepted st + staged_originals s m
     \<and> si_cancels st = si_cancel_terminal st + live_cancels s m + queued_cancels s q"

definition ledger_inv :: "('x, 'h) DriverData \<Rightarrow> bool" where
  "ledger_inv d \<longleftrightarrow> (\<forall>s. ledger_ok (dd_states d s) s (dd_contexts d) (dd_cancel_queue d))"

definition raw_inv :: "('x, 'h) DriverData \<Rightarrow> bool" where
  "raw_inv d \<longleftrightarrow> hm_wf (dd_contexts d) \<and> staged_inv d \<and> cancel_inv d \<and> shape_inv d \<and> ledger_inv d
    \<and> (\<forall>s. si_bounded (dd_states d s))"

section \<open>Preservation\<close>

lemma set_state_simps [simp]:
  "dd_contexts (set_state s v d) = dd_contexts d" "dd_staged (set_state s v d) = dd_staged d"
  "dd_cancel_queue (set_state s v d) = dd_cancel_queue d"
  "dd_states (set_state s v d) = (dd_states d)(s := v)"
  "dd_owned_contexts (set_state s v d) = dd_owned_contexts d"
  "dd_owned_cancel_contexts (set_state s v d) = dd_owned_cancel_contexts d"
  "dd_owned_pending (set_state s v d) = dd_owned_pending d"
  "dd_owned_cancel_queue (set_state s v d) = dd_owned_cancel_queue d"
  "dd_submissions (set_state s v d) = dd_submissions d"
  "dd_accepting (set_state s v d) = dd_accepting d" "dd_shutdown (set_state s v d) = dd_shutdown d"
  by (simp_all add: set_state_def)

lemma count_list_append_other [simp]:
  "count_list (xs @ [x]) y = count_list xs y + (if x = y then 1 else 0)"
  by simp

text \<open>How the counts change with the table of contexts.\<close>

lemmas context_counts = cancels_for_def live_originals_def staged_originals_def live_cancels_def

lemma counts_Nil [simp]:
  "cancels_for t [] = 0" "live_originals s [] = 0" "staged_originals s [] = 0" "live_cancels s [] = 0"
  "commands_for t [] = 0" "queued_cancels s [] = 0"
  by (simp_all add: context_counts commands_for_def queued_cancels_def)

lemma commands_Cons [simp]:
  "commands_for t (k # q) = of_bool (cc_target k = t) + commands_for t q"
  "queued_cancels s (k # q) = of_bool (cc_state k = s) + queued_cancels s q"
  "commands_for t (q @ q') = commands_for t q + commands_for t q'"
  "queued_cancels s (q @ q') = queued_cancels s q + queued_cancels s q'"
  by (simp_all add: commands_for_def queued_cancels_def)

lemma counts_insert:
  assumes "hm_get m p = None"
  shows "cancels_for t (hm_insert p c m) = of_bool (cx_kind c = CtxCancel \<and> cx_target c = Some t) + cancels_for t m"
    and "live_originals s (hm_insert p c m)
      = of_bool (cx_kind c = CtxOriginal \<and> cx_phase c \<noteq> CtxTerminal \<and> cx_state c = s) + live_originals s m"
    and "staged_originals s (hm_insert p c m)
      = of_bool (cx_kind c = CtxOriginal \<and> cx_phase c = CtxStaged \<and> cx_state c = s) + staged_originals s m"
    and "live_cancels s (hm_insert p c m) = of_bool (cx_kind c = CtxCancel \<and> cx_state c = s) + live_cancels s m"
  using assms by (simp_all add: context_counts hm_count_insert_fresh)

lemma counts_remove:
  assumes "hm_wf m" "hm_get m p = Some c"
  shows "cancels_for t m = of_bool (cx_kind c = CtxCancel \<and> cx_target c = Some t) + cancels_for t (hm_remove p m)"
    and "live_originals s m = of_bool (cx_kind c = CtxOriginal \<and> cx_phase c \<noteq> CtxTerminal \<and> cx_state c = s)
      + live_originals s (hm_remove p m)"
    and "staged_originals s m = of_bool (cx_kind c = CtxOriginal \<and> cx_phase c = CtxStaged \<and> cx_state c = s)
      + staged_originals s (hm_remove p m)"
    and "live_cancels s m = of_bool (cx_kind c = CtxCancel \<and> cx_state c = s) + live_cancels s (hm_remove p m)"
  using assms by (simp_all add: context_counts hm_count_remove)

text \<open>A write through \<open>get_mut\<close> counts like removing the old value and inserting the new one.\<close>

lemma hm_count_update_eq:
  assumes "hm_wf m" "hm_get m p = Some c"
  shows "hm_count P (hm_update p f m) = (if P p (f c) then 1 else 0) + hm_count P (hm_remove p m)"
  using hm_count_update [OF assms, of P f] hm_count_remove [OF assms, of P] by auto

lemma counts_update:
  assumes "hm_wf m" "hm_get m p = Some c"
  shows "cancels_for t (hm_update p f m) = of_bool (cx_kind (f c) = CtxCancel \<and> cx_target (f c) = Some t)
      + cancels_for t (hm_remove p m)"
    and "live_originals s (hm_update p f m) = of_bool (cx_kind (f c) = CtxOriginal
        \<and> cx_phase (f c) \<noteq> CtxTerminal \<and> cx_state (f c) = s) + live_originals s (hm_remove p m)"
    and "staged_originals s (hm_update p f m) = of_bool (cx_kind (f c) = CtxOriginal
        \<and> cx_phase (f c) = CtxStaged \<and> cx_state (f c) = s) + staged_originals s (hm_remove p m)"
    and "live_cancels s (hm_update p f m) = of_bool (cx_kind (f c) = CtxCancel \<and> cx_state (f c) = s)
      + live_cancels s (hm_remove p m)"
  using assms by (simp_all add: context_counts hm_count_update_eq)

lemma raw_invI:
  assumes "hm_wf (dd_contexts d)"
    and "\<And>p. count_list (dd_staged d) (StagedRaw p) =
      (case hm_get (dd_contexts d) p of Some c \<Rightarrow> of_bool (cx_phase c = CtxStaged) | None \<Rightarrow> 0)"
    and "\<And>t. commands_for t (dd_cancel_queue d) + cancels_for t (dd_contexts d)
      = (case hm_get (dd_contexts d) t of Some c \<Rightarrow> of_bool (awaits_cancel c) | None \<Rightarrow> 0)"
    and "\<And>p c. hm_get (dd_contexts d) p = Some c \<Longrightarrow> p \<noteq> 0 \<and> shape_ok c"
    and "\<And>s. ledger_ok (dd_states d s) s (dd_contexts d) (dd_cancel_queue d)"
    and "\<And>s. si_bounded (dd_states d s)"
  shows "raw_inv d"
  using assms by (simp add: raw_inv_def staged_inv_def cancel_inv_def shape_inv_def ledger_inv_def)

lemma raw_invD:
  assumes "raw_inv d"
  shows "hm_wf (dd_contexts d)"
    and "count_list (dd_staged d) (StagedRaw p) =
      (case hm_get (dd_contexts d) p of Some c \<Rightarrow> of_bool (cx_phase c = CtxStaged) | None \<Rightarrow> 0)"
    and "commands_for t (dd_cancel_queue d) + cancels_for t (dd_contexts d)
      = (case hm_get (dd_contexts d) t of Some c \<Rightarrow> of_bool (awaits_cancel c) | None \<Rightarrow> 0)"
    and "hm_get (dd_contexts d) p = Some c \<Longrightarrow> p \<noteq> 0 \<and> shape_ok c"
    and "ledger_ok (dd_states d s) s (dd_contexts d) (dd_cancel_queue d)"
    and "si_bounded (dd_states d s)"
  using assms by (simp_all add: raw_inv_def staged_inv_def cancel_inv_def shape_inv_def ledger_inv_def)

lemma ledger_ok_cong:
  "si_counts st = si_counts st' \<Longrightarrow> ledger_ok st s m q = ledger_ok st' s m q"
  by (simp add: ledger_ok_def si_counts_eq_iff)

lemma raw_inv_new: "raw_inv driver_data_new"
  by (rule raw_invI) (simp_all add: driver_data_new_def ledger_ok_def, simp_all add: submission_new_def)

text \<open>Only the raw part of the data and the states matter.\<close>

lemma raw_inv_cong:
  assumes "dd_contexts d' = dd_contexts d" "dd_cancel_queue d' = dd_cancel_queue d"
    and "\<And>p. count_list (dd_staged d') (StagedRaw p) = count_list (dd_staged d) (StagedRaw p)"
    and "\<And>s. si_counts (dd_states d' s) = si_counts (dd_states d s)"
    and "\<And>s. si_bounded (dd_states d' s)" and "raw_inv d"
  shows "raw_inv d'"
proof (rule raw_invI)
  show "ledger_ok (dd_states d' s) s (dd_contexts d') (dd_cancel_queue d')" for s
    using raw_invD(5) [OF assms(6)] ledger_ok_cong [OF assms(4)] by (simp add: assms(1,2))
qed (use assms(5) raw_invD [OF assms(6)] in \<open>simp_all add: assms(1-3)\<close>)

lemma raw_inv_set_state:
  assumes "raw_inv d" "si_counts v = si_counts (dd_states d s)" "si_bounded v"
  shows "raw_inv (set_state s v d)"
  by (rule raw_inv_cong [OF _ _ _ _ _ assms(1)]) (use assms raw_invD(6) [OF assms(1)] in auto)

text \<open>A new context at a fresh address: a cancellation from the head of the queue, or an original.\<close>

lemma raw_inv_insert:
  assumes inv: "raw_inv d" and fresh: "hm_get (dd_contexts d) p = None" and "p \<noteq> 0"
    and phase: "cx_phase c = CtxStaged" and seen: "\<not> cx_cancel_queued c" "\<not> cx_cancel_seen c"
    and ctx: "dd_contexts d' = hm_insert p c (dd_contexts d)"
    and st: "dd_staged d' = dd_staged d @ [StagedRaw p]"
    and queue: "case cx_kind c of
        CtxOriginal \<Rightarrow> dd_cancel_queue d' = dd_cancel_queue d
          \<and> dd_states d' = (dd_states d)(cx_state c := (dd_states d (cx_state c))
               \<lparr>si_originals := si_originals (dd_states d (cx_state c)) + 1\<rparr>)
      | CtxCancel \<Rightarrow> dd_states d' = dd_states d \<and> (\<exists>k. dd_cancel_queue d = k # dd_cancel_queue d'
          \<and> cx_target c = Some (cc_target k) \<and> cx_state c = cc_state k)"
  shows "raw_inv d'"
proof -
  note I = raw_invD [OF inv]
  note C = counts_insert [OF fresh]
  have ne: "cc_target k \<noteq> p" if "dd_cancel_queue d = k # rest" for k rest
    using I(3) [of "cc_target k"] that fresh by auto
  show ?thesis
  proof (rule raw_invI)
    show "hm_wf (dd_contexts d')" using I(1) by (simp add: ctx)
  next
    fix q
    show "count_list (dd_staged d') (StagedRaw q) = (case hm_get (dd_contexts d') q of
        Some c \<Rightarrow> of_bool (cx_phase c = CtxStaged) | None \<Rightarrow> 0)"
      using I(2) [of q] fresh phase by (auto simp: ctx st)
  next
    fix t
    show "commands_for t (dd_cancel_queue d') + cancels_for t (dd_contexts d')
      = (case hm_get (dd_contexts d') t of Some c \<Rightarrow> of_bool (awaits_cancel c) | None \<Rightarrow> 0)"
      using I(3) [of t] queue ne fresh seen
      by (cases "cx_kind c") (auto simp: ctx C awaits_cancel_def split: if_splits)
  next
    fix q c'
    assume "hm_get (dd_contexts d') q = Some c'"
    then show "q \<noteq> 0 \<and> shape_ok c'"
      using I(4) [of q c'] assms(3) phase seen queue
      by (cases "cx_kind c") (auto simp: ctx shape_ok_def split: if_splits)
  next
    fix s
    show "ledger_ok (dd_states d' s) s (dd_contexts d') (dd_cancel_queue d')"
      using I(5) [of s] queue phase
      by (cases "cx_kind c") (auto simp: ctx C ledger_ok_def)
  next
    fix s
    show "si_bounded (dd_states d' s)"
      using I(6) [of s] I(6) [of "cx_state c"] queue by (cases "cx_kind c") (auto simp: si_bounded_def)
  qed
qed

text \<open>The kernel accepts the entry at the front of the staged queue.\<close>

lemma raw_inv_accept:
  assumes inv: "raw_inv d0" and st: "dd_staged d0 = StagedRaw p # dd_staged d"
    and same: "dd_contexts d = dd_contexts d0" "dd_cancel_queue d = dd_cancel_queue d0" "dd_states d = dd_states d0"
    and acc: "accept_raw p d wakes = Return (d', wakes')"
  shows "raw_inv d' \<and> dd_staged d' = dd_staged d"
proof -
  note I = raw_invD [OF inv]
  from acc obtain c where c: "hm_get (dd_contexts d0) p = Some c" and ph: "cx_phase c = CtxStaged"
    and ctx: "dd_contexts d' = hm_update p (\<lambda>c. c\<lparr>cx_phase := CtxSubmitted\<rparr>) (dd_contexts d0)"
    and q: "dd_cancel_queue d' = dd_cancel_queue d0" and st': "dd_staged d' = dd_staged d"
    and cnt: "\<And>s. si_counts (dd_states d' s) = si_counts (if cx_kind c = CtxOriginal \<and> s = cx_state c
        then (dd_states d0 s)\<lparr>si_accepted := si_accepted (dd_states d0 s) + 1\<rparr> else dd_states d0 s)"
    and bnd: "\<And>s. si_bounded (dd_states d' s)"
  proof -
    have b: "si_bounded (st\<lparr>si_accepted := n\<rparr>)" if "si_bounded st" for st :: "'a SubmissionInner" and n
      using that by (simp add: si_bounded_def)
    show ?thesis
      using acc I(6) that
      by (auto simp: accept_raw_def same b Let_def split: option.splits if_splits prod.splits
          dest!: arg_cong [where f = fst])
  qed
  note U = counts_update [OF I(1) c] and R = counts_remove [OF I(1) c]
  have "raw_inv d'"
  proof (rule raw_invI)
    fix r
    show "count_list (dd_staged d') (StagedRaw r) = (case hm_get (dd_contexts d') r of
        Some c \<Rightarrow> of_bool (cx_phase c = CtxStaged) | None \<Rightarrow> 0)"
      using I(2) [of r] c ph by (auto simp: ctx st st' split: option.splits)
  next
    fix t
    show "commands_for t (dd_cancel_queue d') + cancels_for t (dd_contexts d')
      = (case hm_get (dd_contexts d') t of Some c \<Rightarrow> of_bool (awaits_cancel c) | None \<Rightarrow> 0)"
      using I(3) [of t] c by (auto simp: ctx q U R awaits_cancel_def split: option.splits)
  next
    fix r c'
    assume "hm_get (dd_contexts d') r = Some c'"
    then show "r \<noteq> 0 \<and> shape_ok c'"
      using I(4) [of r] c ph by (auto simp: ctx shape_ok_def awaits_cancel_def split: if_splits)
  next
    fix s
    show "ledger_ok (dd_states d' s) s (dd_contexts d') (dd_cancel_queue d')"
      unfolding ledger_ok_cong [OF cnt] using I(5) [of s] ph by (auto simp: ctx q U R ledger_ok_def)
  qed (use I(1) bnd in \<open>simp_all add: ctx\<close>)
  with st' show ?thesis by simp
qed

text \<open>Marking one original and queueing its cancellation.\<close>

lemma raw_inv_mark:
  assumes inv: "raw_inv d" and c: "hm_get (dd_contexts d) p = Some c"
    and live: "cx_kind c = CtxOriginal" "cx_phase c \<noteq> CtxTerminal" "\<not> cx_cancel_queued c"
    and k: "cc_target k = p" "cc_state k = cx_state c"
    and ctx: "dd_contexts d' = hm_update p (\<lambda>c. c\<lparr>cx_cancel_queued := True\<rparr>) (dd_contexts d)"
    and q: "dd_cancel_queue d' = dd_cancel_queue d @ [k]" and st: "dd_staged d' = dd_staged d"
    and states: "dd_states d' = (dd_states d)(cx_state c := (dd_states d (cx_state c))
        \<lparr>si_cancels := si_cancels (dd_states d (cx_state c)) + 1\<rparr>)"
  shows "raw_inv d'"
proof -
  note I = raw_invD [OF inv]
  note U = counts_update [OF I(1) c] and R = counts_remove [OF I(1) c]
  from I(4) [OF c] live have seen: "\<not> cx_cancel_seen c" by (auto simp: shape_ok_def)
  show ?thesis
  proof (rule raw_invI)
    fix r
    show "count_list (dd_staged d') (StagedRaw r) = (case hm_get (dd_contexts d') r of
        Some c \<Rightarrow> of_bool (cx_phase c = CtxStaged) | None \<Rightarrow> 0)"
      using I(2) [of r] c by (auto simp: ctx st split: option.splits)
  next
    fix t
    show "commands_for t (dd_cancel_queue d') + cancels_for t (dd_contexts d')
      = (case hm_get (dd_contexts d') t of Some c \<Rightarrow> of_bool (awaits_cancel c) | None \<Rightarrow> 0)"
      using I(3) [of t] c live seen k by (auto simp: ctx q U R awaits_cancel_def split: option.splits)
  next
    fix r c'
    assume "hm_get (dd_contexts d') r = Some c'"
    then show "r \<noteq> 0 \<and> shape_ok c'"
      using I(4) [of r] c live by (auto simp: ctx shape_ok_def awaits_cancel_def split: if_splits)
  next
    fix s
    show "ledger_ok (dd_states d' s) s (dd_contexts d') (dd_cancel_queue d')"
      using I(5) [of s] live k by (auto simp: ctx q states U R ledger_ok_def)
  next
    fix s
    show "si_bounded (dd_states d' s)"
      using I(6) [of s] I(6) [of "cx_state c"] by (auto simp: states si_bounded_def)
  qed (use I(1) in \<open>simp add: ctx\<close>)
qed

text \<open>
  The loop collects its commands before it publishes them; \<open>published\<close> is the data with what has
  been collected so far.
\<close>

definition published :: "nat \<Rightarrow> ('x, 'h) DriverData \<Rightarrow> CancelCommand list \<Rightarrow> ('x, 'h) DriverData" where
  "published s d commands = set_state s ((dd_states d s)
      \<lparr>si_cancels := si_cancels (dd_states d s) + length commands\<rparr>)
    (d\<lparr>dd_cancel_queue := dd_cancel_queue d @ commands\<rparr>)"

definition cancellable :: "nat \<Rightarrow> CqeContext \<Rightarrow> bool" where
  "cancellable s c \<longleftrightarrow> cx_kind c = CtxOriginal \<and> cx_phase c \<noteq> CtxTerminal \<and> \<not> cx_cancel_queued c \<and> cx_state c = s"

lemma queue_cancels_inv:
  assumes "distinct ps" and "\<forall>p \<in> set ps. \<exists>c. hm_get (dd_contexts d) p = Some c \<and> cancellable s c"
    and "raw_inv (published s d commands)"
  shows "\<exists>d' commands'. queue_cancels ps d commands = Return (d', commands')
    \<and> raw_inv (published s d' commands')
    \<and> (\<exists>m. d' = d\<lparr>dd_contexts := m\<rparr>) \<and> length commands' = length commands + length ps
    \<and> (\<forall>p. hm_get (dd_contexts d') p = (if p \<in> set ps
          then map_option (\<lambda>c. c\<lparr>cx_cancel_queued := True\<rparr>) (hm_get (dd_contexts d) p)
          else hm_get (dd_contexts d) p))"
  using assms
proof (induction ps arbitrary: d commands)
  case Nil
  then show ?case by (auto intro: exI [of _ "dd_contexts d"])
next
  case (Cons p ps)
  then obtain c where c: "hm_get (dd_contexts d) p = Some c" "cancellable s c" by auto
  let ?k = "\<lparr>cc_target = p, cc_index = cx_index c, cc_user_data = cx_user_data c, cc_state = cx_state c\<rparr>"
  let ?d = "d\<lparr>dd_contexts := hm_update p (\<lambda>c. c\<lparr>cx_cancel_queued := True\<rparr>) (dd_contexts d)\<rparr>"
  have "raw_inv (published s ?d (commands @ [?k]))"
    by (rule raw_inv_mark [OF Cons.prems(3), of p c ?k])
      (use c in \<open>auto simp: published_def cancellable_def\<close>)
  moreover have "\<forall>r \<in> set ps. \<exists>c. hm_get (dd_contexts ?d) r = Some c \<and> cancellable s c"
    using Cons.prems by auto
  ultimately obtain d' commands' where IH: "queue_cancels ps ?d (commands @ [?k]) = Return (d', commands')"
    "raw_inv (published s d' commands')" "\<exists>m. d' = ?d\<lparr>dd_contexts := m\<rparr>"
    "length commands' = length (commands @ [?k]) + length ps"
    "\<forall>r. hm_get (dd_contexts d') r = (if r \<in> set ps
          then map_option (\<lambda>c. c\<lparr>cx_cancel_queued := True\<rparr>) (hm_get (dd_contexts ?d) r)
          else hm_get (dd_contexts ?d) r)"
    using Cons.IH [of ?d "commands @ [?k]"] Cons.prems(1) by auto
  from IH(3) have "\<exists>m. d' = d\<lparr>dd_contexts := m\<rparr>" by auto
  with IH(1,2,4,5) c Cons.prems(1) show ?case by (intro exI [of _ d'] exI [of _ commands']) auto
qed

lemma cancel_targets_iff:
  "raw_inv d \<Longrightarrow> p \<in> set (cancel_targets s d) \<longleftrightarrow> (\<exists>c. hm_get (dd_contexts d) p = Some c \<and> cancellable s c)"
  using raw_invD(1) [of d] by (force simp: cancel_targets_def cancellable_def hm_get_set)

lemma distinct_cancel_targets: "raw_inv d \<Longrightarrow> distinct (cancel_targets s d)"
  using raw_invD(1) [of d] by (simp add: cancel_targets_def hm_wf_def distinct_map inj_on_def distinct_filter)

lemma published_Nil [simp]: "published s d [] = d"
  by (simp add: published_def set_state_def)

text \<open>
  Cancelling a submission never fails; it leaves no context of it without a cancellation, and
  touches nothing but its own contexts, its own state and the queue.
\<close>

lemma request_cancel_returns:
  assumes "raw_inv d" "delivery \<noteq> DeliveryOpen"
  shows "\<exists>d'. request_cancel s delivery d = Return d' \<and> raw_inv d'
    \<and> (\<forall>p. hm_get (dd_contexts d') p = map_option (\<lambda>c. if cancellable s c then c\<lparr>cx_cancel_queued := True\<rparr> else c)
          (hm_get (dd_contexts d) p))
    \<and> (\<exists>m q st. d' = d\<lparr>dd_contexts := m, dd_cancel_queue := dd_cancel_queue d @ q,
          dd_states := (dd_states d)(s := st)\<rparr>
        \<and> si_delivery st = si_delivery (close_delivery delivery (dd_states d s)))"
proof -
  let ?d = "set_state s (close_delivery delivery (dd_states d s)) d"
  have inv: "raw_inv ?d"
    by (rule raw_inv_set_state [OF assms(1)]) (use assms raw_invD(6) [OF assms(1)] in simp_all)
  from queue_cancels_inv [of "cancel_targets s ?d" ?d s "[]"] inv
  obtain d' ks where q: "queue_cancels (cancel_targets s ?d) ?d [] = Return (d', ks)"
    "raw_inv (published s d' ks)" "\<exists>m. d' = ?d\<lparr>dd_contexts := m\<rparr>"
    "\<forall>p. hm_get (dd_contexts d') p = (if p \<in> set (cancel_targets s ?d)
          then map_option (\<lambda>c. c\<lparr>cx_cancel_queued := True\<rparr>) (hm_get (dd_contexts ?d) p)
          else hm_get (dd_contexts ?d) p)"
    by (auto simp: cancel_targets_iff distinct_cancel_targets)
  have r: "request_cancel s delivery d = Return (published s d' ks)"
    by (simp add: request_cancel_def Let_def q(1)) (auto simp: published_def set_state_def)
  have get: "hm_get (dd_contexts d') p = map_option (\<lambda>c. if cancellable s c then c\<lparr>cx_cancel_queued := True\<rparr> else c)
          (hm_get (dd_contexts d) p)" for p
    using q(4) cancel_targets_iff [OF inv, of p s] by (cases "hm_get (dd_contexts d) p") auto
  from q(3) obtain m where m: "d' = ?d\<lparr>dd_contexts := m\<rparr>" by blast
  let ?st = "(close_delivery delivery (dd_states d s))
      \<lparr>si_cancels := si_cancels (close_delivery delivery (dd_states d s)) + length ks\<rparr>"
  have pub: "published s d' ks = d\<lparr>dd_contexts := m, dd_cancel_queue := dd_cancel_queue d @ ks,
      dd_states := (dd_states d)(s := ?st)\<rparr>"
    by (simp add: published_def set_state_def m)
  show ?thesis
  proof (intro exI conjI)
    show "request_cancel s delivery d = Return (published s d' ks)" by (rule r)
    show "raw_inv (published s d' ks)" by (rule q(2))
    show "\<forall>p. hm_get (dd_contexts (published s d' ks)) p
        = map_option (\<lambda>c. if cancellable s c then c\<lparr>cx_cancel_queued := True\<rparr> else c) (hm_get (dd_contexts d) p)"
      using get by (simp add: published_def)
    show "published s d' ks = d\<lparr>dd_contexts := m, dd_cancel_queue := dd_cancel_queue d @ ks,
      dd_states := (dd_states d)(s := ?st)\<rparr>" by (rule pub)
    show "si_delivery ?st = si_delivery (close_delivery delivery (dd_states d s))" by simp
  qed
qed

subsection \<open>Dispatch\<close>

text \<open>An original whose completion is not the last one keeps its context; its counters stay.\<close>

lemma dispatch_original_shape:
  assumes disp: "dispatch_original cqe again p c (d\<lparr>dd_contexts := m\<rparr>) wakes = (r, d', wakes')"
    and bnd: "si_bounded (dd_states d (cx_state c))"
  obtains st where "d' = d\<lparr>dd_states := (dd_states d)(cx_state c := st),
        dd_contexts := (if again \<or> cx_cancel_queued c \<and> \<not> cx_cancel_seen c
          then hm_insert p (if again then c else c\<lparr>cx_phase := CtxTerminal\<rparr>) m else m)\<rparr>"
    and "si_bounded st" and "si_counts st = si_counts ((dd_states d (cx_state c))
        \<lparr>si_original_terminal := si_original_terminal (dd_states d (cx_state c)) + of_bool (\<not> again)\<rparr>)"
    and "r = (if fst (deliver_original \<lparr>cp_index = cx_index c, cp_cqe = cqe\<rparr>
              (if \<not> si_iterator_finished (dd_states d (cx_state c))
               then fst (take_admission_waker (dd_states d (cx_state c)) wakes)
               else dd_states d (cx_state c)) wakes) then Some (cx_state c) else None)"
proof -
  let ?s0 = "dd_states d (cx_state c)"
  define a where "a = (if \<not> si_iterator_finished ?s0 then take_admission_waker ?s0 wakes else (?s0, wakes))"
  have a: "si_bounded (fst a)" "si_counts (fst a) = si_counts ?s0"
    using bnd by (simp_all add: a_def)
  define x where "x = deliver_original \<lparr>cp_index = cx_index c, cp_cqe = cqe\<rparr> (fst a) (snd a)"
  have x: "si_bounded (fst (snd x))" "si_counts (fst (snd x)) = si_counts ?s0"
    using a by (simp_all add: x_def)
  have flag: "fst (deliver_original k st w) = fst (deliver_original k st w')" for k and st :: "'a SubmissionInner" and w w'
    by (simp add: deliver_original_def Let_def split: prod.splits)
  define y where "y = (if again then snd x else finish_original (fst (snd x)) (snd (snd x)))"
  have "si_counts (fst (snd x) \<lparr>si_original_terminal := si_original_terminal (fst (snd x)) + 1\<rparr>)
      = si_counts (?s0\<lparr>si_original_terminal := si_original_terminal ?s0 + 1\<rparr>)"
    using x(2) by (simp add: si_counts_eq_iff)
  then have y: "si_bounded (fst y)" "si_counts (fst y)
      = si_counts (?s0\<lparr>si_original_terminal := si_original_terminal ?s0 + of_bool (\<not> again)\<rparr>)"
    using x by (auto simp: y_def)
  from disp have d': "d' = d\<lparr>dd_states := (dd_states d)(cx_state c := fst y),
        dd_contexts := (if again \<or> cx_cancel_queued c \<and> \<not> cx_cancel_seen c
          then hm_insert p (if again then c else c\<lparr>cx_phase := CtxTerminal\<rparr>) m else m)\<rparr>"
    and r: "r = (if fst x then Some (cx_state c) else None)"
    by (auto simp: dispatch_original_def Let_def case_prod_beta x_def a_def y_def set_state_def)
  have "fst x = fst (deliver_original \<lparr>cp_index = cx_index c, cp_cqe = cqe\<rparr>
      (if \<not> si_iterator_finished ?s0 then fst (take_admission_waker ?s0 wakes) else ?s0) wakes)"
    unfolding x_def by (subst flag [of _ _ _ wakes]) (simp add: a_def)
  with d' r y show ?thesis by (intro that [of "fst y"]) simp_all
qed

lemma raw_inv_dispatch_original:
  assumes inv: "raw_inv d" and c: "hm_get (dd_contexts d) p = Some c" "cx_phase c = CtxSubmitted"
    and kind: "cx_kind c = CtxOriginal"
    and disp: "dispatch_original cqe again p c (d\<lparr>dd_contexts := hm_remove p (dd_contexts d)\<rparr>) wakes = (r, d', wakes')"
  shows "raw_inv d'"
proof -
  note I = raw_invD [OF inv]
  define m where "m = hm_remove p (dd_contexts d)"
  have fresh: "hm_get m p = None" and wf: "hm_wf m" using I(1) by (simp_all add: m_def)
  note R = counts_remove [OF I(1) c(1), folded m_def] and C = counts_insert [OF fresh]
  obtain st where d': "d' = d\<lparr>dd_states := (dd_states d)(cx_state c := st),
        dd_contexts := (if again \<or> cx_cancel_queued c \<and> \<not> cx_cancel_seen c
          then hm_insert p (if again then c else c\<lparr>cx_phase := CtxTerminal\<rparr>) m else m)\<rparr>"
    and st: "si_bounded st" "si_counts st = si_counts ((dd_states d (cx_state c))
        \<lparr>si_original_terminal := si_original_terminal (dd_states d (cx_state c)) + of_bool (\<not> again)\<rparr>)"
    using dispatch_original_shape [OF disp [folded m_def] I(6)] by blast
  show ?thesis
  proof (rule raw_invI)
    show "hm_wf (dd_contexts d')" using wf by (simp add: d')
  next
    fix r
    show "count_list (dd_staged d') (StagedRaw r) = (case hm_get (dd_contexts d') r of
        Some c \<Rightarrow> of_bool (cx_phase c = CtxStaged) | None \<Rightarrow> 0)"
      using I(2) [of r] c by (auto simp: d' m_def)
  next
    fix t
    show "commands_for t (dd_cancel_queue d') + cancels_for t (dd_contexts d')
      = (case hm_get (dd_contexts d') t of Some c \<Rightarrow> of_bool (awaits_cancel c) | None \<Rightarrow> 0)"
      using I(3) [of t] c kind by (auto simp: d' C R awaits_cancel_def) (auto simp: m_def)
  next
    fix r c'
    assume "hm_get (dd_contexts d') r = Some c'"
    then show "r \<noteq> 0 \<and> shape_ok c'"
      using I(4) [of r] c kind
      by (auto simp: d' m_def shape_ok_def awaits_cancel_def split: if_splits)
  next
    fix s
    show "ledger_ok (dd_states d' s) s (dd_contexts d') (dd_cancel_queue d')"
      using I(5) [of s] c(2) kind st(2) by (auto simp: d' C R ledger_ok_def si_counts_eq_iff)
  next
    fix s
    show "si_bounded (dd_states d' s)" using I(6) st(1) by (simp add: d')
  qed
qed

lemma hm_remove_update [simp]: "hm_remove p (hm_update p f m) = hm_remove p m"
  by (induction m) (auto simp: hm_remove_def hm_update_def)

lemma dispatch_cancel_shape:
  assumes disp: "dispatch_cancel cqe again c (d\<lparr>dd_contexts := m\<rparr>) wakes = Return (d', wakes')"
    and bnd: "si_bounded (dd_states d (cx_state c))"
  obtains t o' st where "\<not> again" "cx_target c = Some t" "hm_get m t = Some o'"
    and "d' = d\<lparr>dd_states := (dd_states d)(cx_state c := st),
        dd_contexts := (if cx_phase o' = CtxTerminal then hm_remove t m
          else hm_update t (\<lambda>c. c\<lparr>cx_cancel_seen := True\<rparr>) m)\<rparr>"
    and "si_bounded st" and "si_counts st = si_counts ((dd_states d (cx_state c))
        \<lparr>si_cancel_terminal := si_cancel_terminal (dd_states d (cx_state c)) + 1\<rparr>)"
proof -
  let ?x = "deliver_cancellation \<lparr>cp_index = cx_index c, cp_cqe = cqe\<rparr> (dd_states d (cx_state c)) wakes"
  from disp obtain t o' where t: "\<not> again" "cx_target c = Some t" "hm_get m t = Some o'"
    "d' = d\<lparr>dd_states := (dd_states d)(cx_state c := fst ?x),
        dd_contexts := (if cx_phase o' = CtxTerminal then hm_remove t m
          else hm_update t (\<lambda>c. c\<lparr>cx_cancel_seen := True\<rparr>) m)\<rparr>"
    by (auto simp: dispatch_cancel_def Let_def case_prod_beta set_state_def split: option.splits if_splits)
  have "si_bounded (fst ?x)" using bnd by simp
  with t show ?thesis by (intro that [of t o' "fst ?x"]) simp_all
qed

lemma raw_inv_dispatch_cancel:
  assumes inv: "raw_inv d" and c: "hm_get (dd_contexts d) p = Some c" "cx_phase c = CtxSubmitted"
    and kind: "cx_kind c = CtxCancel"
    and disp: "dispatch_cancel cqe again c (d\<lparr>dd_contexts := hm_remove p (dd_contexts d)\<rparr>) wakes = Return (d', wakes')"
  shows "raw_inv d'"
proof -
  note I = raw_invD [OF inv]
  define m where "m = hm_remove p (dd_contexts d)"
  have wf: "hm_wf m" using I(1) by (simp add: m_def)
  note R = counts_remove [OF I(1) c(1), folded m_def]
  obtain t o' st where t: "cx_target c = Some t" "hm_get m t = Some o'"
    and d': "d' = d\<lparr>dd_states := (dd_states d)(cx_state c := st),
        dd_contexts := (if cx_phase o' = CtxTerminal then hm_remove t m
          else hm_update t (\<lambda>c. c\<lparr>cx_cancel_seen := True\<rparr>) m)\<rparr>"
    and st: "si_bounded st" "si_counts st = si_counts ((dd_states d (cx_state c))
        \<lparr>si_cancel_terminal := si_cancel_terminal (dd_states d (cx_state c)) + 1\<rparr>)"
    using dispatch_cancel_shape [OF disp [folded m_def] I(6)] by blast
  note R' = counts_remove [OF wf t(2)] and U = counts_update [OF wf t(2)]
  from t(2) have tp: "t \<noteq> p" and gt: "hm_get (dd_contexts d) t = Some o'"
    by (auto simp: m_def split: if_splits)
  have aw: "awaits_cancel o'" and zero: "commands_for t (dd_cancel_queue d) = 0" "cancels_for t m = 0"
    using I(3) [of t] gt c(1) kind t(1) by (cases "awaits_cancel o'"; simp add: R)+
  then have o': "cx_kind o' = CtxOriginal" by (simp add: awaits_cancel_def)
  show ?thesis
  proof (rule raw_invI)
    show "hm_wf (dd_contexts d')" using wf by (simp add: d')
  next
    fix r
    show "count_list (dd_staged d') (StagedRaw r) = (case hm_get (dd_contexts d') r of
        Some c \<Rightarrow> of_bool (cx_phase c = CtxStaged) | None \<Rightarrow> 0)"
      using I(2) [of r] c gt tp by (auto simp: d' m_def split: option.splits)
  next
    fix u
    show "commands_for u (dd_cancel_queue d') + cancels_for u (dd_contexts d')
      = (case hm_get (dd_contexts d') u of Some c \<Rightarrow> of_bool (awaits_cancel c) | None \<Rightarrow> 0)"
    proof (cases "u = t")
      case True
      with zero o' t(2) R'(1) [of t] show ?thesis by (auto simp: d' U awaits_cancel_def)
    next
      case False
      with I(3) [of u] c kind o' t tp R'(1) [of u] show ?thesis
        by (auto simp: d' R U) (auto simp: m_def awaits_cancel_def split: option.splits)
    qed
  next
    fix r c'
    assume "hm_get (dd_contexts d') r = Some c'"
    then show "r \<noteq> 0 \<and> shape_ok c'"
      using I(4) [of r] t(2) aw o'
      by (auto simp: d' m_def shape_ok_def awaits_cancel_def split: if_splits)
  next
    fix s
    show "ledger_ok (dd_states d' s) s (dd_contexts d') (dd_cancel_queue d')"
      using I(5) [of s] c(2) kind st(2) o' R'(2-) [of s]
      by (auto simp: d' R U ledger_ok_def si_counts_eq_iff)
  next
    fix s
    show "si_bounded (dd_states d' s)" using I(6) st(1) by (simp add: d')
  qed
qed

lemma dispatch_raw_inv:
  assumes "raw_inv d" "dispatch_raw L cqe d wakes = Return (r, d', wakes')"
  shows "raw_inv d'"
proof -
  from assms(2) obtain c where c: "hm_get (dd_contexts d) (cq_user_data cqe) = Some c" "cx_phase c = CtxSubmitted"
    by (auto simp: dispatch_raw_def Let_def split: option.splits if_splits)
  show ?thesis
  proof (cases "cx_kind c")
    case CtxOriginal
    with assms(2) c show ?thesis
      by (intro raw_inv_dispatch_original [OF assms(1) c CtxOriginal])
        (auto simp: dispatch_raw_def Let_def split: if_splits)
  next
    case CtxCancel
    with assms(2) c show ?thesis
      by (auto simp: dispatch_raw_def Let_def split: if_splits
          intro: raw_inv_dispatch_cancel [OF assms(1) c CtxCancel])
  qed
qed

subsection \<open>Staging, acceptance and admission\<close>

definition alloc_ok :: "('q, 's, 'x, 'z) ring_lib_scheme \<Rightarrow> bool" where
  "alloc_ok L \<longleftrightarrow> (\<forall>live p. rl_alloc L live = Some p \<longrightarrow> p \<noteq> 0 \<and> p \<notin> set live)"

lemma hm_contains_fresh: "\<not> hm_contains p m \<Longrightarrow> hm_get m p = None"
  by (simp add: hm_contains_def)

lemma stage_cancels_inv:
  "alloc_ok L \<Longrightarrow> raw_inv d \<Longrightarrow> dd_cancel_queue d = ks \<Longrightarrow> stage_cancels L ks (d, q) = Return (d', q')
    \<Longrightarrow> raw_inv d'"
proof (induction ks arbitrary: d q)
  case Nil
  then have "d' = d" by (cases d) simp
  with Nil show ?case by simp
next
  case (Cons k ks)
  from Cons.prems(4) obtain p where p: "rl_alloc L (live_pointers d) = Some p"
    and fresh: "hm_get (dd_contexts d) p = None"
    by (auto split: option.splits if_splits dest!: hm_contains_fresh)
  from p Cons.prems(1) have nz: "p \<noteq> 0" by (auto simp: alloc_ok_def)
  let ?c = "\<lparr>cx_kind = CtxCancel, cx_phase = CtxStaged, cx_index = cc_index k, cx_user_data = cc_user_data k,
      cx_state = cc_state k, cx_target = Some (cc_target k), cx_cancel_queued = False, cx_cancel_seen = False\<rparr>"
  show ?case
  proof (cases "rl_push L \<lparr>sq_user_data = p, sq_body = rl_async_cancel L (cc_target k)\<rparr> q")
    case None
    with Cons.prems p fresh have "d' = d" by (auto simp: hm_contains_def)
    with Cons.prems show ?thesis by simp
  next
    case (Some q1)
    let ?d = "d\<lparr>dd_cancel_queue := ks, dd_contexts := hm_insert p ?c (dd_contexts d),
        dd_staged := dd_staged d @ [StagedRaw p]\<rparr>"
    have "raw_inv ?d"
      by (rule raw_inv_insert [OF Cons.prems(2) fresh nz, of ?c]) (use Cons.prems in simp_all)
    with Cons.IH [of ?d q1] Cons.prems p fresh Some show ?thesis by (simp add: hm_contains_def)
  qed
qed

lemma stage_original_inv:
  assumes "alloc_ok L" "raw_inv d" "stage_original L s i e (d, q) = Return (Some (d', q'))"
  shows "raw_inv d'"
proof -
  from assms(3) obtain p where p: "rl_alloc L (live_pointers d) = Some p"
    and fresh: "hm_get (dd_contexts d) p = None"
    and d': "d' = set_state s ((dd_states d s)\<lparr>si_originals := si_originals (dd_states d s) + 1\<rparr>)
      (d\<lparr>dd_contexts := hm_insert p \<lparr>cx_kind = CtxOriginal, cx_phase = CtxStaged, cx_index = i,
          cx_user_data = sq_user_data e, cx_state = s, cx_target = None, cx_cancel_queued = False,
          cx_cancel_seen = False\<rparr> (dd_contexts d), dd_staged := dd_staged d @ [StagedRaw p]\<rparr>)"
    by (auto simp: stage_original_def Let_def split: option.splits if_splits dest!: hm_contains_fresh)
  from p assms(1) have nz: "p \<noteq> 0" by (auto simp: alloc_ok_def)
  show ?thesis
    by (rule raw_inv_insert [OF assms(2) fresh nz]) (auto simp: d')
qed

lemma finish_iterator_inv: "raw_inv d \<Longrightarrow> raw_inv (fst (finish_iterator s d wakes))"
  using raw_invD(6) [of d s]
  by (auto simp: finish_iterator_def case_prod_beta si_counts_eq_iff si_bounded_def take_admission_waker_def
      option_take_def intro!: raw_inv_set_state)

lemma admit_loop_inv:
  "alloc_ok L \<Longrightarrow> raw_inv d \<Longrightarrow> admit_loop L s it i staged wakes (d, q) = Return (a, st, w, d', q')
    \<Longrightarrow> raw_inv d'"
proof (induction it arbitrary: i staged wakes d q)
  case Nil
  with finish_iterator_inv [of d s wakes] show ?case by (auto simp: case_prod_beta)
next
  case (Cons x it)
  show ?case
  proof (cases x)
    case None
    with Cons.prems finish_iterator_inv [of d s wakes] show ?thesis by (auto simp: case_prod_beta)
  next
    case (Some e)
    with Cons.prems obtain i' r where r: "checked_add i 1 = Some i'" "stage_original L s i e (d, q) = Return r"
      "(case r of None \<Rightarrow> d' = d | Some dq \<Rightarrow> admit_loop L s it i' True wakes dq = Return (a, st, w, d', q'))"
      by (auto split: option.splits)
    show ?thesis
    proof (cases r)
      case None
      with r Cons.prems show ?thesis by simp
    next
      case (Some dq)
      obtain d1 q1 where dq: "dq = (d1, q1)" by (cases dq)
      with r Some stage_original_inv [OF Cons.prems(1,2)] have "raw_inv d1" by auto
      with Cons.IH [OF Cons.prems(1)] r Some dq show ?thesis by simp
    qed
  qed
qed

lemma admit_all_inv:
  assumes "alloc_ok L" "raw_inv d" "admit_all L s a (d, q) = Return (a', st, w, d', q')"
  shows "raw_inv d'"
proof (cases "ad_pending a")
  case None
  with assms admit_loop_inv [OF assms(1,2)] show ?thesis by (simp add: admit_all_def)
next
  case (Some p)
  obtain i e where p: "p = (i, e)" by (cases p)
  with Some assms(3) obtain r where r: "stage_original L s i e (d, q) = Return r"
    "(case r of None \<Rightarrow> d' = d | Some dq \<Rightarrow> admit_loop L s (ad_iter a) (ad_next_index a) True [] dq
        = Return (a', st, w, d', q'))"
    by (auto simp: admit_all_def split: option.splits)
  show ?thesis
  proof (cases r)
    case None
    with r assms show ?thesis by simp
  next
    case (Some dq)
    obtain d1 q1 where dq: "dq = (d1, q1)" by (cases dq)
    with r Some stage_original_inv [OF assms(1,2)] have "raw_inv d1" by auto
    with admit_loop_inv [OF assms(1)] r Some dq show ?thesis by simp
  qed
qed

text \<open>Accepting an owned entry leaves the raw part alone.\<close>

lemma accept_one_inv:
  assumes "raw_inv d" "dd_staged d = e # rest" "accept_one e (d\<lparr>dd_staged := rest\<rparr>) wakes = Return (d', wakes')"
  shows "raw_inv d' \<and> dd_staged d' = rest"
proof (cases e)
  case (StagedRaw p)
  with raw_inv_accept [OF assms(1), of p "d\<lparr>dd_staged := rest\<rparr>" wakes d' wakes'] assms show ?thesis
    by (simp add: accept_one_def)
next
  case (StagedOwned p)
  with assms show ?thesis
    by (auto simp: accept_one_def accept_owned_def split: option.splits if_splits intro!: raw_inv_cong [OF _ _ _ _ _ assms(1)]
        raw_invD(6) [OF assms(1)])
next
  case (StagedOwnedCancel p)
  with assms show ?thesis
    by (auto simp: accept_one_def accept_owned_cancel_def split: option.splits if_splits
        intro!: raw_inv_cong [OF _ _ _ _ _ assms(1)] raw_invD(6) [OF assms(1)])
qed

lemma accept_prefix_inv:
  "raw_inv d \<Longrightarrow> accept_prefix n d wakes = Return (d', wakes') \<Longrightarrow> raw_inv d'"
proof (induction n arbitrary: d wakes)
  case (Suc n)
  then obtain e rest d1 w1 where "dd_staged d = e # rest"
    "accept_one e (d\<lparr>dd_staged := rest\<rparr>) wakes = Return (d1, w1)" "accept_prefix n d1 w1 = Return (d', wakes')"
    by (auto split: list.splits)
  with accept_one_inv [OF Suc.prems(1)] Suc.IH show ?case by blast
qed simp

lemma submit_staged_inv:
  assumes "raw_inv d" "submit_staged C L (d, q) wakes = Return ((d', q'), wakes')"
  shows "raw_inv d'"
  using assms accept_prefix_inv [OF assms(1)]
  by (auto simp: submit_staged_def split: prod.splits sum.splits if_splits)

lemma admit_inv:
  assumes "alloc_ok L" "raw_inv d" "admit C L oe s a (d, q) = Return (a', notify, w, d', q')"
  shows "raw_inv d'"
proof (cases "dd_accepting d \<and> dd_owned_pending d = [] \<and> dd_owned_cancel_queue d = [] \<and> oe")
  case True
  with assms(3) obtain d1 q1 a2 st2 w2 d2 q2 where s: "stage_cancellations L (d, q) = Return (d1, q1)"
    "admit_all L s a (d1, q1) = Return (a2, st2, w2, d2, q2)"
    "submit_staged C L (d2, q2) w2 = Return ((d', q'), w)"
    by (fastforce simp: admit_def)
  from s(1) have "raw_inv d1"
    by (auto simp: stage_cancellations_def intro: stage_cancels_inv [OF assms(1,2) refl])
  from submit_staged_inv [OF admit_all_inv [OF assms(1) this s(2)] s(3)] show ?thesis .
next
  case False
  with assms request_cancel_returns [OF assms(2), of DeliveryCancelling s] show ?thesis
    by (auto simp: admit_def split: if_splits)
qed

end
