(* ===== verification/Uring_Owned.thy ===== *)
theory Uring_Owned
  imports Uring_Raw Join_State
begin

text \<open>
  Completion-native operations: \<open>OwnedControl\<close>, \<open>OwnedState\<close>, \<open>TypedHandler\<close> and the future \<open>OwnedOp\<close>
  of \<open>src/io.rs\<close>, and their part of the driver in \<open>src/io_uring.rs\<close>: admission to the queue, staging,
  cancellation, dispatch and early failure. An operation is an index into the store of its shared
  state. The lock-free queue is the \<open>ubq\<close> crate, the record \<open>ubq\<close>; \<open>'w\<close> is the work of an
  operation, whose trait \<open>OpWork\<close> is the record \<open>op_work\<close>.
\<close>

section \<open>Shared state of one operation\<close>

record 'r OwnedState =
  os_cancelled :: bool
  os_completed :: bool
  os_waker :: "waker option"
  os_result :: "'r option"

definition owned_state_new :: "'r OwnedState" where
  "owned_state_new = \<lparr>os_cancelled = False, os_completed = False, os_waker = None, os_result = None\<rparr>"

definition control_cancel :: "'r OwnedState \<Rightarrow> 'r OwnedState" where
  "control_cancel s = s\<lparr>os_cancelled := True\<rparr>"

definition control_publish :: "'r OwnedState \<Rightarrow> waker option \<times> 'r OwnedState" where
  "control_publish s =
    (let s = s\<lparr>os_completed := True\<rparr>; (w, slot) = option_take (os_waker s) in (w, s\<lparr>os_waker := slot\<rparr>))"

text \<open>The two ways a handler ends: both store the result, then publish.\<close>

definition store_and_publish :: "'r \<Rightarrow> 'r OwnedState \<Rightarrow> waker option \<times> 'r OwnedState" where
  "store_and_publish value s = control_publish (s\<lparr>os_result := Some value\<rparr>)"

record ('w, 's, 'r) op_work =
  ow_opcode :: "'w \<Rightarrow> u8"
  ow_entry :: "'w \<Rightarrow> 's"
  ow_complete :: "'w \<Rightarrow> i32 \<Rightarrow> 'r"
  ow_fail :: "'w \<Rightarrow> io_error \<Rightarrow> 'r"

record 'w TypedHandler =
  th_state :: nat
  th_work :: 'w

type_synonym 'r owned_store = "nat \<Rightarrow> 'r OwnedState"

definition handler_complete ::
  "('w, 's, 'r, 'z) op_work_scheme \<Rightarrow> 'w TypedHandler \<Rightarrow> i32 \<Rightarrow> 'r owned_store
    \<Rightarrow> waker option \<times> 'r owned_store" where
  "handler_complete W h result m =
    (case store_and_publish (ow_complete W (th_work h) result) (m (th_state h)) of
       (w, s) \<Rightarrow> (w, m(th_state h := s)))"

definition handler_fail ::
  "('w, 's, 'r, 'z) op_work_scheme \<Rightarrow> 'w TypedHandler \<Rightarrow> io_error \<Rightarrow> 'r owned_store
    \<Rightarrow> waker option \<times> 'r owned_store" where
  "handler_fail W h error m =
    (case store_and_publish (ow_fail W (th_work h) error) (m (th_state h)) of
       (w, s) \<Rightarrow> (w, m(th_state h := s)))"

section \<open>The producer queue\<close>

record ('u, 'a) ubq =
  ubq_push :: "'a \<Rightarrow> 'u \<Rightarrow> 'u"
  ubq_push_batch :: "'a list \<Rightarrow> 'u \<Rightarrow> 'u"
  ubq_pop :: "'u \<Rightarrow> 'a option \<times> 'u"
  ubq_is_empty :: "'u \<Rightarrow> bool"

text \<open>What the crate documents: a FIFO queue, here through its contents \<open>\<alpha>\<close>.\<close>

definition ubq_fifo :: "('u, 'a, 'z) ubq_scheme \<Rightarrow> ('u \<Rightarrow> 'a list) \<Rightarrow> bool" where
  "ubq_fifo Q \<alpha> \<longleftrightarrow> (\<forall>u x. \<alpha> (ubq_push Q x u) = \<alpha> u @ [x])
    \<and> (\<forall>u xs. \<alpha> (ubq_push_batch Q xs u) = \<alpha> u @ xs)
    \<and> (\<forall>u. ubq_is_empty Q u \<longleftrightarrow> \<alpha> u = [])
    \<and> (\<forall>u. case ubq_pop Q u of
          (None, u') \<Rightarrow> \<alpha> u = [] \<and> \<alpha> u' = []
        | (Some x, u') \<Rightarrow> \<alpha> u = x # \<alpha> u')"

definition list_ubq :: "('a list, 'a) ubq" where
  "list_ubq = \<lparr>ubq_push = (\<lambda>x u. u @ [x]), ubq_push_batch = (\<lambda>xs u. u @ xs),
     ubq_pop = (\<lambda>u. case u of [] \<Rightarrow> (None, []) | x # xs \<Rightarrow> (Some x, xs)), ubq_is_empty = (\<lambda>u. u = [])\<rparr>"

lemma ubq_fifo_list: "ubq_fifo list_ubq (\<lambda>u. u)"
  by (auto simp: ubq_fifo_def list_ubq_def split: list.split)

section \<open>Driver operations\<close>

type_synonym ('x, 'w) owned_data = "('x, 'w TypedHandler) DriverData"

definition enqueue ::
  "('u, 'w TypedHandler QueuedOwnedOp, 'z) ubq_scheme \<Rightarrow> bool \<Rightarrow> 'w TypedHandler QueuedOwnedOp \<Rightarrow> 'u
    \<Rightarrow> (unit, 'w TypedHandler QueuedOwnedOp) rust_result \<times> 'u" where
  "enqueue Q admission operation u =
    (if \<not> admission then (Err operation, u) else (Ok (), ubq_push Q operation u))"

definition enqueue_batch ::
  "('u, 'w TypedHandler QueuedOwnedOp, 'z) ubq_scheme \<Rightarrow> bool \<Rightarrow> 'w TypedHandler QueuedOwnedOp list \<Rightarrow> 'u
    \<Rightarrow> (unit, 'w TypedHandler QueuedOwnedOp list) rust_result \<times> 'u" where
  "enqueue_batch Q admission operations u =
    (if \<not> admission then (Err operations, u) else (Ok (), ubq_push_batch Q operations u))"

text \<open>\<open>request_owned_cancel\<close> up to its notification; \<open>find_map\<close> takes the first match.\<close>

definition request_owned_cancel :: "nat \<Rightarrow> ('x, 'h) DriverData \<Rightarrow> ('x, 'h) DriverData" where
  "request_owned_cancel control d =
    (case find (\<lambda>(_, c). oc_control c = control \<and> oc_phase c \<noteq> CtxTerminal \<and> \<not> oc_cancel_queued c)
            (dd_owned_contexts d) of
       None \<Rightarrow> d
     | Some (target, _) \<Rightarrow>
         d\<lparr>dd_owned_contexts := hm_update target (\<lambda>c. c\<lparr>oc_cancel_queued := True\<rparr>) (dd_owned_contexts d),
           dd_owned_cancel_queue := dd_owned_cancel_queue d @ [target]\<rparr>)"

definition context_pointer_in_use :: "('x, 'h) DriverData \<Rightarrow> u64 \<Rightarrow> bool" where
  "context_pointer_in_use d p \<longleftrightarrow> hm_contains p (dd_contexts d) \<or> hm_contains p (dd_owned_contexts d)
     \<or> hm_contains p (dd_owned_cancel_contexts d)"

fun stage_owned_cancels ::
  "('q, 's, 'x, 'z) ring_lib_scheme \<Rightarrow> u64 list \<Rightarrow> ('x, 'h) DriverData \<times> 'q
    \<Rightarrow> (('x, 'h) DriverData \<times> 'q) exec" where
  "stage_owned_cancels L [] (d, q) = Return (d\<lparr>dd_owned_cancel_queue := []\<rparr>, q)"
| "stage_owned_cancels L (target # rest) (d, q) =
    (case rl_alloc L (live_pointers d) of
       None \<Rightarrow> Abort ''memory allocation failed''
     | Some p \<Rightarrow>
         if context_pointer_in_use d p then Abort ''reused live owned cancellation pointer''
         else (case rl_push L \<lparr>sq_user_data = p, sq_body = rl_async_cancel L target\<rparr> q of
           None \<Rightarrow> Return (d\<lparr>dd_owned_cancel_queue := target # rest\<rparr>, q)
         | Some q \<Rightarrow>
             stage_owned_cancels L rest
               (d\<lparr>dd_owned_cancel_queue := rest,
                  dd_owned_cancel_contexts := hm_insert p \<lparr>on_phase = CtxStaged, on_target = target\<rparr>
                    (dd_owned_cancel_contexts d),
                  dd_staged := dd_staged d @ [StagedOwnedCancel p]\<rparr>, q)))"

definition stage_owned_cancellations ::
  "('q, 's, 'x, 'z) ring_lib_scheme \<Rightarrow> ('x, 'h) DriverData \<times> 'q \<Rightarrow> (('x, 'h) DriverData \<times> 'q) exec" where
  "stage_owned_cancellations L = (\<lambda>(d, q). stage_owned_cancels L (dd_owned_cancel_queue d) (d, q))"

datatype OwnedFailure = OwnedClosed | OwnedCancelled | OwnedUnsupported

text \<open>The next record: what was put back for lack of space, else the queue's head.\<close>

definition next_owned ::
  "('u, 'h QueuedOwnedOp, 'z) ubq_scheme \<Rightarrow> ('x, 'h) DriverData \<times> 'u
    \<Rightarrow> 'h QueuedOwnedOp option \<times> ('x, 'h) DriverData \<times> 'u" where
  "next_owned Q = (\<lambda>(d, u).
    (case dd_owned_pending d of
       op # rest \<Rightarrow> (Some op, d\<lparr>dd_owned_pending := rest\<rparr>, u)
     | [] \<Rightarrow> (case ubq_pop Q u of (op, u) \<Rightarrow> (op, d, u))))"

text \<open>One record at most per unit of the budget.\<close>

fun stage_owned ::
  "('q, 's, 'x, 'z) ring_lib_scheme \<Rightarrow> ('u, 'w TypedHandler QueuedOwnedOp, 'y) ubq_scheme
    \<Rightarrow> ('w, 's, 'r, 'v) op_work_scheme \<Rightarrow> bool list \<Rightarrow> 'r owned_store \<Rightarrow> nat
    \<Rightarrow> ('w TypedHandler \<times> OwnedFailure) list \<Rightarrow> (('x, 'w) owned_data \<times> 'u) \<times> 'q
    \<Rightarrow> (('w TypedHandler \<times> OwnedFailure) list \<times> (('x, 'w) owned_data \<times> 'u) \<times> 'q) exec" where
  "stage_owned L Q W supported m 0 failed (du, q) = Return (failed, du, q)"
| "stage_owned L Q W supported m (Suc n) failed (du, q) =
    (case next_owned Q du of
       (None, du) \<Rightarrow> Return (failed, du, q)
     | (Some operation, d, u) \<Rightarrow>
         let h = qo_handler operation in
         if dd_shutdown d then
           stage_owned L Q W supported m n (failed @ [(h, OwnedClosed)]) ((d, u), q)
         else if os_cancelled (m (qo_control operation)) then
           stage_owned L Q W supported m n (failed @ [(h, OwnedCancelled)]) ((d, u), q)
         else if \<not> opcode_supported supported (ow_opcode W (th_work h)) then
           stage_owned L Q W supported m n (failed @ [(h, OwnedUnsupported)]) ((d, u), q)
         else (case rl_alloc L (live_pointers d) of
             None \<Rightarrow> Abort ''memory allocation failed''
           | Some p \<Rightarrow>
               if context_pointer_in_use d p then Abort ''reused live owned context pointer''
               else (case rl_push L \<lparr>sq_user_data = p, sq_body = ow_entry W (th_work h)\<rparr> q of
                 None \<Rightarrow> Return (failed,
                    (d\<lparr>dd_owned_pending := operation # dd_owned_pending d\<rparr>, u), q)
               | Some q \<Rightarrow>
                   stage_owned L Q W supported m n failed
                     ((d\<lparr>dd_owned_contexts := hm_insert p \<lparr>oc_phase = CtxStaged,
                            oc_control = qo_control operation, oc_handler = Some h,
                            oc_cancel_queued = False, oc_cancel_seen = False\<rparr> (dd_owned_contexts d),
                          dd_staged := dd_staged d @ [StagedOwned p]\<rparr>, u), q))))"

fun owned_failure_error :: "'y libc_scheme \<Rightarrow> OwnedFailure \<Rightarrow> io_error" where
  "owned_failure_error C OwnedClosed = runtime_closed_error"
| "owned_failure_error C OwnedCancelled = OsError (ECANCELED C)"
| "owned_failure_error C OwnedUnsupported = unsupported_opcode_error"

fun fail_owned ::
  "'y libc_scheme \<Rightarrow> ('w, 's, 'r, 'z) op_work_scheme \<Rightarrow> ('w TypedHandler \<times> OwnedFailure) list
    \<Rightarrow> 'r owned_store \<Rightarrow> waker list \<Rightarrow> 'r owned_store \<times> waker list" where
  "fail_owned C W [] m wakes = (m, wakes)"
| "fail_owned C W ((h, reason) # rest) m wakes =
    (case handler_fail W h (owned_failure_error C reason) m of
       (w, m) \<Rightarrow> fail_owned C W rest m (push_waker w wakes))"

text \<open>The critical section of \<open>dispatch_owned\<close>: the handler to complete, if any.\<close>

definition retire_owned ::
  "u64 \<Rightarrow> bool \<Rightarrow> ('x, 'h) DriverData \<Rightarrow> ('h option \<times> ('x, 'h) DriverData) exec" where
  "retire_owned p again d =
    (case hm_get (dd_owned_contexts d) p of
       Some c \<Rightarrow>
         if oc_phase c \<noteq> CtxSubmitted then Abort ''CQE for unsubmitted owned context''
         else if again then Abort ''multishot completion-native CQE''
         else (case oc_handler c of
             None \<Rightarrow> Abort ''owned handler completed twice''
           | Some h \<Rightarrow>
               let m = hm_remove p (dd_owned_contexts d);
                   c = c\<lparr>oc_phase := CtxTerminal, oc_handler := None\<rparr>
               in Return (Some h, d\<lparr>dd_owned_contexts :=
                    (if oc_cancel_queued c \<and> \<not> oc_cancel_seen c then hm_insert p c m else m)\<rparr>))
     | None \<Rightarrow>
         (case hm_get (dd_owned_cancel_contexts d) p of
            None \<Rightarrow> Abort ''unknown or duplicate owned CQE pointer''
          | Some k \<Rightarrow>
              if on_phase k \<noteq> CtxSubmitted then Abort ''CQE for unsubmitted owned cancellation''
              else if again then Abort ''multishot owned cancellation CQE''
              else (case hm_get (dd_owned_contexts d) (on_target k) of
                  None \<Rightarrow> Abort ''owned cancel target disappeared''
                | Some original \<Rightarrow>
                    let m = hm_update (on_target k) (\<lambda>c. c\<lparr>oc_cancel_seen := True\<rparr>) (dd_owned_contexts d)
                    in Return (None, d\<lparr>dd_owned_cancel_contexts := hm_remove p (dd_owned_cancel_contexts d),
                         dd_owned_contexts := (if oc_phase original = CtxTerminal
                                               then hm_remove (on_target k) m else m)\<rparr>))))"

definition dispatch_owned ::
  "('q, 's, 'x, 'z) ring_lib_scheme \<Rightarrow> ('w, 's, 'r, 'v) op_work_scheme \<Rightarrow> 'x cqe
    \<Rightarrow> ('x, 'w) owned_data \<times> 'r owned_store \<Rightarrow> waker list
    \<Rightarrow> ((('x, 'w) owned_data \<times> 'r owned_store) \<times> waker list) exec" where
  "dispatch_owned L W cqe = (\<lambda>(d, m) wakes.
    (if cq_user_data cqe = 0 then Abort ''null owned CQE context pointer''
     else exec_bind (retire_owned (cq_user_data cqe) (rl_more L (cq_flags cqe)) d) (\<lambda>(handler, d).
       case handler of
         None \<Rightarrow> Return ((d, m), wakes)
       | Some h \<Rightarrow> (case handler_complete W h (cq_result cqe) m of
           (w, m) \<Rightarrow> Return ((d, m), push_waker w wakes)))))"

section \<open>The invariant\<close>

definition oc_awaits :: "'h OwnedCqeContext \<Rightarrow> bool" where
  "oc_awaits c \<longleftrightarrow> oc_cancel_queued c \<and> \<not> oc_cancel_seen c"

text \<open>A context without its handler is exactly a terminal one, kept for its cancellation only.\<close>

definition oc_shape :: "'h OwnedCqeContext \<Rightarrow> bool" where
  "oc_shape c \<longleftrightarrow> (oc_phase c = CtxTerminal \<longleftrightarrow> oc_handler c = None)
    \<and> (oc_phase c = CtxTerminal \<longrightarrow> oc_awaits c) \<and> (oc_cancel_seen c \<longrightarrow> oc_cancel_queued c)"

definition owned_cancels_for :: "u64 \<Rightarrow> (u64, OwnedCancelContext) hashmap \<Rightarrow> nat" where
  "owned_cancels_for t = hm_count (\<lambda>_ k. on_target k = t)"

definition owned_inv :: "('x, 'h) DriverData \<Rightarrow> bool" where
  "owned_inv d \<longleftrightarrow> hm_wf (dd_owned_contexts d) \<and> hm_wf (dd_owned_cancel_contexts d)
    \<and> (\<forall>p. count_list (dd_staged d) (StagedOwned p) = (case hm_get (dd_owned_contexts d) p of
          Some c \<Rightarrow> of_bool (oc_phase c = CtxStaged) | None \<Rightarrow> 0))
    \<and> (\<forall>p. count_list (dd_staged d) (StagedOwnedCancel p) = (case hm_get (dd_owned_cancel_contexts d) p of
          Some k \<Rightarrow> of_bool (on_phase k = CtxStaged) | None \<Rightarrow> 0))
    \<and> (\<forall>t. count_list (dd_owned_cancel_queue d) t + owned_cancels_for t (dd_owned_cancel_contexts d)
        = (case hm_get (dd_owned_contexts d) t of Some c \<Rightarrow> of_bool (oc_awaits c) | None \<Rightarrow> 0))
    \<and> (\<forall>p c. hm_get (dd_owned_contexts d) p = Some c \<longrightarrow> p \<noteq> 0 \<and> oc_shape c)
    \<and> (\<forall>p k. hm_get (dd_owned_cancel_contexts d) p = Some k \<longrightarrow> p \<noteq> 0 \<and> on_phase k \<noteq> CtxTerminal)"

lemma owned_invI:
  assumes "hm_wf (dd_owned_contexts d)" "hm_wf (dd_owned_cancel_contexts d)"
    and "\<And>p. count_list (dd_staged d) (StagedOwned p) = (case hm_get (dd_owned_contexts d) p of
          Some c \<Rightarrow> of_bool (oc_phase c = CtxStaged) | None \<Rightarrow> 0)"
    and "\<And>p. count_list (dd_staged d) (StagedOwnedCancel p) = (case hm_get (dd_owned_cancel_contexts d) p of
          Some k \<Rightarrow> of_bool (on_phase k = CtxStaged) | None \<Rightarrow> 0)"
    and "\<And>t. count_list (dd_owned_cancel_queue d) t + owned_cancels_for t (dd_owned_cancel_contexts d)
        = (case hm_get (dd_owned_contexts d) t of Some c \<Rightarrow> of_bool (oc_awaits c) | None \<Rightarrow> 0)"
    and "\<And>p c. hm_get (dd_owned_contexts d) p = Some c \<Longrightarrow> p \<noteq> 0 \<and> oc_shape c"
    and "\<And>p k. hm_get (dd_owned_cancel_contexts d) p = Some k \<Longrightarrow> p \<noteq> 0 \<and> on_phase k \<noteq> CtxTerminal"
  shows "owned_inv d"
  using assms by (simp add: owned_inv_def)

lemma owned_invD:
  assumes "owned_inv d"
  shows "hm_wf (dd_owned_contexts d)" "hm_wf (dd_owned_cancel_contexts d)"
    and "count_list (dd_staged d) (StagedOwned p) = (case hm_get (dd_owned_contexts d) p of
          Some c \<Rightarrow> of_bool (oc_phase c = CtxStaged) | None \<Rightarrow> 0)"
    and "count_list (dd_staged d) (StagedOwnedCancel p) = (case hm_get (dd_owned_cancel_contexts d) p of
          Some k \<Rightarrow> of_bool (on_phase k = CtxStaged) | None \<Rightarrow> 0)"
    and "count_list (dd_owned_cancel_queue d) t + owned_cancels_for t (dd_owned_cancel_contexts d)
        = (case hm_get (dd_owned_contexts d) t of Some c \<Rightarrow> of_bool (oc_awaits c) | None \<Rightarrow> 0)"
    and "hm_get (dd_owned_contexts d) p = Some c \<Longrightarrow> p \<noteq> 0 \<and> oc_shape c"
    and "hm_get (dd_owned_cancel_contexts d) p = Some k \<Longrightarrow> p \<noteq> 0 \<and> on_phase k \<noteq> CtxTerminal"
  using assms by (simp_all add: owned_inv_def)

lemma owned_inv_new: "owned_inv driver_data_new"
  by (simp add: owned_inv_def driver_data_new_def owned_cancels_for_def)

lemma owned_inv_cong:
  assumes "dd_owned_contexts d' = dd_owned_contexts d" "dd_owned_cancel_contexts d' = dd_owned_cancel_contexts d"
    and "dd_owned_cancel_queue d' = dd_owned_cancel_queue d"
    and "\<And>p. count_list (dd_staged d') (StagedOwned p) = count_list (dd_staged d) (StagedOwned p)"
    and "\<And>p. count_list (dd_staged d') (StagedOwnedCancel p) = count_list (dd_staged d) (StagedOwnedCancel p)"
    and "owned_inv d"
  shows "owned_inv d'"
  using assms(6) unfolding owned_inv_def assms(1-5) .

lemma owned_counts:
  "hm_get m p = None \<Longrightarrow> owned_cancels_for t (hm_insert p k m) = of_bool (on_target k = t) + owned_cancels_for t m"
  "hm_wf m \<Longrightarrow> hm_get m p = Some k
    \<Longrightarrow> owned_cancels_for t m = of_bool (on_target k = t) + owned_cancels_for t (hm_remove p m)"
  "hm_wf m \<Longrightarrow> hm_get m p = Some k \<Longrightarrow> on_target (f k) = on_target k
    \<Longrightarrow> owned_cancels_for t (hm_update p f m) = owned_cancels_for t m"
  by (simp_all add: owned_cancels_for_def hm_count_insert_fresh hm_count_remove hm_count_update_eq)

subsection \<open>Preservation\<close>

lemma owned_inv_stage:
  assumes inv: "owned_inv d" and fresh: "hm_get (dd_owned_contexts d) p = None" and "p \<noteq> 0"
    and c: "oc_phase c = CtxStaged" "oc_handler c \<noteq> None" "\<not> oc_cancel_queued c" "\<not> oc_cancel_seen c"
    and ctx: "dd_owned_contexts d' = hm_insert p c (dd_owned_contexts d)"
    and same: "dd_owned_cancel_contexts d' = dd_owned_cancel_contexts d" "dd_owned_cancel_queue d' = dd_owned_cancel_queue d"
    and st: "dd_staged d' = dd_staged d @ [StagedOwned p]"
  shows "owned_inv d'"
proof -
  note I = owned_invD [OF inv]
  show ?thesis
  proof (rule owned_invI)
    fix r
    show "count_list (dd_staged d') (StagedOwned r) = (case hm_get (dd_owned_contexts d') r of
          Some c \<Rightarrow> of_bool (oc_phase c = CtxStaged) | None \<Rightarrow> 0)"
      using I(3) [of r] fresh c by (auto simp: ctx st)
  next
    fix t
    show "count_list (dd_owned_cancel_queue d') t + owned_cancels_for t (dd_owned_cancel_contexts d')
        = (case hm_get (dd_owned_contexts d') t of Some c \<Rightarrow> of_bool (oc_awaits c) | None \<Rightarrow> 0)"
      using I(5) [of t] fresh c by (auto simp: ctx same oc_awaits_def)
  next
    fix r c'
    assume "hm_get (dd_owned_contexts d') r = Some c'"
    then show "r \<noteq> 0 \<and> oc_shape c'"
      using I(6) [of r] assms(3) c by (auto simp: ctx oc_shape_def split: if_splits)
  qed (use I in \<open>simp_all add: ctx same st\<close>)
qed

lemma owned_inv_stage_cancel:
  assumes inv: "owned_inv d" and q: "dd_owned_cancel_queue d = t0 # dd_owned_cancel_queue d'"
    and fresh: "hm_get (dd_owned_cancel_contexts d) p = None" and "p \<noteq> 0"
    and ctx: "dd_owned_cancel_contexts d' = hm_insert p \<lparr>on_phase = CtxStaged, on_target = t0\<rparr> (dd_owned_cancel_contexts d)"
    and same: "dd_owned_contexts d' = dd_owned_contexts d"
    and st: "dd_staged d' = dd_staged d @ [StagedOwnedCancel p]"
  shows "owned_inv d'"
proof -
  note I = owned_invD [OF inv]
  show ?thesis
  proof (rule owned_invI)
    fix r
    show "count_list (dd_staged d') (StagedOwnedCancel r) = (case hm_get (dd_owned_cancel_contexts d') r of
          Some c \<Rightarrow> of_bool (on_phase c = CtxStaged) | None \<Rightarrow> 0)"
      using I(4) [of r] fresh by (auto simp: ctx st)
  next
    fix t
    show "count_list (dd_owned_cancel_queue d') t + owned_cancels_for t (dd_owned_cancel_contexts d')
        = (case hm_get (dd_owned_contexts d') t of Some c \<Rightarrow> of_bool (oc_awaits c) | None \<Rightarrow> 0)"
      using I(5) [of t] by (auto simp: ctx same q owned_counts(1) [OF fresh] split: if_splits)
  next
    fix r k
    assume "hm_get (dd_owned_cancel_contexts d') r = Some k"
    then show "r \<noteq> 0 \<and> on_phase k \<noteq> CtxTerminal"
      using I(7) [of r] assms(4) by (auto simp: ctx split: if_splits)
  qed (use I in \<open>simp_all add: ctx same st\<close>)
qed

lemma owned_inv_request_cancel:
  assumes inv: "owned_inv d"
  shows "owned_inv (request_owned_cancel s d)"
proof (cases "find (\<lambda>(_, c). oc_control c = s \<and> oc_phase c \<noteq> CtxTerminal \<and> \<not> oc_cancel_queued c) (dd_owned_contexts d)")
  case None
  with inv show ?thesis by (simp add: request_owned_cancel_def)
next
  case (Some x)
  obtain p c where x: "x = (p, c)" by (cases x)
  note I = owned_invD [OF inv]
  from Some x have c: "(p, c) \<in> set (dd_owned_contexts d)" "oc_phase c \<noteq> CtxTerminal" "\<not> oc_cancel_queued c"
    by (auto simp: find_Some_iff in_set_conv_nth)
  from c(1) have g: "hm_get (dd_owned_contexts d) p = Some c" by (simp add: hm_get_set [OF I(1)])
  from I(6) [OF g] c have seen: "\<not> oc_cancel_seen c" by (auto simp: oc_shape_def)
  let ?d = "d\<lparr>dd_owned_contexts := hm_update p (\<lambda>c. c\<lparr>oc_cancel_queued := True\<rparr>) (dd_owned_contexts d),
           dd_owned_cancel_queue := dd_owned_cancel_queue d @ [p]\<rparr>"
  have "owned_inv ?d"
  proof (rule owned_invI)
    fix r
    show "count_list (dd_staged ?d) (StagedOwned r) = (case hm_get (dd_owned_contexts ?d) r of
          Some c \<Rightarrow> of_bool (oc_phase c = CtxStaged) | None \<Rightarrow> 0)"
      using I(3) [of r] g by (auto split: option.splits)
  next
    fix t
    show "count_list (dd_owned_cancel_queue ?d) t + owned_cancels_for t (dd_owned_cancel_contexts ?d)
        = (case hm_get (dd_owned_contexts ?d) t of Some c \<Rightarrow> of_bool (oc_awaits c) | None \<Rightarrow> 0)"
      using I(5) [of t] g c seen by (auto simp: oc_awaits_def)
  next
    fix r c'
    assume "hm_get (dd_owned_contexts ?d) r = Some c'"
    then show "r \<noteq> 0 \<and> oc_shape c'"
      using I(6) [of r] c g by (auto simp: oc_shape_def oc_awaits_def split: if_splits)
  qed (use I in simp_all)
  then show ?thesis by (simp add: request_owned_cancel_def Some x)
qed

lemma retire_owned_cancelE:
  assumes "retire_owned p again d = Return (h, d')" "hm_get (dd_owned_contexts d) p = None"
  obtains k o' where "hm_get (dd_owned_cancel_contexts d) p = Some k" "on_phase k = CtxSubmitted" "h = None"
    and "hm_get (dd_owned_contexts d) (on_target k) = Some o'"
    and "d' = d\<lparr>dd_owned_cancel_contexts := hm_remove p (dd_owned_cancel_contexts d),
        dd_owned_contexts := (if oc_phase o' = CtxTerminal then hm_remove (on_target k) (dd_owned_contexts d)
          else hm_update (on_target k) (\<lambda>c. c\<lparr>oc_cancel_seen := True\<rparr>) (dd_owned_contexts d))\<rparr>"
  using assms by (auto simp: retire_owned_def Let_def split: if_splits option.splits)

lemma owned_inv_retire:
  assumes inv: "owned_inv d" and r: "retire_owned p again d = Return (h, d')"
  shows "owned_inv d'"
proof -
  note I = owned_invD [OF inv]
  show ?thesis
  proof (cases "hm_get (dd_owned_contexts d) p")
    case (Some c)
    with r have c: "oc_phase c = CtxSubmitted" and d': "d' = d\<lparr>dd_owned_contexts :=
        (if oc_awaits c then hm_insert p (c\<lparr>oc_phase := CtxTerminal, oc_handler := None\<rparr>)
           (hm_remove p (dd_owned_contexts d)) else hm_remove p (dd_owned_contexts d))\<rparr>"
      by (auto simp: retire_owned_def oc_awaits_def Let_def split: if_splits option.splits)
    show ?thesis
    proof (rule owned_invI)
      fix t
      show "count_list (dd_staged d') (StagedOwned t) = (case hm_get (dd_owned_contexts d') t of
          Some c \<Rightarrow> of_bool (oc_phase c = CtxStaged) | None \<Rightarrow> 0)"
        using I(3) [of t] Some c by (auto simp: d')
    next
      fix t
      show "count_list (dd_owned_cancel_queue d') t + owned_cancels_for t (dd_owned_cancel_contexts d')
        = (case hm_get (dd_owned_contexts d') t of Some c \<Rightarrow> of_bool (oc_awaits c) | None \<Rightarrow> 0)"
        using I(5) [of t] Some by (auto simp: d' oc_awaits_def)
    next
      fix t c'
      assume "hm_get (dd_owned_contexts d') t = Some c'"
      then show "t \<noteq> 0 \<and> oc_shape c'"
        using I(6) [of t] Some by (auto simp: d' oc_shape_def oc_awaits_def split: if_splits)
    qed (use I in \<open>simp_all add: d'\<close>)
  next
    case None
    obtain k o' where k: "hm_get (dd_owned_cancel_contexts d) p = Some k" "on_phase k = CtxSubmitted"
      and o': "hm_get (dd_owned_contexts d) (on_target k) = Some o'"
      and d': "d' = d\<lparr>dd_owned_cancel_contexts := hm_remove p (dd_owned_cancel_contexts d),
          dd_owned_contexts := (if oc_phase o' = CtxTerminal then hm_remove (on_target k) (dd_owned_contexts d)
            else hm_update (on_target k) (\<lambda>c. c\<lparr>oc_cancel_seen := True\<rparr>) (dd_owned_contexts d))\<rparr>"
      by (rule retire_owned_cancelE [OF r None]) (rule that)
    note R = owned_counts(2) [OF I(2) k(1)]
    have aw: "oc_awaits o'" and zero: "count_list (dd_owned_cancel_queue d) (on_target k) = 0"
      "owned_cancels_for (on_target k) (hm_remove p (dd_owned_cancel_contexts d)) = 0"
      using I(5) [of "on_target k"] o' by (cases "oc_awaits o'"; simp add: R)+
    show ?thesis
    proof (rule owned_invI)
      fix t
      show "count_list (dd_staged d') (StagedOwned t) = (case hm_get (dd_owned_contexts d') t of
          Some c \<Rightarrow> of_bool (oc_phase c = CtxStaged) | None \<Rightarrow> 0)"
        using I(3) [of t] o' by (auto simp: d')
    next
      fix t
      show "count_list (dd_staged d') (StagedOwnedCancel t) = (case hm_get (dd_owned_cancel_contexts d') t of
          Some c \<Rightarrow> of_bool (on_phase c = CtxStaged) | None \<Rightarrow> 0)"
        using I(4) [of t] k by (auto simp: d')
    next
      fix t
      show "count_list (dd_owned_cancel_queue d') t + owned_cancels_for t (dd_owned_cancel_contexts d')
        = (case hm_get (dd_owned_contexts d') t of Some c \<Rightarrow> of_bool (oc_awaits c) | None \<Rightarrow> 0)"
        using I(5) [of t] o' zero R [of t] by (cases "t = on_target k") (auto simp: d' oc_awaits_def)
    next
      fix t c'
      assume "hm_get (dd_owned_contexts d') t = Some c'"
      then show "t \<noteq> 0 \<and> oc_shape c'"
        using I(6) [of t] o' aw by (auto simp: d' oc_shape_def oc_awaits_def split: if_splits)
    next
      fix t k'
      assume "hm_get (dd_owned_cancel_contexts d') t = Some k'"
      then show "t \<noteq> 0 \<and> on_phase k' \<noteq> CtxTerminal"
        using I(7) [of t] by (auto simp: d' split: if_splits)
    qed (use I in \<open>simp_all add: d'\<close>)
  qed
qed

lemma owned_inv_accept:
  assumes inv: "owned_inv d0" and st: "dd_staged d0 = StagedOwned p # dd_staged d"
    and same: "dd_owned_contexts d = dd_owned_contexts d0" "dd_owned_cancel_contexts d = dd_owned_cancel_contexts d0"
      "dd_owned_cancel_queue d = dd_owned_cancel_queue d0"
    and acc: "accept_owned p d = Return d'"
  shows "owned_inv d'"
proof -
  note I = owned_invD [OF inv]
  from acc obtain c where c: "hm_get (dd_owned_contexts d0) p = Some c" "oc_phase c = CtxStaged"
    and d': "d' = d\<lparr>dd_owned_contexts := hm_update p (\<lambda>c. c\<lparr>oc_phase := CtxSubmitted\<rparr>) (dd_owned_contexts d0)\<rparr>"
    by (auto simp: accept_owned_def same split: option.splits if_splits)
  show ?thesis
  proof (rule owned_invI)
    fix r
    show "count_list (dd_staged d') (StagedOwned r) = (case hm_get (dd_owned_contexts d') r of
          Some c \<Rightarrow> of_bool (oc_phase c = CtxStaged) | None \<Rightarrow> 0)"
      using I(3) [of r] c by (auto simp: d' st split: if_splits)
  next
    fix t
    show "count_list (dd_owned_cancel_queue d') t + owned_cancels_for t (dd_owned_cancel_contexts d')
        = (case hm_get (dd_owned_contexts d') t of Some c \<Rightarrow> of_bool (oc_awaits c) | None \<Rightarrow> 0)"
      using I(5) [of t] c by (auto simp: d' same oc_awaits_def)
  next
    fix r c'
    assume "hm_get (dd_owned_contexts d') r = Some c'"
    then show "r \<noteq> 0 \<and> oc_shape c'"
      using I(6) [of r] c by (auto simp: d' oc_shape_def oc_awaits_def split: if_splits)
  qed (use I st in \<open>simp_all add: d' same\<close>)
qed

lemma owned_inv_accept_cancel:
  assumes inv: "owned_inv d0" and st: "dd_staged d0 = StagedOwnedCancel p # dd_staged d"
    and same: "dd_owned_contexts d = dd_owned_contexts d0" "dd_owned_cancel_contexts d = dd_owned_cancel_contexts d0"
      "dd_owned_cancel_queue d = dd_owned_cancel_queue d0"
    and acc: "accept_owned_cancel p d = Return d'"
  shows "owned_inv d'"
proof -
  note I = owned_invD [OF inv]
  from acc obtain k where k: "hm_get (dd_owned_cancel_contexts d0) p = Some k" "on_phase k = CtxStaged"
    and d': "d' = d\<lparr>dd_owned_cancel_contexts :=
        hm_update p (\<lambda>c. c\<lparr>on_phase := CtxSubmitted\<rparr>) (dd_owned_cancel_contexts d0)\<rparr>"
    by (auto simp: accept_owned_cancel_def same split: option.splits if_splits)
  show ?thesis
  proof (rule owned_invI)
    fix r
    show "count_list (dd_staged d') (StagedOwnedCancel r) = (case hm_get (dd_owned_cancel_contexts d') r of
          Some c \<Rightarrow> of_bool (on_phase c = CtxStaged) | None \<Rightarrow> 0)"
      using I(4) [of r] k by (auto simp: d' st split: if_splits)
  next
    fix r k'
    assume "hm_get (dd_owned_cancel_contexts d') r = Some k'"
    then show "r \<noteq> 0 \<and> on_phase k' \<noteq> CtxTerminal"
      using I(7) [of r] k by (auto simp: d' split: if_splits)
  qed (use I st in \<open>simp_all add: d' same owned_counts(3) [OF I(2) k(1)]\<close>)
qed

subsection \<open>Handlers are neither lost nor duplicated\<close>

text \<open>The handlers that contexts own, and all those that the driver is responsible for.\<close>

definition held :: "(u64, 'h OwnedCqeContext) hashmap \<Rightarrow> 'h multiset" where
  "held m = mset (List.map_filter (\<lambda>(_, c). oc_handler c) m)"

definition owned_handlers :: "('u \<Rightarrow> 'h QueuedOwnedOp list) \<Rightarrow> ('x, 'h) DriverData \<times> 'u \<Rightarrow> 'h multiset" where
  "owned_handlers \<alpha> = (\<lambda>(d, u). mset (map qo_handler (\<alpha> u)) + mset (map qo_handler (dd_owned_pending d))
     + held (dd_owned_contexts d))"

abbreviation handler_of :: "'h OwnedCqeContext \<Rightarrow> 'h multiset" where
  "handler_of c \<equiv> (case oc_handler c of None \<Rightarrow> {#} | Some h \<Rightarrow> {#h#})"

lemma held_Nil [simp]: "held [] = {#}"
  and held_Cons [simp]: "held ((p, c) # m) = handler_of c + held m"
  by (simp_all add: held_def map_filter_simps split: option.split)

lemma held_insert: "hm_get m p = None \<Longrightarrow> held (hm_insert p c m) = handler_of c + held m"
  by (simp add: hm_insert_def hm_remove_fresh)

lemma held_remove: "hm_wf m \<Longrightarrow> hm_get m p = Some c \<Longrightarrow> held m = handler_of c + held (hm_remove p m)"
proof (induction m)
  case (Cons a m)
  obtain j w where a: "a = (j, w)" by (cases a)
  show ?case
  proof (cases "j = p")
    case True
    with Cons.prems a have "hm_get m p = None" by (simp add: hm_wf_def hm_get_None_iff)
    then have "hm_remove p m = m" by (rule hm_remove_fresh)
    with True Cons.prems a show ?thesis by (simp add: hm_remove_def)
  next
    case False
    with Cons a show ?thesis by (simp add: hm_wf_def hm_remove_def)
  qed
qed simp

lemma held_update: "(\<And>c. oc_handler (f c) = oc_handler c) \<Longrightarrow> held (hm_update p f m) = held m"
  by (induction m) auto

lemma held_request_cancel [simp]: "held (dd_owned_contexts (request_owned_cancel s d)) = held (dd_owned_contexts d)"
  by (simp add: request_owned_cancel_def held_update split: option.split)

text \<open>Retiring a completion hands out the handler that the table loses, and only that one.\<close>

lemma retire_owned_handlers:
  assumes inv: "owned_inv d" and r: "retire_owned p again d = Return (h, d')"
  shows "held (dd_owned_contexts d) = (case h of None \<Rightarrow> {#} | Some h \<Rightarrow> {#h#}) + held (dd_owned_contexts d')
    \<and> dd_owned_pending d' = dd_owned_pending d"
proof (cases "hm_get (dd_owned_contexts d) p")
  case (Some c)
  with r held_remove [OF owned_invD(1) [OF inv] Some]
  show ?thesis by (auto simp: retire_owned_def Let_def held_insert split: if_splits option.splits)
next
  case None
  obtain k o' where "hm_get (dd_owned_cancel_contexts d) p = Some k" and h: "h = None"
    and o': "hm_get (dd_owned_contexts d) (on_target k) = Some o'"
    and d': "d' = d\<lparr>dd_owned_cancel_contexts := hm_remove p (dd_owned_cancel_contexts d),
        dd_owned_contexts := (if oc_phase o' = CtxTerminal then hm_remove (on_target k) (dd_owned_contexts d)
          else hm_update (on_target k) (\<lambda>c. c\<lparr>oc_cancel_seen := True\<rparr>) (dd_owned_contexts d))\<rparr>"
    by (rule retire_owned_cancelE [OF r None]) (rule that, assumption+)
  from owned_invD(6) [OF inv o'] held_remove [OF owned_invD(1) [OF inv] o']
  have "oc_phase o' = CtxTerminal \<Longrightarrow> held (hm_remove (on_target k) (dd_owned_contexts d)) = held (dd_owned_contexts d)"
    by (simp add: oc_shape_def)
  with h d' show ?thesis by (simp add: held_update)
qed

lemma next_owned_handlers:
  assumes "ubq_fifo Q \<alpha>" "next_owned Q (d, u) = (op, d', u')"
  shows "owned_handlers \<alpha> (d, u) = (case op of None \<Rightarrow> {#} | Some x \<Rightarrow> {#qo_handler x#}) + owned_handlers \<alpha> (d', u')
    \<and> (\<exists>rest. d' = d\<lparr>dd_owned_pending := rest\<rparr>)
    \<and> (op = None \<longrightarrow> d' = d \<and> dd_owned_pending d = [] \<and> \<alpha> u = [])"
proof (cases "dd_owned_pending d")
  case Nil
  have "case ubq_pop Q u of (None, u') \<Rightarrow> \<alpha> u = [] \<and> \<alpha> u' = [] | (Some x, u') \<Rightarrow> \<alpha> u = x # \<alpha> u'"
    using assms(1) by (simp add: ubq_fifo_def)
  with assms(2) Nil show ?thesis
    by (cases d) (auto simp: next_owned_def owned_handlers_def split: prod.splits option.splits)
next
  case (Cons x xs)
  with assms(2) show ?thesis by (auto simp: next_owned_def owned_handlers_def)
qed

end
