(* ===== verification/Driver_Gate.thy ===== *)
theory Driver_Gate
  imports Task_Gate
begin

text \<open>
  The parking protocol of the two driver tasks: \<open>DriverPark\<close> and \<open>DriverGate\<close>, \<open>notify\<close>, the choice
  between another pass and parking, the park itself and \<open>retire\<close>. The timer driver of
  \<open>src/time.rs\<close> and the ring driver of \<open>src/io_uring.rs\<close> declare the same types and the same code up
  to their messages; both are instances of the definitions here, and of the interface \<open>park_gate\<close>.
\<close>

section \<open>State\<close>

datatype DriverPark =
  Park_Building | Park_Running | Park_Paused | Park_DeadlineWait | Park_WakePending
  | Park_Terminal | Park_Destroyed

record DriverGate =
  dg_raw :: "RawTask option"
  dg_phase :: DriverPark
  dg_notified :: bool

definition driver_gate_new :: DriverGate where
  "driver_gate_new = \<lparr>dg_raw = None, dg_phase = Park_Building, dg_notified = False\<rparr>"

text \<open>How a driver parks: yield once, wait for a number of nanoseconds, or pause.\<close>

datatype park_mode = ParkYield | ParkWait nat | ParkPause

section \<open>Operations\<close>

definition driver_notify ::
  "'z nosv_scheme \<Rightarrow> string \<Rightarrow> string \<Rightarrow> DriverGate \<times> nlog \<Rightarrow> (DriverGate \<times> nlog) exec" where
  "driver_notify N missing rejected = (\<lambda>(g, h).
    (let g = g\<lparr>dg_notified := True\<rparr>;
         wake = (\<lambda>deadline.
           let g = g\<lparr>dg_phase := Park_WakePending\<rparr> in
           case dg_raw g of
             None \<Rightarrow> Abort missing
           | Some raw \<Rightarrow>
               (case if deadline then ffi_submit_deadline_wake N raw h else ffi_submit N raw h of
                  (Inl e, h) \<Rightarrow> Abort rejected
                | (Inr _, h) \<Rightarrow> Return (g, h)))
     in case dg_phase g of
          Park_Paused \<Rightarrow> wake False
        | Park_DeadlineWait \<Rightarrow> wake True
        | _ \<Rightarrow> Return (g, h)))"

text \<open>The gate section before parking; the flag says whether the driver must park.\<close>

definition driver_arm :: "park_mode \<Rightarrow> DriverGate \<Rightarrow> bool \<times> DriverGate" where
  "driver_arm mode g =
    (if dg_notified g then (False, g\<lparr>dg_notified := False, dg_phase := Park_Running\<rparr>)
     else (True, g\<lparr>dg_phase := (case mode of
         ParkYield \<Rightarrow> Park_Running | ParkWait _ \<Rightarrow> Park_DeadlineWait | ParkPause \<Rightarrow> Park_Paused)\<rparr>))"

definition driver_park :: "'z nosv_scheme \<Rightarrow> string \<Rightarrow> park_mode \<Rightarrow> nlog \<Rightarrow> nlog exec" where
  "driver_park N failed mode h =
    (case (case mode of
             ParkYield \<Rightarrow> ffi_yield_now N h | ParkWait d \<Rightarrow> ffi_waitfor N d h | ParkPause \<Rightarrow> ffi_pause N h) of
       (Inl e, h) \<Rightarrow> Abort failed
     | (Inr _, h) \<Rightarrow> Return h)"

definition driver_resume :: "DriverGate \<Rightarrow> DriverGate" where
  "driver_resume g = g\<lparr>dg_phase := Park_Running\<rparr>"

definition driver_retire ::
  "'z nosv_scheme \<Rightarrow> string \<Rightarrow> string \<Rightarrow> string \<Rightarrow> DriverGate \<times> nlog \<Rightarrow> (DriverGate \<times> nlog) exec" where
  "driver_retire N early missing failed = (\<lambda>(g, h).
    (if dg_phase g \<noteq> Park_Terminal then Abort early
     else case dg_raw g of
       None \<Rightarrow> Abort missing
     | Some raw \<Rightarrow>
         let g = g\<lparr>dg_raw := None\<rparr> in
         (case ffi_destroy N raw h of
            (Inl e, h) \<Rightarrow> Abort failed
          | (Inr _, h) \<Rightarrow> Return (g\<lparr>dg_phase := Park_Destroyed\<rparr>, h))))"

text \<open>
  Creating and first submitting a driver's descriptor, whose metadata is one pointer; a failure
  after the creation destroys the descriptor again.
\<close>

definition driver_start ::
  "'z nosv_scheme \<Rightarrow> RawTaskType \<Rightarrow> nlog \<Rightarrow> (DriverGate, NativeError) rust_result \<times> nlog" where
  "driver_start N tt h =
    (case ffi_create N tt 8 h of
       (Inl e, h) \<Rightarrow> (Err e, h)
     | (Inr raw, h) \<Rightarrow>
         (case ffi_metadata N raw h of
            (Inl e, h) \<Rightarrow> (Err e, snd (ffi_destroy N raw h))
          | (Inr metadata, h) \<Rightarrow>
              let g = driver_gate_new\<lparr>dg_raw := Some raw, dg_phase := Park_Running\<rparr> in
              (case ffi_submit N raw h of
                 (Inl e, h) \<Rightarrow> (Err e, snd (ffi_destroy N raw h))
               | (Inr _, h) \<Rightarrow> (Ok g, h))))"

subsection \<open>The two drivers\<close>

definition uring_gate_start ::
  "'z nosv_scheme \<Rightarrow> RawTaskType \<Rightarrow> nlog \<Rightarrow> (DriverGate, NativeError) rust_result \<times> nlog" where
  "uring_gate_start N tt h = driver_start N tt h"

definition timer_notify :: "'z nosv_scheme \<Rightarrow> DriverGate \<times> nlog \<Rightarrow> (DriverGate \<times> nlog) exec" where
  "timer_notify N = driver_notify N ''timer descriptor missing'' ''timer wake submit failed''"

definition timer_gate_retire :: "'z nosv_scheme \<Rightarrow> DriverGate \<times> nlog \<Rightarrow> (DriverGate \<times> nlog) exec" where
  "timer_gate_retire N = driver_retire N ''timer completed before terminal state''
     ''timer descriptor missing'' ''timer descriptor could not be destroyed''"

definition uring_notify :: "'z nosv_scheme \<Rightarrow> DriverGate \<times> nlog \<Rightarrow> (DriverGate \<times> nlog) exec" where
  "uring_notify N = driver_notify N ''driver descriptor missing'' ''driver wake submit failed''"

definition uring_gate_retire :: "'z nosv_scheme \<Rightarrow> DriverGate \<times> nlog \<Rightarrow> (DriverGate \<times> nlog) exec" where
  "uring_gate_retire N = driver_retire N ''early driver completion'' ''missing driver descriptor''
     ''driver destroy failed''"

section \<open>Parking without losing a notification\<close>

text \<open>
  What a producer relies on: notifying an open gate leaves it flagged and not parked, and costs a
  native wake exactly when it was parked; a flagged gate is never armed for parking.
\<close>

locale park_gate =
  fixes notify :: "'s \<Rightarrow> 's exec"
    and arm :: "'s \<Rightarrow> bool \<times> 's"
    and opened :: "'s \<Rightarrow> bool"
    and parked :: "'s \<Rightarrow> bool"
    and flagged :: "'s \<Rightarrow> bool"
    and cost :: "'s \<Rightarrow> nat"
  assumes notify_open: "opened s \<Longrightarrow> notify s = Return t
      \<Longrightarrow> opened t \<and> flagged t \<and> \<not> parked t \<and> cost t = cost s + of_bool (parked s)"
    and arm_flagged: "opened s \<Longrightarrow> flagged s
      \<Longrightarrow> \<not> fst (arm s) \<and> opened (snd (arm s)) \<and> \<not> parked (snd (arm s))"
begin

lemma storm_open:
  "opened s \<Longrightarrow> wake_storm notify n s = Return t
    \<Longrightarrow> opened t \<and> (if n = 0 then t = s
         else flagged t \<and> \<not> parked t \<and> cost t = cost s + of_bool (parked s))"
proof (induction n arbitrary: s)
  case (Suc n)
  then obtain u where u: "notify s = Return u" "wake_storm notify n u = Return t" by auto
  from notify_open [OF Suc.prems(1) u(1)] Suc.IH [OF _ u(2)] show ?case by (auto split: if_splits)
qed simp

lemma no_lost_notification:
  assumes "opened s" "wake_storm notify (Suc n) s = Return t"
  shows "\<not> fst (arm t) \<and> cost t = cost s + of_bool (parked s)"
  using storm_open [OF assms] arm_flagged by auto

end

section \<open>Lemmas\<close>

text \<open>What nOS-V documents of a live driver descriptor: both kinds of wake and destroy succeed.\<close>

definition driver_contract :: "'z nosv_scheme \<Rightarrow> nosv_ptr \<Rightarrow> bool" where
  "driver_contract N p \<longleftrightarrow>
    (\<forall>h. destroys p h = 0 \<longrightarrow> from_code N (nosv_submit N h p (NOSV_SUBMIT_NONE N)) = Ok ()
        \<and> from_code N (nosv_submit N h p (NOSV_SUBMIT_DEADLINE_WAKE N)) = Ok ()
        \<and> from_code N (nosv_destroy N h p) = Ok ())"

lemma driver_contract_sample: "driver_contract sample_nosv p"
  by (simp add: driver_contract_def)

definition gate_open :: "nosv_ptr \<Rightarrow> DriverGate \<times> nlog \<Rightarrow> bool" where
  "gate_open p = (\<lambda>(g, h). dg_raw g = Some (RawTask p)
    \<and> dg_phase g \<in> {Park_Running, Park_Paused, Park_DeadlineWait, Park_WakePending})"

definition gate_parked :: "DriverGate \<times> nlog \<Rightarrow> bool" where
  "gate_parked = (\<lambda>(g, h). dg_phase g \<in> {Park_Paused, Park_DeadlineWait})"

definition gate_flagged :: "DriverGate \<times> nlog \<Rightarrow> bool" where
  "gate_flagged = (\<lambda>(g, h). dg_notified g)"

definition gate_wakes :: "nosv_ptr \<Rightarrow> DriverGate \<times> nlog \<Rightarrow> nat" where
  "gate_wakes p = (\<lambda>(g, h). submits p h)"

definition gate_arm :: "park_mode \<Rightarrow> DriverGate \<times> nlog \<Rightarrow> bool \<times> DriverGate \<times> nlog" where
  "gate_arm mode = (\<lambda>(g, h). case driver_arm mode g of (b, g) \<Rightarrow> (b, g, h))"

lemma driver_notify_open:
  assumes "gate_open p (g, h)" and "driver_notify N m r (g, h) = Return (g', h')"
  shows "g' = g\<lparr>dg_notified := True,
           dg_phase := (if gate_parked (g, h) then Park_WakePending else dg_phase g)\<rparr>
    \<and> h' = (if gate_parked (g, h) then h @ [CSubmit p (if dg_phase g = Park_DeadlineWait
             then NOSV_SUBMIT_DEADLINE_WAKE N else NOSV_SUBMIT_NONE N)] else h)"
  using assms
  by (cases "dg_phase g")
    (auto simp: driver_notify_def gate_open_def gate_parked_def Let_def ffi_submit_def
      ffi_submit_deadline_wake_def ffi_submit_with_def split: sum.splits)

lemma driver_notify_closed:
  "dg_phase g \<in> {Park_Building, Park_Terminal, Park_Destroyed}
    \<Longrightarrow> driver_notify N m r (g, h) = Return (g\<lparr>dg_notified := True\<rparr>, h)"
  by (auto simp: driver_notify_def Let_def)

lemma driver_notify_returns:
  assumes "driver_contract N p" "destroys p h = 0" "gate_open p (g, h)"
  shows "\<exists>g' h'. driver_notify N m r (g, h) = Return (g', h')"
  using assms
  by (cases "dg_phase g")
    (auto simp: driver_notify_def gate_open_def driver_contract_def Let_def ffi_submit_def
      ffi_submit_deadline_wake_def ffi_submit_with_def)

lemma park_gate_driver:
  "park_gate (driver_notify N m r) (gate_arm mode) (gate_open p) gate_parked gate_flagged (gate_wakes p)"
proof unfold_locales
  fix s t :: "DriverGate \<times> nlog"
  obtain g h g' h' where st: "s = (g, h)" "t = (g', h')" by (cases s; cases t)
  assume "gate_open p s" "driver_notify N m r s = Return t"
  with driver_notify_open [of p g h N m r g' h'] show "gate_open p t \<and> gate_flagged t
      \<and> \<not> gate_parked t \<and> gate_wakes p t = gate_wakes p s + of_bool (gate_parked s)"
    by (auto simp: st gate_open_def gate_flagged_def gate_parked_def gate_wakes_def)
next
  fix s :: "DriverGate \<times> nlog"
  assume "gate_open p s" "gate_flagged s"
  then show "\<not> fst (gate_arm mode s) \<and> gate_open p (snd (gate_arm mode s))
      \<and> \<not> gate_parked (snd (gate_arm mode s))"
    by (cases s) (auto simp: gate_open_def gate_flagged_def gate_parked_def gate_arm_def driver_arm_def)
qed

interpretation timer_gate:
  park_gate "timer_notify N" "gate_arm mode" "gate_open p" gate_parked gate_flagged "gate_wakes p"
  for N mode p
  unfolding timer_notify_def by (rule park_gate_driver)

interpretation uring_gate:
  park_gate "uring_notify N" "gate_arm mode" "gate_open p" gate_parked gate_flagged "gate_wakes p"
  for N mode p
  unfolding uring_notify_def by (rule park_gate_driver)

lemma driver_retire_Return_iff:
  "driver_retire N a b c (g, h) = Return (g', h') \<longleftrightarrow>
    dg_phase g = Park_Terminal \<and> (\<exists>raw. dg_raw g = Some raw \<and> fst (ffi_destroy N raw h) = Ok ()
      \<and> g' = g\<lparr>dg_raw := None, dg_phase := Park_Destroyed\<rparr> \<and> h' = snd (ffi_destroy N raw h))"
  by (auto simp: driver_retire_def ffi_destroy_def Let_def split: option.splits sum.splits)

lemma driver_start_Ok:
  assumes "driver_start N tt h = (Ok g, h')"
  shows "\<exists>p. p \<noteq> 0 \<and> dg_raw g = Some (RawTask p) \<and> dg_phase g = Park_Running \<and> \<not> dg_notified g
    \<and> h' = h @ [CCreate (raw_type_as_ptr tt) 8, CMetadata p, CSubmit p (NOSV_SUBMIT_NONE N)]"
  using assms
  by (auto simp: driver_start_def ffi_create_def ffi_metadata_def ffi_submit_def ffi_submit_with_def
      driver_gate_new_def Let_def raw_task_from_ptr_def split: prod.splits sum.splits if_splits)

text \<open>A failed start has destroyed the descriptor it created, and kept no other one.\<close>

lemma driver_start_Err:
  assumes "driver_start N tt h = (Err e, h')"
  shows "h' = h @ [CCreate (raw_type_as_ptr tt) 8]
    \<or> (\<exists>p mid. h' = h @ [CCreate (raw_type_as_ptr tt) 8, CMetadata p] @ mid @ [CDestroy p]
         \<and> (mid = [] \<or> mid = [CSubmit p (NOSV_SUBMIT_NONE N)]))"
  using assms
  by (auto simp: driver_start_def ffi_create_def ffi_metadata_def ffi_submit_def ffi_submit_with_def
      ffi_destroy_def Let_def raw_task_from_ptr_def split: prod.splits sum.splits if_splits)

section \<open>Properties\<close>

text \<open>
  C15: no notification of a driver is lost and none is sent twice. Whatever the driver is doing
  (running, parked indefinitely or until a deadline, or already being woken), after any number of
  notifications the driver makes another pass before it parks again, and the storm has cost exactly
  one native wake when the driver was parked, none otherwise; the mode of the wake fits the park.
\<close>

theorem driver_never_loses_notification:
  assumes "gate_open p (g, h)"
    and "wake_storm (timer_notify N) (Suc n) (g, h) = Return (g', h')"
  shows "\<not> fst (driver_arm mode g')
    \<and> submits p h' = submits p h + of_bool (dg_phase g \<in> {Park_Paused, Park_DeadlineWait})
    \<and> (dg_phase g = Park_DeadlineWait \<and> n = 0 \<longrightarrow> last h' = CSubmit p (NOSV_SUBMIT_DEADLINE_WAKE N))
    \<and> (dg_phase g = Park_Paused \<and> n = 0 \<longrightarrow> last h' = CSubmit p (NOSV_SUBMIT_NONE N))"
proof -
  have "h' = h @ [CSubmit p (if dg_phase g = Park_DeadlineWait
             then NOSV_SUBMIT_DEADLINE_WAKE N else NOSV_SUBMIT_NONE N)]"
    if "n = 0" "gate_parked (g, h)"
    using that assms(2) driver_notify_open [OF assms(1), of N "''timer descriptor missing''"
        "''timer wake submit failed''" g' h'] by (simp add: timer_notify_def)
  moreover note timer_gate.no_lost_notification [OF assms, of mode]
  ultimately show ?thesis
    by (auto simp: gate_arm_def gate_wakes_def gate_parked_def split: prod.splits)
qed

theorem driver_never_loses_notification_witness:
  "\<exists>g' h'. wake_storm (timer_notify sample_nosv) 3
      (\<lparr>dg_raw = Some (RawTask 64), dg_phase = Park_DeadlineWait, dg_notified = False\<rparr>, []) = Return (g', h')
    \<and> \<not> fst (driver_arm ParkPause g') \<and> submits 64 h' = 1"
proof -
  let ?g = "\<lparr>dg_raw = Some (RawTask 64), dg_phase = Park_DeadlineWait, dg_notified = False\<rparr>"
  have o: "gate_open 64 (?g, [])" by (simp add: gate_open_def)
  have run: "wake_storm (timer_notify sample_nosv) (Suc 2) (?g, []) = Return
      (\<lparr>dg_raw = Some (RawTask 64), dg_phase = Park_WakePending, dg_notified = True\<rparr>, [CSubmit 64 4])"
    by (simp add: numeral_2_eq_2 timer_notify_def driver_notify_def Let_def ffi_submit_deadline_wake_def
        ffi_submit_with_def)
  have three: "(3 :: nat) = Suc 2" by simp
  from driver_never_loses_notification [OF o run, of ParkPause] run show ?thesis
    unfolding three by fastforce
qed

end
