(* ===== verification/Uring_Driver.thy ===== *)
theory Uring_Driver
  imports Uring_Owned Driver_Gate
begin

text \<open>
  The ring driver of \<open>src/io_uring.rs\<close> as a whole: one pass with its critical sections, the scheduling
  decision, the run loop, shutdown and retirement. The world
  holds what the mutexes of the driver protect, the shared states of the completion-native operations
  and the log of native calls. The ring is absent once the driver has dropped it.
\<close>

section \<open>State\<close>

record ('x, 'w, 'q, 'u, 'r) UringWorld =
  uw_data :: "('x, 'w) owned_data"
  uw_queue :: 'u
  uw_ring :: "'q option"
  uw_admission :: bool
  uw_store :: "'r owned_store"
  uw_gate :: DriverGate
  uw_log :: nlog
  uw_completed :: bool

text \<open>What never changes: libraries, the retained probe, the configuration, the nOS-V library.\<close>

record ('q, 's, 'x, 'u, 'w, 'r) uring_env =
  ue_libc :: libc
  ue_ring :: "('q, 's, 'x) ring_lib"
  ue_queue :: "('u, 'w TypedHandler QueuedOwnedOp) ubq"
  ue_work :: "('w, 's, 'r) op_work"
  ue_supported :: "bool list"
  ue_config :: IoUringConfig
  ue_nosv :: nosv

definition driver_notify_world ::
  "('q, 's, 'x, 'u, 'w, 'r) uring_env \<Rightarrow> ('x, 'w, 'q, 'u, 'r) UringWorld \<Rightarrow> ('x, 'w, 'q, 'u, 'r) UringWorld exec" where
  "driver_notify_world E w = exec_bind (uring_notify (ue_nosv E) (uw_gate w, uw_log w))
     (\<lambda>(g, h). Return (w\<lparr>uw_gate := g, uw_log := h\<rparr>))"

text \<open>The driver that \<open>start\<close> publishes.\<close>

definition uring_start ::
  "'z nosv_scheme \<Rightarrow> RawTaskType \<Rightarrow> 'q \<Rightarrow> 'u \<Rightarrow> 'r owned_store \<Rightarrow> nlog
    \<Rightarrow> (('x, 'w, 'q, 'u, 'r) UringWorld, NativeError) rust_result \<times> nlog" where
  "uring_start N tt ring queue store h =
    (case uring_gate_start N tt h of
       (Inl e, h) \<Rightarrow> (Err e, h)
     | (Inr g, h) \<Rightarrow> (Ok \<lparr>uw_data = driver_data_new, uw_queue = queue, uw_ring = Some ring,
         uw_admission = True, uw_store = store, uw_gate = g, uw_log = h, uw_completed = False\<rparr>, h))"

section \<open>One pass\<close>

fun wake_admissions :: "nat list \<Rightarrow> ('x, 'h) DriverData \<Rightarrow> waker list \<Rightarrow> ('x, 'h) DriverData \<times> waker list" where
  "wake_admissions [] d wakes = (d, wakes)"
| "wake_admissions (s # ss) d wakes =
    (if \<not> si_iterator_finished (dd_states d s) then
       (case take_admission_waker (dd_states d s) wakes of
          (st, wakes) \<Rightarrow> wake_admissions ss (set_state s st d) wakes)
     else wake_admissions ss d wakes)"

text \<open>The submission section; \<open>live\<close> tells which weak references of the registry can be upgraded.\<close>

definition stage_section ::
  "('q, 's, 'x, 'u, 'w, 'r) uring_env \<Rightarrow> (nat \<Rightarrow> bool) \<Rightarrow> ('x, 'w, 'q, 'u, 'r) UringWorld
    \<Rightarrow> (('w TypedHandler \<times> OwnedFailure) list \<times> waker list \<times> ('x, 'w, 'q, 'u, 'r) UringWorld) exec" where
  "stage_section E live w =
    (case uw_ring w of
       None \<Rightarrow> Abort ''ring missing during submit''
     | Some q \<Rightarrow>
         exec_bind (stage_cancellations (ue_ring E) (uw_data w, q)) (\<lambda>dq.
         exec_bind (stage_owned_cancellations (ue_ring E) dq) (\<lambda>(d, q).
         exec_bind (stage_owned (ue_ring E) (ue_queue E) (ue_work E) (ue_supported E) (uw_store w)
                      (unat (cf_entries (ue_config E))) [] ((d, uw_queue w), q)) (\<lambda>(failed, (d, u), q).
         exec_bind (submit_staged (ue_libc E) (ue_ring E) (d, q) []) (\<lambda>((d, q), wakes).
           let (d, wakes) =
                 (if dd_owned_pending d = [] \<and> dd_owned_cancel_queue d = [] \<and> ubq_is_empty (ue_queue E) u
                  then wake_admissions (filter live (dd_submissions d)) d wakes else (d, wakes))
           in Return (failed, wakes, w\<lparr>uw_data := d, uw_queue := u, uw_ring := Some q\<rparr>))))))"

definition fail_section ::
  "('q, 's, 'x, 'u, 'w, 'r) uring_env \<Rightarrow> ('w TypedHandler \<times> OwnedFailure) list \<Rightarrow> waker list
    \<Rightarrow> ('x, 'w, 'q, 'u, 'r) UringWorld \<Rightarrow> waker list \<times> ('x, 'w, 'q, 'u, 'r) UringWorld" where
  "fail_section E failed wakes w =
    (case fail_owned (ue_libc E) (ue_work E) failed (uw_store w) wakes of
       (m, wakes) \<Rightarrow> (wakes, w\<lparr>uw_store := m\<rparr>))"

definition reap_section ::
  "('q, 's, 'x, 'u, 'w, 'r) uring_env \<Rightarrow> ('x, 'w, 'q, 'u, 'r) UringWorld
    \<Rightarrow> ('x cqe list \<times> bool \<times> ('x, 'w, 'q, 'u, 'r) UringWorld) exec" where
  "reap_section E w =
    (case uw_ring w of
       None \<Rightarrow> Abort ''ring missing during reap''
     | Some q \<Rightarrow>
         (case rl_reap (ue_ring E) (cf_reap_size (ue_config E)) q of (values, drained_cq, q) \<Rightarrow>
            Return (values, length values = cf_reap_size (ue_config E) \<or> \<not> drained_cq, w\<lparr>uw_ring := Some q\<rparr>)))"

definition dispatch ::
  "('q, 's, 'x, 'u, 'w, 'r) uring_env \<Rightarrow> 'x cqe \<Rightarrow> waker list \<Rightarrow> ('x, 'w, 'q, 'u, 'r) UringWorld
    \<Rightarrow> (nat option \<times> waker list \<times> ('x, 'w, 'q, 'u, 'r) UringWorld) exec" where
  "dispatch E cqe wakes w =
    (if hm_contains (cq_user_data cqe) (dd_contexts (uw_data w)) then
       exec_bind (dispatch_raw (ue_ring E) cqe (uw_data w) wakes) (\<lambda>(overflow, d, wakes).
         Return (overflow, wakes, w\<lparr>uw_data := d\<rparr>))
     else
       exec_bind (dispatch_owned (ue_ring E) (ue_work E) cqe (uw_data w, uw_store w) wakes)
         (\<lambda>((d, m), wakes). Return (None, wakes, w\<lparr>uw_data := d, uw_store := m\<rparr>)))"

fun dispatch_all ::
  "('q, 's, 'x, 'u, 'w, 'r) uring_env \<Rightarrow> 'x cqe list \<Rightarrow> nat list \<Rightarrow> waker list
    \<Rightarrow> ('x, 'w, 'q, 'u, 'r) UringWorld \<Rightarrow> (nat list \<times> waker list \<times> ('x, 'w, 'q, 'u, 'r) UringWorld) exec" where
  "dispatch_all E [] overflow wakes w = Return (overflow, wakes, w)"
| "dispatch_all E (cqe # cqes) overflow wakes w =
    exec_bind (dispatch E cqe wakes w) (\<lambda>(o', wakes, w).
      dispatch_all E cqes (case o' of None \<Rightarrow> overflow | Some s \<Rightarrow> overflow @ [s]) wakes w)"

text \<open>\<open>request_cancel\<close> with its notification, as every caller sees it.\<close>

definition cancel_submission ::
  "('q, 's, 'x, 'u, 'w, 'r) uring_env \<Rightarrow> nat \<Rightarrow> Delivery \<Rightarrow> ('x, 'w, 'q, 'u, 'r) UringWorld
    \<Rightarrow> ('x, 'w, 'q, 'u, 'r) UringWorld exec" where
  "cancel_submission E s delivery w =
    exec_bind (request_cancel s delivery (uw_data w)) (\<lambda>d. driver_notify_world E (w\<lparr>uw_data := d\<rparr>))"

fun cancel_submissions ::
  "('q, 's, 'x, 'u, 'w, 'r) uring_env \<Rightarrow> Delivery \<Rightarrow> nat list \<Rightarrow> ('x, 'w, 'q, 'u, 'r) UringWorld
    \<Rightarrow> ('x, 'w, 'q, 'u, 'r) UringWorld exec" where
  "cancel_submissions E delivery [] w = Return w"
| "cancel_submissions E delivery (s # ss) w =
    exec_bind (cancel_submission E s delivery w) (cancel_submissions E delivery ss)"

definition driver_pass ::
  "('q, 's, 'x, 'u, 'w, 'r) uring_env \<Rightarrow> (nat \<Rightarrow> bool) \<Rightarrow> ('x, 'w, 'q, 'u, 'r) UringWorld
    \<Rightarrow> (waker list \<times> bool \<times> ('x, 'w, 'q, 'u, 'r) UringWorld) exec" where
  "driver_pass E live w =
    exec_bind (stage_section E live w) (\<lambda>(failed, wakes, w).
    let (wakes, w) = fail_section E failed wakes w in
    exec_bind (reap_section E w) (\<lambda>(cqes, backlog, w).
    exec_bind (dispatch_all E cqes [] wakes w) (\<lambda>(overflow, wakes, w).
    exec_bind (cancel_submissions E DeliveryOverflow overflow w) (\<lambda>w.
      Return (wakes, backlog, w)))))"

section \<open>The run loop\<close>

datatype RunDecision = RunStop | RunYield | RunWait | RunPause

definition decide :: "('x, 'h) DriverData \<Rightarrow> bool \<Rightarrow> bool \<Rightarrow> RunDecision" where
  "decide d backlog owned_queue_empty =
    (let active = dd_contexts d \<noteq> [] \<or> dd_staged d \<noteq> [] \<or> dd_cancel_queue d \<noteq> []
           \<or> dd_owned_contexts d \<noteq> [] \<or> dd_owned_cancel_contexts d \<noteq> [] \<or> dd_owned_pending d \<noteq> []
           \<or> dd_owned_cancel_queue d \<noteq> [] \<or> \<not> owned_queue_empty
     in if dd_shutdown d \<and> \<not> active then RunStop
        else if backlog \<or> dd_staged d \<noteq> [] \<or> dd_cancel_queue d \<noteq> [] \<or> dd_owned_pending d \<noteq> []
          \<or> dd_owned_cancel_queue d \<noteq> [] \<or> \<not> owned_queue_empty then RunYield
        else if active then RunWait
        else RunPause)"

text \<open>
  Waking the collected tasks through a submit window; \<open>during\<close> is what the wakers, and other threads
  meanwhile, make of the world.
\<close>

definition wake_batch ::
  "('q, 's, 'x, 'u, 'w, 'r) uring_env \<Rightarrow> waker list
    \<Rightarrow> (('x, 'w, 'q, 'u, 'r) UringWorld \<Rightarrow> ('x, 'w, 'q, 'u, 'r) UringWorld exec)
    \<Rightarrow> ('x, 'w, 'q, 'u, 'r) UringWorld \<Rightarrow> ('x, 'w, 'q, 'u, 'r) UringWorld exec" where
  "wake_batch E wakes during w =
    (if wakes \<noteq> [] then
       (case ffi_set_submit_window_size (ue_nosv E) (word_of_nat (length wakes)) (uw_log w) of
          (Inl e, h) \<Rightarrow> Abort ''submit window set failed''
        | (Inr _, h) \<Rightarrow>
            exec_bind (during (w\<lparr>uw_log := h\<rparr>)) (\<lambda>w.
              case ffi_flush_submit_window (ue_nosv E) (uw_log w) of
                (Inl e, h) \<Rightarrow> Abort ''submit window flush failed''
              | (Inr _, h) \<Rightarrow> Return (w\<lparr>uw_log := h\<rparr>)))
     else during w)"

definition decision_mode :: "IoUringConfig \<Rightarrow> RunDecision \<Rightarrow> park_mode" where
  "decision_mode c r = (case r of RunWait \<Rightarrow> ParkWait (cf_poll_interval c) | RunPause \<Rightarrow> ParkPause | _ \<Rightarrow> ParkYield)"

text \<open>
  One iteration. \<open>during\<close> is what the woken tasks and other threads do up to the decision, \<open>before\<close>
  what they do up to the gate section, \<open>parked\<close> what they do while the driver is parked.
\<close>

definition uring_iteration ::
  "('q, 's, 'x, 'u, 'w, 'r) uring_env \<Rightarrow> (nat \<Rightarrow> bool)
    \<Rightarrow> (('x, 'w, 'q, 'u, 'r) UringWorld \<Rightarrow> ('x, 'w, 'q, 'u, 'r) UringWorld exec)
    \<Rightarrow> (('x, 'w, 'q, 'u, 'r) UringWorld \<Rightarrow> ('x, 'w, 'q, 'u, 'r) UringWorld exec)
    \<Rightarrow> (('x, 'w, 'q, 'u, 'r) UringWorld \<Rightarrow> ('x, 'w, 'q, 'u, 'r) UringWorld exec)
    \<Rightarrow> ('x, 'w, 'q, 'u, 'r) UringWorld \<Rightarrow> (bool \<times> ('x, 'w, 'q, 'u, 'r) UringWorld) exec" where
  "uring_iteration E live during before parked w =
    exec_bind (driver_pass E live w) (\<lambda>(wakes, backlog, w).
    exec_bind (wake_batch E wakes during w) (\<lambda>w.
      let decision = decide (uw_data w) backlog (ubq_is_empty (ue_queue E) (uw_queue w)) in
      if decision = RunStop then
        Return (False, w\<lparr>uw_ring := None, uw_gate := (uw_gate w)\<lparr>dg_phase := Park_Terminal\<rparr>\<rparr>)
      else exec_bind (before w) (\<lambda>w.
        let mode = decision_mode (ue_config E) decision;
            (should_park, g) = driver_arm mode (uw_gate w);
            w = w\<lparr>uw_gate := g\<rparr>
        in if \<not> should_park then Return (True, w)
           else exec_bind (driver_park (ue_nosv E) ''driver could not yield or park'' mode (uw_log w)) (\<lambda>h.
             exec_bind (parked (w\<lparr>uw_log := h\<rparr>)) (\<lambda>w.
               Return (True, w\<lparr>uw_gate := driver_resume (uw_gate w)\<rparr>))))))"

text \<open>The loop, driven by fuel: \<open>None\<close> when it runs out before the driver stops.\<close>

fun uring_run ::
  "('q, 's, 'x, 'u, 'w, 'r) uring_env
    \<Rightarrow> (nat \<Rightarrow> (nat \<Rightarrow> bool) \<times> (('x, 'w, 'q, 'u, 'r) UringWorld \<Rightarrow> ('x, 'w, 'q, 'u, 'r) UringWorld exec)
         \<times> (('x, 'w, 'q, 'u, 'r) UringWorld \<Rightarrow> ('x, 'w, 'q, 'u, 'r) UringWorld exec)
         \<times> (('x, 'w, 'q, 'u, 'r) UringWorld \<Rightarrow> ('x, 'w, 'q, 'u, 'r) UringWorld exec))
    \<Rightarrow> nat \<Rightarrow> ('x, 'w, 'q, 'u, 'r) UringWorld \<Rightarrow> ('x, 'w, 'q, 'u, 'r) UringWorld exec option" where
  "uring_run E env 0 w = None"
| "uring_run E env (Suc n) w =
    (case env n of (live, during, before, parked) \<Rightarrow>
      (case uring_iteration E live during before parked w of
         Return (True, w) \<Rightarrow> uring_run E env n w
       | Return (False, w) \<Rightarrow> Some (Return w)
       | Panic m \<Rightarrow> Some (Panic m)
       | Abort m \<Rightarrow> Some (Abort m)))"

section \<open>Shutdown and retirement\<close>

definition owned_in_flight :: "('x, 'h) DriverData \<Rightarrow> nat list" where
  "owned_in_flight d = map oc_control (filter (\<lambda>c. oc_phase c \<noteq> CtxTerminal) (hm_values (dd_owned_contexts d)))"

definition cancel_owned ::
  "('q, 's, 'x, 'u, 'w, 'r) uring_env \<Rightarrow> nat \<Rightarrow> ('x, 'w, 'q, 'u, 'r) UringWorld
    \<Rightarrow> ('x, 'w, 'q, 'u, 'r) UringWorld exec" where
  "cancel_owned E control w =
    driver_notify_world E (w\<lparr>uw_data := request_owned_cancel control (uw_data w)\<rparr>)"

fun cancel_all_owned ::
  "('q, 's, 'x, 'u, 'w, 'r) uring_env \<Rightarrow> nat list \<Rightarrow> ('x, 'w, 'q, 'u, 'r) UringWorld
    \<Rightarrow> ('x, 'w, 'q, 'u, 'r) UringWorld exec" where
  "cancel_all_owned E [] w = Return w"
| "cancel_all_owned E (c # cs) w = exec_bind (cancel_owned E c w) (cancel_all_owned E cs)"

text \<open>\<open>shutdown_and_wait\<close> up to its wait for \<open>uw_completed\<close>.\<close>

definition uring_request_shutdown ::
  "('q, 's, 'x, 'u, 'w, 'r) uring_env \<Rightarrow> (nat \<Rightarrow> bool) \<Rightarrow> ('x, 'w, 'q, 'u, 'r) UringWorld
    \<Rightarrow> ('x, 'w, 'q, 'u, 'r) UringWorld exec" where
  "uring_request_shutdown E live w =
    (let w = w\<lparr>uw_admission := False\<rparr>;
         d = (uw_data w)\<lparr>dd_accepting := False, dd_shutdown := True\<rparr>;
         w = w\<lparr>uw_data := d\<rparr>
     in exec_bind (cancel_submissions E DeliveryDetached (filter live (dd_submissions d)) w) (\<lambda>w.
        exec_bind (cancel_all_owned E (owned_in_flight d) w) (driver_notify_world E)))"

definition uring_retire ::
  "('q, 's, 'x, 'u, 'w, 'r) uring_env \<Rightarrow> ('x, 'w, 'q, 'u, 'r) UringWorld \<Rightarrow> ('x, 'w, 'q, 'u, 'r) UringWorld exec" where
  "uring_retire E w = exec_bind (uring_gate_retire (ue_nosv E) (uw_gate w, uw_log w))
     (\<lambda>(g, h). Return (w\<lparr>uw_gate := g, uw_log := h, uw_completed := True\<rparr>))"

end
