(* ===== verification/Uring_Futures.thy ===== *)
theory Uring_Futures
  imports Uring_Driver
begin

text \<open>
  The futures a caller holds: \<open>SubmitEntries\<close>, \<open>CompletionStream\<close> and \<open>Cancellation\<close> of
  \<open>src/io_uring.rs\<close>, and the lazy \<open>OwnedOp\<close> of \<open>src/io.rs\<close>. The locals of a future are a record;
  the shared state behind its \<open>Arc\<close> is an index into the world.
\<close>

section \<open>Submitting an iterator\<close>

record 's SubmitEntries =
  se_iterator :: "'s sqe_iter option"
  se_pending :: "(usize \<times> 's sqe) option"
  se_next_index :: usize
  se_state :: nat
  se_closed :: bool
  se_done :: bool

record CompletionStream =
  cs_state :: nat
  cs_active :: bool

record Cancellation =
  ca_state :: nat
  ca_active :: bool

definition cancellation_new :: "nat \<Rightarrow> Cancellation" where
  "cancellation_new s = \<lparr>ca_state = s, ca_active = True\<rparr>"

text \<open>\<open>submit_entries\<close>; \<open>rt\<close> is the weak runtime reference, \<open>s\<close> the index of the new state.\<close>

definition submit_entries ::
  "('q, 's, 'x, 'u, 'w, 'r) uring_env \<Rightarrow> runtime_ref \<Rightarrow> int \<Rightarrow> (nat \<Rightarrow> bool) \<Rightarrow> nat \<Rightarrow> 's sqe_iter
    \<Rightarrow> ('x, 'w, 'q, 'u, 'r) UringWorld \<Rightarrow> 's SubmitEntries \<times> ('x, 'w, 'q, 'u, 'r) UringWorld" where
  "submit_entries E rt getpid live s entries w =
    (let d = register_submission (cf_max_buffered (ue_config E)) live s (uw_data w);
         closed = (case rt of None \<Rightarrow> True
                   | Some core \<Rightarrow> (case ensure_running core getpid of Inl _ \<Rightarrow> True | Inr _ \<Rightarrow> False));
         d = (if closed then set_state s ((dd_states d s)\<lparr>si_delivery := DeliveryCancelling\<rparr>) d else d)
     in (\<lparr>se_iterator = Some entries, se_pending = None, se_next_index = 0, se_state = s,
          se_closed = closed, se_done = False\<rparr>, w\<lparr>uw_data := d\<rparr>))"

text \<open>\<open>admit\<close> with its notifications; the ring is needed only after the two early returns.\<close>

definition admit_world ::
  "('q, 's, 'x, 'u, 'w, 'r) uring_env \<Rightarrow> nat \<Rightarrow> 's admission \<Rightarrow> ('x, 'w, 'q, 'u, 'r) UringWorld
    \<Rightarrow> ('s admission \<times> waker list \<times> ('x, 'w, 'q, 'u, 'r) UringWorld) exec" where
  "admit_world E s a w =
    (if \<not> dd_accepting (uw_data w) then
       exec_bind (cancel_submission E s DeliveryCancelling w) (\<lambda>w. Return (a, [], w))
     else if dd_owned_pending (uw_data w) \<noteq> [] \<or> dd_owned_cancel_queue (uw_data w) \<noteq> []
       \<or> \<not> ubq_is_empty (ue_queue E) (uw_queue w) then
       exec_bind (driver_notify_world E w) (\<lambda>w. Return (a, [], w))
     else case uw_ring w of
       None \<Rightarrow> Abort ''ring missing during admission''
     | Some q \<Rightarrow>
         exec_bind (admit (ue_libc E) (ue_ring E) True s a (uw_data w, q)) (\<lambda>(a, notify, wakes, d, q).
           let w = w\<lparr>uw_data := d, uw_ring := Some q\<rparr> in
           if notify then exec_bind (driver_notify_world E w) (\<lambda>w. Return (a, wakes, w))
           else Return (a, wakes, w)))"

text \<open>What the admission future resolves to.\<close>

type_synonym submit_output = "(CompletionStream, SubmissionErrorKind \<times> Cancellation) rust_result"

definition submit_settle ::
  "('q, 's, 'x, 'u, 'w, 'r) uring_env \<Rightarrow> waker \<Rightarrow> 's SubmitEntries \<Rightarrow> ('x, 'w, 'q, 'u, 'r) UringWorld
    \<Rightarrow> ((submit_output, unit) polled \<times> 's SubmitEntries \<times> ('x, 'w, 'q, 'u, 'r) UringWorld) exec" where
  "submit_settle E k se w =
    (let s = se_state se; st = dd_states (uw_data w) s;
         over = se\<lparr>se_done := True, se_iterator := None, se_pending := None\<rparr>;
         failure = (if si_delivery st = DeliveryOverflow then Some CompletionBufferOverflow
                    else if se_closed se \<or> si_delivery st = DeliveryCancelling \<or> si_delivery st = DeliveryDetached
                      then Some SubmitRuntimeClosed
                    else None)
     in (case failure of
           Some kind \<Rightarrow>
             exec_bind (cancel_submission E s DeliveryCancelling w) (\<lambda>w.
               Return (Ready (Err (kind, cancellation_new s)), over, w))
         | None \<Rightarrow>
             if si_iterator_finished st \<and> si_accepted st = si_originals st then
               Return (Ready (Ok \<lparr>cs_state = s, cs_active = True\<rparr>), over, w)
             else
               let w = w\<lparr>uw_data := set_state s
                     (st\<lparr>si_admission_waker := replace_waker (si_admission_waker st) k\<rparr>) (uw_data w)\<rparr>
               in exec_bind (driver_notify_world E w) (\<lambda>w. Return (Pending, se, w))))"

definition submit_poll ::
  "('q, 's, 'x, 'u, 'w, 'r) uring_env \<Rightarrow> waker \<Rightarrow> 's SubmitEntries \<Rightarrow> ('x, 'w, 'q, 'u, 'r) UringWorld
    \<Rightarrow> ((submit_output, unit) polled \<times> waker list \<times> 's SubmitEntries \<times> ('x, 'w, 'q, 'u, 'r) UringWorld) exec" where
  "submit_poll E k se w =
    (if se_done se then Panic ''SubmitEntries polled after completion''
     else if se_closed se then
       exec_bind (submit_settle E k se w) (\<lambda>(p, se, w). Return (p, [], se, w))
     else case se_iterator se of
       None \<Rightarrow> Panic ''live admission iterator''
     | Some it \<Rightarrow>
         exec_bind (admit_world E (se_state se)
             \<lparr>ad_iter = it, ad_pending = se_pending se, ad_next_index = se_next_index se\<rparr> w) (\<lambda>(a, wakes, w).
         let se = se\<lparr>se_iterator := Some (ad_iter a), se_pending := ad_pending a, se_next_index := ad_next_index a\<rparr>
         in exec_bind (submit_settle E k se w) (\<lambda>(p, se, w). Return (p, wakes, se, w))))"

definition submit_drop ::
  "('q, 's, 'x, 'u, 'w, 'r) uring_env \<Rightarrow> 's SubmitEntries \<Rightarrow> ('x, 'w, 'q, 'u, 'r) UringWorld
    \<Rightarrow> ('x, 'w, 'q, 'u, 'r) UringWorld exec" where
  "submit_drop E se w =
    (if \<not> se_done se then cancel_submission E (se_state se) DeliveryDetached w else Return w)"

section \<open>Streams\<close>

text \<open>\<open>CompletionStream::cancel\<close> consumes the stream; its later drop is inactive.\<close>

definition stream_cancel ::
  "('q, 's, 'x, 'u, 'w, 'r) uring_env \<Rightarrow> CompletionStream \<Rightarrow> ('x, 'w, 'q, 'u, 'r) UringWorld
    \<Rightarrow> (Cancellation \<times> ('x, 'w, 'q, 'u, 'r) UringWorld) exec" where
  "stream_cancel E cs w = exec_bind (cancel_submission E (cs_state cs) DeliveryCancelling w)
     (\<lambda>w. Return (cancellation_new (cs_state cs), w))"

definition stream_drop ::
  "('q, 's, 'x, 'u, 'w, 'r) uring_env \<Rightarrow> CompletionStream \<Rightarrow> ('x, 'w, 'q, 'u, 'r) UringWorld
    \<Rightarrow> ('x, 'w, 'q, 'u, 'r) UringWorld exec" where
  "stream_drop E cs w = (if cs_active cs then cancel_submission E (cs_state cs) DeliveryDetached w else Return w)"

definition stream_poll ::
  "waker \<Rightarrow> nat \<Rightarrow> ('x, 'w, 'q, 'u, 'r) UringWorld
    \<Rightarrow> ('x stream_item, unit) polled \<times> ('x, 'w, 'q, 'u, 'r) UringWorld" where
  "stream_poll k s w = (case next_completion_poll k (dd_states (uw_data w) s) of
     (p, st) \<Rightarrow> (p, w\<lparr>uw_data := set_state s st (uw_data w)\<rparr>))"

definition cancellation_poll ::
  "waker \<Rightarrow> nat \<Rightarrow> ('x, 'w, 'q, 'u, 'r) UringWorld
    \<Rightarrow> ('x stream_item, unit) polled \<times> ('x, 'w, 'q, 'u, 'r) UringWorld" where
  "cancellation_poll k s w = (case next_cancellation_poll k (dd_states (uw_data w) s) of
     (p, st) \<Rightarrow> (p, w\<lparr>uw_data := set_state s st (uw_data w)\<rparr>))"

definition drain_poll ::
  "waker \<Rightarrow> nat \<Rightarrow> ('x, 'w, 'q, 'u, 'r) UringWorld \<Rightarrow> (unit, unit) polled \<times> ('x, 'w, 'q, 'u, 'r) UringWorld" where
  "drain_poll k s w = (case wait_drained_poll k (dd_states (uw_data w) s) of
     (p, st) \<Rightarrow> (p, w\<lparr>uw_data := set_state s st (uw_data w)\<rparr>))"

definition cancellation_drop ::
  "Cancellation \<Rightarrow> ('x, 'w, 'q, 'u, 'r) UringWorld \<Rightarrow> ('x, 'w, 'q, 'u, 'r) UringWorld" where
  "cancellation_drop c w =
    (if ca_active c then w\<lparr>uw_data := set_state (ca_state c) (detach (dd_states (uw_data w) (ca_state c))) (uw_data w)\<rparr>
     else w)"

section \<open>Completion-native operations\<close>

record 'w OwnedOp =
  oo_state :: nat
  oo_handler :: "'w TypedHandler option"
  oo_queued :: bool
  oo_done :: bool

definition owned_op_new :: "nat \<Rightarrow> 'w \<Rightarrow> 'w OwnedOp" where
  "owned_op_new i work = \<lparr>oo_state = i, oo_handler = Some \<lparr>th_state = i, th_work = work\<rparr>,
     oo_queued = False, oo_done = False\<rparr>"

text \<open>
  The first poll transfers the handler to the driver. A handler that cannot be transferred fails at
  once; the waker it hands back is called, which is the last component.
\<close>

definition owned_poll_submit ::
  "('q, 's, 'x, 'u, 'w, 'r) uring_env \<Rightarrow> runtime_ref \<Rightarrow> int \<Rightarrow> 'w OwnedOp \<times> ('x, 'w, 'q, 'u, 'r) UringWorld
    \<Rightarrow> (('w OwnedOp \<times> ('x, 'w, 'q, 'u, 'r) UringWorld) \<times> waker option) exec" where
  "owned_poll_submit E rt getpid = (\<lambda>(op, w).
    (if oo_done op then Panic ''owned I/O operation polled after completion''
     else if \<not> oo_queued op then
       (case oo_handler op of
          None \<Rightarrow> Panic ''unsubmitted owned handler''
        | Some h \<Rightarrow>
            let op = op\<lparr>oo_handler := None\<rparr>;
                fail = (\<lambda>h. case handler_fail (ue_work E) h runtime_closed_error (uw_store w) of
                    (k, m) \<Rightarrow> ((op, w\<lparr>uw_store := m\<rparr>), k))
            in (case weak_ensure_running rt getpid of
                  Inl _ \<Rightarrow> Return (fail h)
                | Inr _ \<Rightarrow>
                    (case enqueue (ue_queue E) (uw_admission w) \<lparr>qo_control = oo_state op, qo_handler = h\<rparr> (uw_queue w) of
                       (Inl operation, _) \<Rightarrow> Return (fail (qo_handler operation))
                     | (Inr _, u) \<Rightarrow>
                         exec_bind (driver_notify_world E (w\<lparr>uw_queue := u\<rparr>)) (\<lambda>w.
                           Return ((op\<lparr>oo_queued := True\<rparr>, w), None)))))
     else Return ((op, w), None)))"

text \<open>The polling side of the shared state: two checks around the registration of the waker.\<close>

definition owned_check :: "'r OwnedState \<Rightarrow> (('r, unit) polled \<times> 'r OwnedState) exec" where
  "owned_check s =
    (if os_completed s then
       (case option_take (os_result s) of
          (None, _) \<Rightarrow> Panic ''published owned result missing''
        | (Some r, slot) \<Rightarrow> Return (Ready r, s\<lparr>os_result := slot\<rparr>))
     else Return (Pending, s))"

definition owned_register :: "waker \<Rightarrow> 'r OwnedState \<Rightarrow> 'r OwnedState" where
  "owned_register k s = s\<lparr>os_waker := replace_waker (os_waker s) k\<rparr>"

text \<open>\<open>gap\<close> is what the driver does between the first check and the registration, \<open>gap'\<close> after it.\<close>

definition owned_cell_poll ::
  "('r OwnedState \<Rightarrow> 'r OwnedState) \<Rightarrow> ('r OwnedState \<Rightarrow> 'r OwnedState) \<Rightarrow> waker \<Rightarrow> 'r OwnedState
    \<Rightarrow> (('r, unit) polled \<times> 'r OwnedState) exec" where
  "owned_cell_poll gap gap' k s =
    exec_bind (owned_check s) (\<lambda>(p, s).
      if p \<noteq> Pending then Return (p, s) else owned_check (gap' (owned_register k (gap s))))"

definition owned_poll ::
  "('q, 's, 'x, 'u, 'w, 'r) uring_env \<Rightarrow> runtime_ref \<Rightarrow> int \<Rightarrow> waker \<Rightarrow> 'w OwnedOp \<times> ('x, 'w, 'q, 'u, 'r) UringWorld
    \<Rightarrow> (('r, unit) polled \<times> waker option \<times> 'w OwnedOp \<times> ('x, 'w, 'q, 'u, 'r) UringWorld) exec" where
  "owned_poll E rt getpid k s =
    exec_bind (owned_poll_submit E rt getpid s) (\<lambda>((op, w), woken).
    exec_bind (owned_cell_poll (\<lambda>s. s) (\<lambda>s. s) k (uw_store w (oo_state op))) (\<lambda>(p, st).
      Return (p, woken, if p = Pending then op else op\<lparr>oo_done := True\<rparr>,
        w\<lparr>uw_store := (uw_store w)(oo_state op := st)\<rparr>)))"

definition owned_drop ::
  "('q, 's, 'x, 'u, 'w, 'r) uring_env \<Rightarrow> 'w OwnedOp \<Rightarrow> ('x, 'w, 'q, 'u, 'r) UringWorld
    \<Rightarrow> ('x, 'w, 'q, 'u, 'r) UringWorld exec" where
  "owned_drop E op w =
    (if oo_queued op \<and> \<not> oo_done op then
       cancel_owned E (oo_state op)
         (w\<lparr>uw_store := (uw_store w)(oo_state op := control_cancel (uw_store w (oo_state op)))\<rparr>)
     else Return w)"

section \<open>The result cell never loses a completion\<close>

definition owned_open :: "'r OwnedState \<Rightarrow> bool" where
  "owned_open s \<longleftrightarrow> \<not> os_completed s"

definition owned_filled :: "'r OwnedState \<Rightarrow> bool" where
  "owned_filled s \<longleftrightarrow> os_completed s \<and> os_result s \<noteq> None"

lemma owned_check_simps [simp]:
  "\<not> os_completed s \<Longrightarrow> owned_check s = Return (Pending, s)"
  "os_completed s \<Longrightarrow> os_result s = Some r \<Longrightarrow> owned_check s = Return (Ready r, s\<lparr>os_result := None\<rparr>)"
  by (simp_all add: owned_check_def option_take_def)

lemma store_and_publish_simps [simp]:
  "fst (store_and_publish v s) = os_waker s"
  "os_completed (snd (store_and_publish v s))" "os_result (snd (store_and_publish v s)) = Some v"
  by (simp_all add: store_and_publish_def control_publish_def option_take_def Let_def)

lemma owned_register_simps [simp]:
  "os_completed (owned_register k s) = os_completed s" "os_result (owned_register k s) = os_result s"
  "os_waker (owned_register k s) = Some k"
  by (auto simp: owned_register_def replace_waker_def split: option.splits)

lemma owned_cell_poll_eq:
  "os_completed s \<Longrightarrow> os_result s = Some r \<Longrightarrow> owned_cell_poll gap gap' k s = Return (Ready r, s\<lparr>os_result := None\<rparr>)"
  "\<not> os_completed s \<Longrightarrow> owned_cell_poll gap gap' k s = owned_check (gap' (owned_register k (gap s)))"
  by (simp_all add: owned_cell_poll_def)

interpretation owned_cell:
  wake_cell "owned_cell_poll (\<lambda>s. s) (\<lambda>s. s)" "store_and_publish v" owned_open owned_filled os_waker
  for v
  by unfold_locales (auto simp: owned_open_def owned_filled_def owned_cell_poll_eq)

end
