(* ===== verification/Uring_Invariant.thy ===== *)
theory Uring_Invariant
  imports Uring_Futures
begin

text \<open>
  The invariant of the driver's whole data: the raw part, the completion-native part, and that no
  address is shared between the three tables of contexts. Every critical section of the driver and
  of its clients preserves it, and leaves the other part alone.
\<close>

section \<open>Frames\<close>

definition same_owned :: "('x, 'h) DriverData \<Rightarrow> ('x, 'h) DriverData \<Rightarrow> bool" where
  "same_owned d d' \<longleftrightarrow> dd_owned_contexts d' = dd_owned_contexts d
    \<and> dd_owned_cancel_contexts d' = dd_owned_cancel_contexts d
    \<and> dd_owned_cancel_queue d' = dd_owned_cancel_queue d \<and> dd_owned_pending d' = dd_owned_pending d
    \<and> (\<forall>p. count_list (dd_staged d') (StagedOwned p) = count_list (dd_staged d) (StagedOwned p)
         \<and> count_list (dd_staged d') (StagedOwnedCancel p) = count_list (dd_staged d) (StagedOwnedCancel p))
    \<and> dd_accepting d' = dd_accepting d \<and> dd_shutdown d' = dd_shutdown d"

definition same_raw :: "('x, 'h) DriverData \<Rightarrow> ('x, 'h) DriverData \<Rightarrow> bool" where
  "same_raw d d' \<longleftrightarrow> dd_contexts d' = dd_contexts d \<and> dd_cancel_queue d' = dd_cancel_queue d
    \<and> (\<forall>p. count_list (dd_staged d') (StagedRaw p) = count_list (dd_staged d) (StagedRaw p))
    \<and> dd_states d' = dd_states d \<and> dd_accepting d' = dd_accepting d \<and> dd_shutdown d' = dd_shutdown d"

lemma same_refl [simp]: "same_owned d d" "same_raw d d"
  by (simp_all add: same_owned_def same_raw_def)

lemma same_owned_trans: "same_owned a b \<Longrightarrow> same_owned b c \<Longrightarrow> same_owned a c"
  by (simp add: same_owned_def)

lemma same_raw_trans: "same_raw a b \<Longrightarrow> same_raw b c \<Longrightarrow> same_raw a c"
  by (simp add: same_raw_def)

lemma owned_inv_frame: "same_owned d d' \<Longrightarrow> owned_inv d \<Longrightarrow> owned_inv d'"
  by (rule owned_inv_cong) (auto simp: same_owned_def)

lemma raw_inv_frame: "same_raw d d' \<Longrightarrow> raw_inv d \<Longrightarrow> raw_inv d'"
  by (rule raw_inv_cong) (auto simp: same_raw_def dest: raw_invD(6))

section \<open>Addresses\<close>

definition ptr_inv :: "('x, 'h) DriverData \<Rightarrow> bool" where
  "ptr_inv d \<longleftrightarrow> (\<forall>p. (hm_get (dd_contexts d) p = None \<or> hm_get (dd_owned_contexts d) p = None)
     \<and> (hm_get (dd_contexts d) p = None \<or> hm_get (dd_owned_cancel_contexts d) p = None)
     \<and> (hm_get (dd_owned_contexts d) p = None \<or> hm_get (dd_owned_cancel_contexts d) p = None))"

lemma live_pointers_iff:
  "p \<in> set (live_pointers d) \<longleftrightarrow> hm_get (dd_contexts d) p \<noteq> None \<or> hm_get (dd_owned_contexts d) p \<noteq> None
    \<or> hm_get (dd_owned_cancel_contexts d) p \<noteq> None"
  by (simp add: live_pointers_def hm_get_None_iff)

lemma ptr_inv_shrink:
  assumes "ptr_inv d"
    and "\<And>p. hm_get (dd_contexts d') p \<noteq> None \<Longrightarrow> hm_get (dd_contexts d) p \<noteq> None"
    and "\<And>p. hm_get (dd_owned_contexts d') p \<noteq> None \<Longrightarrow> hm_get (dd_owned_contexts d) p \<noteq> None"
    and "\<And>p. hm_get (dd_owned_cancel_contexts d') p \<noteq> None \<Longrightarrow> hm_get (dd_owned_cancel_contexts d) p \<noteq> None"
  shows "ptr_inv d'"
  using assms unfolding ptr_inv_def by (metis (no_types))

lemma ptr_inv_insert:
  assumes "ptr_inv d" "p \<notin> set (live_pointers d)"
  shows "dd_contexts d' = hm_insert p c (dd_contexts d) \<Longrightarrow> dd_owned_contexts d' = dd_owned_contexts d
      \<Longrightarrow> dd_owned_cancel_contexts d' = dd_owned_cancel_contexts d \<Longrightarrow> ptr_inv d'"
    and "dd_contexts d' = dd_contexts d \<Longrightarrow> dd_owned_contexts d' = hm_insert p oc (dd_owned_contexts d)
      \<Longrightarrow> dd_owned_cancel_contexts d' = dd_owned_cancel_contexts d \<Longrightarrow> ptr_inv d'"
    and "dd_contexts d' = dd_contexts d \<Longrightarrow> dd_owned_contexts d' = dd_owned_contexts d
      \<Longrightarrow> dd_owned_cancel_contexts d' = hm_insert p k (dd_owned_cancel_contexts d) \<Longrightarrow> ptr_inv d'"
  using assms by (auto simp: ptr_inv_def live_pointers_iff)

text \<open>The invariant of the whole data.\<close>

definition driver_inv :: "('x, 'h) DriverData \<Rightarrow> bool" where
  "driver_inv d \<longleftrightarrow> raw_inv d \<and> owned_inv d \<and> ptr_inv d"

lemma driver_inv_new: "driver_inv driver_data_new"
  by (simp add: driver_inv_def raw_inv_new owned_inv_new) (simp add: ptr_inv_def driver_data_new_def)

lemma driver_inv_set_state:
  assumes "driver_inv d" "si_counts v = si_counts (dd_states d s)" "si_bounded v"
  shows "driver_inv (set_state s v d)"
  using assms by (auto simp: driver_inv_def ptr_inv_def intro: raw_inv_set_state owned_inv_cong)

lemma driver_inv_flags:
  assumes "driver_inv d"
  shows "driver_inv (d\<lparr>dd_accepting := a, dd_shutdown := b\<rparr>)"
proof -
  from assms have r: "raw_inv d" and o: "owned_inv d" and "ptr_inv d" by (auto simp: driver_inv_def)
  moreover have "raw_inv (d\<lparr>dd_accepting := a, dd_shutdown := b\<rparr>)"
    by (rule raw_inv_cong [OF _ _ _ _ _ r]) (simp_all add: raw_invD(6) [OF r])
  moreover have "owned_inv (d\<lparr>dd_accepting := a, dd_shutdown := b\<rparr>)"
    by (rule owned_inv_cong [OF _ _ _ _ _ o]) simp_all
  ultimately show ?thesis by (simp add: driver_inv_def ptr_inv_def)
qed

text \<open>A section that preserves the raw part and frames the rest, and the converse.\<close>

lemma driver_inv_raw: "driver_inv d \<Longrightarrow> raw_inv d' \<Longrightarrow> same_owned d d' \<Longrightarrow> ptr_inv d' \<Longrightarrow> driver_inv d'"
  by (simp add: driver_inv_def owned_inv_frame)

lemma driver_inv_owned: "driver_inv d \<Longrightarrow> owned_inv d' \<Longrightarrow> same_raw d d' \<Longrightarrow> ptr_inv d' \<Longrightarrow> driver_inv d'"
  by (simp add: driver_inv_def raw_inv_frame)

section \<open>Sections on submitted iterators\<close>

lemma alloc_fresh: "alloc_ok L \<Longrightarrow> rl_alloc L (live_pointers d) = Some p \<Longrightarrow> p \<notin> set (live_pointers d)"
  by (auto simp: alloc_ok_def)

lemma stage_cancels_frame:
  "alloc_ok L \<Longrightarrow> ptr_inv d \<Longrightarrow> stage_cancels L ks (d, q) = Return (d', q') \<Longrightarrow> same_owned d d' \<and> ptr_inv d'"
proof (induction ks arbitrary: d q)
  case Nil
  then show ?case by (auto simp: same_owned_def ptr_inv_def)
next
  case (Cons k ks)
  from Cons.prems(3) obtain p where p: "rl_alloc L (live_pointers d) = Some p" "\<not> hm_contains p (dd_contexts d)"
    by (auto split: option.splits if_splits)
  let ?c = "\<lparr>cx_kind = CtxCancel, cx_phase = CtxStaged, cx_index = cc_index k, cx_user_data = cc_user_data k,
      cx_state = cc_state k, cx_target = Some (cc_target k), cx_cancel_queued = False, cx_cancel_seen = False\<rparr>"
  show ?case
  proof (cases "rl_push L \<lparr>sq_user_data = p, sq_body = rl_async_cancel L (cc_target k)\<rparr> q")
    case None
    with Cons.prems p show ?thesis by (auto simp: same_owned_def ptr_inv_def)
  next
    case (Some q1)
    let ?d = "d\<lparr>dd_cancel_queue := ks, dd_contexts := hm_insert p ?c (dd_contexts d),
        dd_staged := dd_staged d @ [StagedRaw p]\<rparr>"
    have "ptr_inv ?d"
      by (rule ptr_inv_insert(1) [OF Cons.prems(2) alloc_fresh [OF Cons.prems(1) p(1)]]) simp_all
    with Cons.IH [of ?d q1] Cons.prems p Some have "same_owned ?d d' \<and> ptr_inv d'" by simp
    moreover have "same_owned d ?d" by (simp add: same_owned_def)
    ultimately show ?thesis using same_owned_trans by blast
  qed
qed

lemma stage_cancellations_inv:
  assumes "alloc_ok L" "driver_inv d" "stage_cancellations L (d, q) = Return (d', q')"
  shows "driver_inv d' \<and> same_owned d d'"
  using assms stage_cancels_frame [of L d "dd_cancel_queue d" q d' q'] stage_cancels_inv [of L d _ q d' q']
  by (auto simp: stage_cancellations_def driver_inv_def intro: owned_inv_frame)

lemma request_cancel_inv:
  assumes "driver_inv d" "delivery \<noteq> DeliveryOpen"
  obtains d' where "request_cancel s delivery d = Return d'" "driver_inv d'" "same_owned d d'"
    and "\<And>p. hm_get (dd_contexts d') p = map_option (\<lambda>c. if cancellable s c then c\<lparr>cx_cancel_queued := True\<rparr> else c)
          (hm_get (dd_contexts d) p)"
    and "\<And>t. t \<noteq> s \<Longrightarrow> dd_states d' t = dd_states d t"
    and "si_delivery (dd_states d' s) = si_delivery (close_delivery delivery (dd_states d s))"
    and "dd_submissions d' = dd_submissions d"
proof -
  from assms have "raw_inv d" by (simp add: driver_inv_def)
  from request_cancel_returns [OF this assms(2), of s] obtain d' m q st
    where r: "request_cancel s delivery d = Return d'" "raw_inv d'"
    and get: "\<And>p. hm_get (dd_contexts d') p = map_option (\<lambda>c. if cancellable s c then c\<lparr>cx_cancel_queued := True\<rparr> else c)
          (hm_get (dd_contexts d) p)"
    and d': "d' = d\<lparr>dd_contexts := m, dd_cancel_queue := dd_cancel_queue d @ q, dd_states := (dd_states d)(s := st)\<rparr>"
    and st: "si_delivery st = si_delivery (close_delivery delivery (dd_states d s))"
    by blast
  have same: "same_owned d d'" by (simp add: d' same_owned_def)
  have "ptr_inv d'"
    by (rule ptr_inv_shrink [of d]) (use assms same in \<open>auto simp: get driver_inv_def same_owned_def\<close>)
  with driver_inv_raw [OF assms(1) r(2) same] show ?thesis
    by (intro that [of d']) (use r same get st in \<open>simp_all add: d'\<close>)
qed

lemma stage_original_frame:
  assumes "alloc_ok L" "ptr_inv d" "stage_original L s i e (d, q) = Return (Some (d', q'))"
  shows "same_owned d d' \<and> ptr_inv d'"
proof -
  from assms(3) obtain p where p: "rl_alloc L (live_pointers d) = Some p"
    and d': "d' = set_state s ((dd_states d s)\<lparr>si_originals := si_originals (dd_states d s) + 1\<rparr>)
      (d\<lparr>dd_contexts := hm_insert p \<lparr>cx_kind = CtxOriginal, cx_phase = CtxStaged, cx_index = i,
          cx_user_data = sq_user_data e, cx_state = s, cx_target = None, cx_cancel_queued = False,
          cx_cancel_seen = False\<rparr> (dd_contexts d), dd_staged := dd_staged d @ [StagedRaw p]\<rparr>)"
    by (auto simp: stage_original_def Let_def split: option.splits if_splits)
  have "ptr_inv d'"
    by (rule ptr_inv_insert(1) [OF assms(2) alloc_fresh [OF assms(1) p]]) (simp_all add: d')
  then show ?thesis by (simp add: d' same_owned_def)
qed

lemma finish_iterator_frame: "same_owned d (fst (finish_iterator s d wakes)) \<and> ptr_inv (fst (finish_iterator s d wakes)) = ptr_inv d"
  by (simp add: finish_iterator_def case_prod_beta same_owned_def ptr_inv_def)

lemma admit_loop_frame:
  "alloc_ok L \<Longrightarrow> ptr_inv d \<Longrightarrow> admit_loop L s it i staged wakes (d, q) = Return (a, st, w, d', q')
    \<Longrightarrow> same_owned d d' \<and> ptr_inv d'"
proof (induction it arbitrary: i staged wakes d q)
  case Nil
  with finish_iterator_frame [of d s wakes] show ?case by (auto simp: case_prod_beta)
next
  case (Cons x it)
  show ?case
  proof (cases x)
    case None
    with Cons.prems finish_iterator_frame [of d s wakes] show ?thesis by (auto simp: case_prod_beta)
  next
    case (Some e)
    with Cons.prems obtain i' r where r: "checked_add i 1 = Some i'" "stage_original L s i e (d, q) = Return r"
      "(case r of None \<Rightarrow> d' = d | Some dq \<Rightarrow> admit_loop L s it i' True wakes dq = Return (a, st, w, d', q'))"
      by (auto split: option.splits)
    show ?thesis
    proof (cases r)
      case None
      with r Cons.prems show ?thesis by simp
    next
      case (Some dq)
      obtain d1 q1 where dq: "dq = (d1, q1)" by (cases dq)
      with r Some stage_original_frame [OF Cons.prems(1,2)] have "same_owned d d1" "ptr_inv d1" by auto
      with Cons.IH [OF Cons.prems(1)] r Some dq same_owned_trans show ?thesis by fastforce
    qed
  qed
qed

lemma admit_all_frame:
  assumes "alloc_ok L" "ptr_inv d" "admit_all L s a (d, q) = Return (a', st, w, d', q')"
  shows "same_owned d d' \<and> ptr_inv d'"
proof (cases "ad_pending a")
  case None
  with assms admit_loop_frame [OF assms(1,2)] show ?thesis by (simp add: admit_all_def)
next
  case (Some p)
  obtain i e where p: "p = (i, e)" by (cases p)
  with Some assms(3) obtain r where r: "stage_original L s i e (d, q) = Return r"
    "(case r of None \<Rightarrow> d' = d | Some dq \<Rightarrow> admit_loop L s (ad_iter a) (ad_next_index a) True [] dq
        = Return (a', st, w, d', q'))"
    by (auto simp: admit_all_def split: option.splits)
  show ?thesis
  proof (cases r)
    case None
    with r assms show ?thesis by simp
  next
    case (Some dq)
    obtain d1 q1 where dq: "dq = (d1, q1)" by (cases dq)
    with r Some stage_original_frame [OF assms(1,2)] have "same_owned d d1" "ptr_inv d1" by auto
    with admit_loop_frame [OF assms(1)] r Some dq same_owned_trans show ?thesis by fastforce
  qed
qed

lemma accept_raw_frame:
  assumes "accept_raw p d wakes = Return (d', wakes')"
  shows "dd_staged d' = dd_staged d \<and> dd_owned_contexts d' = dd_owned_contexts d
    \<and> dd_owned_cancel_contexts d' = dd_owned_cancel_contexts d \<and> dd_owned_pending d' = dd_owned_pending d
    \<and> dd_owned_cancel_queue d' = dd_owned_cancel_queue d \<and> dd_accepting d' = dd_accepting d
    \<and> dd_shutdown d' = dd_shutdown d
    \<and> (\<forall>r. hm_get (dd_contexts d') r = None \<longleftrightarrow> hm_get (dd_contexts d) r = None)"
  using assms by (auto simp: accept_raw_def Let_def split: option.splits if_splits prod.splits)

text \<open>What the handlers need: contexts keep theirs, and nothing else of an operation changes.\<close>

lemma accept_one_driver_inv:
  assumes inv: "driver_inv d" and st: "dd_staged d = e # rest"
    and acc: "accept_one e (d\<lparr>dd_staged := rest\<rparr>) wakes = Return (d', wakes')"
  shows "driver_inv d' \<and> held (dd_owned_contexts d') = held (dd_owned_contexts d)
    \<and> dd_owned_pending d' = dd_owned_pending d \<and> dd_shutdown d' = dd_shutdown d \<and> dd_accepting d' = dd_accepting d"
proof -
  from inv have I: "raw_inv d" "owned_inv d" "ptr_inv d" by (simp_all add: driver_inv_def)
  have raw: "raw_inv d'" using accept_one_inv [OF I(1) st acc] by simp
  show ?thesis
  proof (cases e)
    case (StagedRaw p)
    with acc accept_raw_frame [of p "d\<lparr>dd_staged := rest\<rparr>" wakes d' wakes']
    have f: "same_owned d d'" "\<forall>r. hm_get (dd_contexts d') r = None \<longleftrightarrow> hm_get (dd_contexts d) r = None"
      by (auto simp: accept_one_def same_owned_def st)
    have "ptr_inv d'"
      by (rule ptr_inv_shrink [OF I(3)]) (use f in \<open>auto simp: same_owned_def\<close>)
    with driver_inv_raw [OF inv raw f(1)] f(1) show ?thesis by (simp add: same_owned_def)
  next
    case (StagedOwned p)
    with acc have a: "accept_owned p (d\<lparr>dd_staged := rest\<rparr>) = Return d'"
      by (auto simp: accept_one_def)
    have "owned_inv d'"
      by (rule owned_inv_accept [OF I(2) _ _ _ _ a]) (use st StagedOwned in simp_all)
    moreover have "ptr_inv d'"
      by (rule ptr_inv_shrink [OF I(3)]) (use a in \<open>auto simp: accept_owned_def split: option.splits if_splits\<close>)
    ultimately show ?thesis using raw a
      by (auto simp: driver_inv_def accept_owned_def held_update split: option.splits if_splits)
  next
    case (StagedOwnedCancel p)
    with acc have a: "accept_owned_cancel p (d\<lparr>dd_staged := rest\<rparr>) = Return d'"
      by (auto simp: accept_one_def)
    have "owned_inv d'"
      by (rule owned_inv_accept_cancel [OF I(2) _ _ _ _ a]) (use st StagedOwnedCancel in simp_all)
    moreover have "ptr_inv d'"
      by (rule ptr_inv_shrink [OF I(3)]) (use a in \<open>auto simp: accept_owned_cancel_def split: option.splits if_splits\<close>)
    ultimately show ?thesis using raw a
      by (auto simp: driver_inv_def accept_owned_cancel_def split: option.splits if_splits)
  qed
qed

text \<open>Accepting a staged prefix never fails.\<close>

lemma accept_one_returns:
  assumes inv: "driver_inv d" and st: "dd_staged d = e # rest"
  shows "\<exists>d' wakes'. accept_one e (d\<lparr>dd_staged := rest\<rparr>) wakes = Return (d', wakes')"
proof (cases e)
  case (StagedRaw p)
  with inv st raw_invD(2) [of d p] show ?thesis
    by (auto simp: driver_inv_def accept_one_def accept_raw_def Let_def case_prod_beta split: option.splits)
next
  case (StagedOwned p)
  with inv st owned_invD(3) [of d p] show ?thesis
    by (auto simp: driver_inv_def accept_one_def accept_owned_def split: option.splits)
next
  case (StagedOwnedCancel p)
  with inv st owned_invD(4) [of d p] show ?thesis
    by (auto simp: driver_inv_def accept_one_def accept_owned_cancel_def split: option.splits)
qed

lemma accept_one_staged:
  "raw_inv d \<Longrightarrow> dd_staged d = e # rest \<Longrightarrow> accept_one e (d\<lparr>dd_staged := rest\<rparr>) wakes = Return (d', wakes')
    \<Longrightarrow> dd_staged d' = rest"
  using accept_one_inv by blast

lemma accept_prefix_driver_inv:
  "driver_inv d \<Longrightarrow> accept_prefix n d wakes = Return (d', wakes')
    \<Longrightarrow> driver_inv d' \<and> held (dd_owned_contexts d') = held (dd_owned_contexts d)
      \<and> dd_owned_pending d' = dd_owned_pending d \<and> dd_shutdown d' = dd_shutdown d \<and> dd_accepting d' = dd_accepting d"
proof (induction n arbitrary: d wakes)
  case (Suc n)
  then obtain e rest d1 w1 where "dd_staged d = e # rest"
    "accept_one e (d\<lparr>dd_staged := rest\<rparr>) wakes = Return (d1, w1)" "accept_prefix n d1 w1 = Return (d', wakes')"
    by (auto split: list.splits)
  with accept_one_driver_inv [OF Suc.prems(1)] Suc.IH show ?case by fastforce
qed simp

lemma accept_prefix_returns:
  "driver_inv d \<Longrightarrow> n \<le> length (dd_staged d) \<Longrightarrow> \<exists>r. accept_prefix n d wakes = Return r"
proof (induction n arbitrary: d wakes)
  case (Suc n)
  then obtain e rest where st: "dd_staged d = e # rest" by (cases "dd_staged d") auto
  from accept_one_returns [OF Suc.prems(1) st] obtain d1 w1
    where a: "accept_one e (d\<lparr>dd_staged := rest\<rparr>) wakes = Return (d1, w1)" by blast
  from accept_one_driver_inv [OF Suc.prems(1) st a] have i: "driver_inv d1" by simp
  from accept_one_staged [OF _ st a] Suc.prems(1) have "dd_staged d1 = rest" by (simp add: driver_inv_def)
  with Suc.IH [OF i, of w1] Suc.prems(2) st a show ?case by auto
qed simp

lemma submit_staged_driver_inv:
  assumes "driver_inv d" "submit_staged C L (d, q) wakes = Return ((d', q'), wakes')"
  shows "driver_inv d' \<and> held (dd_owned_contexts d') = held (dd_owned_contexts d)
      \<and> dd_owned_pending d' = dd_owned_pending d \<and> dd_shutdown d' = dd_shutdown d \<and> dd_accepting d' = dd_accepting d"
  using assms accept_prefix_driver_inv [OF assms(1)]
  by (fastforce simp: submit_staged_def split: prod.splits sum.splits if_splits)

lemma admit_driver_inv:
  assumes "alloc_ok L" "driver_inv d" "admit C L oe s a (d, q) = Return (a', notify, w, d', q')"
  shows "driver_inv d' \<and> held (dd_owned_contexts d') = held (dd_owned_contexts d)
      \<and> dd_owned_pending d' = dd_owned_pending d \<and> dd_shutdown d' = dd_shutdown d \<and> dd_accepting d' = dd_accepting d"
proof (cases "dd_accepting d \<and> dd_owned_pending d = [] \<and> dd_owned_cancel_queue d = [] \<and> oe")
  case True
  with assms(3) obtain d1 q1 a2 st2 w2 d2 q2 where s: "stage_cancellations L (d, q) = Return (d1, q1)"
    "admit_all L s a (d1, q1) = Return (a2, st2, w2, d2, q2)"
    "submit_staged C L (d2, q2) w2 = Return ((d', q'), w)"
    by (fastforce simp: admit_def)
  from stage_cancellations_inv [OF assms(1,2) s(1)] have i1: "driver_inv d1" "same_owned d d1" by auto
  then have "raw_inv d1" "ptr_inv d1" by (simp_all add: driver_inv_def)
  from admit_all_inv [OF assms(1) this(1) s(2)] admit_all_frame [OF assms(1) this(2) s(2)]
  have i2: "driver_inv d2" "same_owned d1 d2" using driver_inv_raw [OF i1(1)] by auto
  from submit_staged_driver_inv [OF i2(1) s(3)] i1(2) i2(2) show ?thesis by (simp add: same_owned_def)
next
  case False
  show ?thesis
  proof (cases "dd_accepting d")
    case True
    with False assms show ?thesis by (auto simp: admit_def)
  next
    case closed: False
    obtain d1 where "request_cancel s DeliveryCancelling d = Return d1" "driver_inv d1" "same_owned d d1"
      by (rule request_cancel_inv [OF assms(2), of DeliveryCancelling s]) auto
    with closed assms(3) show ?thesis by (auto simp: admit_def same_owned_def)
  qed
qed

lemma dispatch_raw_frame:
  assumes inv: "driver_inv d" and r: "dispatch_raw L cqe d wakes = Return (r, d', wakes')"
  shows "driver_inv d' \<and> same_owned d d'"
proof -
  from inv have I: "raw_inv d" "ptr_inv d" by (simp_all add: driver_inv_def)
  from r obtain c where c: "hm_get (dd_contexts d) (cq_user_data cqe) = Some c" "cx_phase c = CtxSubmitted"
    by (auto simp: dispatch_raw_def Let_def split: option.splits if_splits)
  let ?m = "hm_remove (cq_user_data cqe) (dd_contexts d)"
  have f: "same_owned d d' \<and> (\<forall>p. hm_get (dd_contexts d') p \<noteq> None \<longrightarrow> hm_get (dd_contexts d) p \<noteq> None)"
  proof (cases "cx_kind c")
    case CtxOriginal
    with r c have disp: "dispatch_original (cqe\<lparr>cq_user_data := cx_user_data c\<rparr>) (rl_more L (cq_flags cqe))
        (cq_user_data cqe) c (d\<lparr>dd_contexts := ?m\<rparr>) wakes = (r, d', wakes')"
      by (auto simp: dispatch_raw_def Let_def split: if_splits)
    show ?thesis
      by (rule dispatch_original_shape [OF disp raw_invD(6) [OF I(1)]]) (use c in \<open>auto simp: same_owned_def split: if_splits\<close>)
  next
    case CtxCancel
    with r c have disp: "dispatch_cancel (cqe\<lparr>cq_user_data := cx_user_data c\<rparr>) (rl_more L (cq_flags cqe))
        c (d\<lparr>dd_contexts := ?m\<rparr>) wakes = Return (d', wakes')"
      by (auto simp: dispatch_raw_def Let_def split: if_splits)
    show ?thesis
      by (rule dispatch_cancel_shape [OF disp raw_invD(6) [OF I(1)]]) (use c in \<open>auto simp: same_owned_def split: if_splits\<close>)
  qed
  then have "ptr_inv d'" by (intro ptr_inv_shrink [OF I(2)]) (auto simp: same_owned_def)
  with driver_inv_raw [OF inv dispatch_raw_inv [OF I(1) r]] f show ?thesis by simp
qed

section \<open>Sections on completion-native operations\<close>

lemma in_use_iff: "context_pointer_in_use d p \<longleftrightarrow> p \<in> set (live_pointers d)"
  by (simp add: context_pointer_in_use_def live_pointers_iff hm_contains_def)

lemma stage_owned_cancels_inv:
  "alloc_ok L \<Longrightarrow> driver_inv d \<Longrightarrow> dd_owned_cancel_queue d = ts
    \<Longrightarrow> stage_owned_cancels L ts (d, q) = Return (d', q')
    \<Longrightarrow> driver_inv d' \<and> same_raw d d' \<and> dd_owned_contexts d' = dd_owned_contexts d
      \<and> dd_owned_pending d' = dd_owned_pending d"
proof (induction ts arbitrary: d q)
  case Nil
  then have "d' = d" by (cases d) simp
  with Nil show ?case by simp
next
  case (Cons t ts)
  from Cons.prems(4) obtain p where p: "rl_alloc L (live_pointers d) = Some p"
    and fresh: "p \<notin> set (live_pointers d)"
    by (auto simp: in_use_iff split: option.splits if_splits)
  from p Cons.prems(1) have nz: "p \<noteq> 0" by (auto simp: alloc_ok_def)
  show ?case
  proof (cases "rl_push L \<lparr>sq_user_data = p, sq_body = rl_async_cancel L t\<rparr> q")
    case None
    have "d\<lparr>dd_owned_cancel_queue := t # ts\<rparr> = d" using Cons.prems(3) by (cases d) simp
    with None Cons.prems p fresh have "d' = d" by (simp add: in_use_iff)
    with Cons.prems show ?thesis by simp
  next
    case (Some q1)
    let ?d = "d\<lparr>dd_owned_cancel_queue := ts,
        dd_owned_cancel_contexts := hm_insert p \<lparr>on_phase = CtxStaged, on_target = t\<rparr> (dd_owned_cancel_contexts d),
        dd_staged := dd_staged d @ [StagedOwnedCancel p]\<rparr>"
    have "owned_inv ?d"
      by (rule owned_inv_stage_cancel [of d t _ p])
        (use Cons.prems fresh nz in \<open>simp_all add: driver_inv_def live_pointers_iff\<close>)
    moreover have same: "same_raw d ?d" by (simp add: same_raw_def)
    moreover have "ptr_inv ?d"
      by (rule ptr_inv_insert(3) [OF _ fresh]) (use Cons.prems in \<open>simp_all add: driver_inv_def\<close>)
    ultimately have "driver_inv ?d" using driver_inv_owned [OF Cons.prems(2)] by blast
    with Cons.IH [of ?d q1] Cons.prems p fresh Some same show ?thesis
      by (auto simp: in_use_iff intro: same_raw_trans)
  qed
qed

lemma next_owned_inv:
  assumes "driver_inv d" "next_owned Q (d, u) = (op, d', u')" "ubq_fifo Q \<alpha>"
  shows "driver_inv d' \<and> same_raw d d' \<and> dd_owned_contexts d' = dd_owned_contexts d"
proof -
  from next_owned_handlers [OF assms(3,2)] obtain rest where "d' = d\<lparr>dd_owned_pending := rest\<rparr>" by blast
  with assms(1) show ?thesis
    by (auto simp: driver_inv_def same_raw_def ptr_inv_def intro: raw_inv_frame owned_inv_cong)
qed

text \<open>Staging moves handlers to contexts or to the list of failures, and never loses one.\<close>

lemma stage_owned_inv:
  "alloc_ok L \<Longrightarrow> ubq_fifo Q \<alpha> \<Longrightarrow> driver_inv d
    \<Longrightarrow> stage_owned L Q W supported m n failed ((d, u), q) = Return (failed', (d', u'), q')
    \<Longrightarrow> driver_inv d' \<and> same_raw d d'
      \<and> owned_handlers \<alpha> (d', u') + mset (map fst failed') = owned_handlers \<alpha> (d, u) + mset (map fst failed)"
proof (induction n arbitrary: failed d u q)
  case (Suc n)
  obtain op d1 u1 where nx: "next_owned Q (d, u) = (op, d1, u1)" by (cases "next_owned Q (d, u)") auto
  note H = next_owned_handlers [OF Suc.prems(2) nx]
  have I: "driver_inv d1" "same_raw d d1" using next_owned_inv [OF Suc.prems(3) nx Suc.prems(2)] by auto
  show ?case
  proof (cases op)
    case None
    with nx Suc.prems(4) H I show ?thesis by auto
  next
    case (Some x)
    let ?h = "qo_handler x"
    have failing: "driver_inv d' \<and> same_raw d d' \<and> owned_handlers \<alpha> (d', u') + mset (map fst failed')
          = owned_handlers \<alpha> (d, u) + mset (map fst failed)"
      if "stage_owned L Q W supported m n (failed @ [(?h, r)]) ((d1, u1), q) = Return (failed', (d', u'), q')" for r
      using Suc.IH [OF Suc.prems(1,2) I(1) that] H Some same_raw_trans [OF I(2)] by auto
    show ?thesis
    proof (cases "dd_shutdown d1 \<or> os_cancelled (m (qo_control x)) \<or> \<not> opcode_supported supported (ow_opcode W (th_work ?h))")
      case True
      with Suc.prems(4) nx Some failing show ?thesis by (auto simp: Let_def split: if_splits)
    next
      case False
      with Suc.prems(4) nx Some obtain p where p: "rl_alloc L (live_pointers d1) = Some p"
        and fresh: "p \<notin> set (live_pointers d1)"
        by (auto simp: Let_def in_use_iff split: option.splits if_splits)
      from p Suc.prems(1) have nz: "p \<noteq> 0" by (auto simp: alloc_ok_def)
      show ?thesis
      proof (cases "rl_push L \<lparr>sq_user_data = p, sq_body = ow_entry W (th_work ?h)\<rparr> q")
        case None
        with False Suc.prems(4) nx Some p fresh
        have d': "d' = d1\<lparr>dd_owned_pending := x # dd_owned_pending d1\<rparr>" "u' = u1" "failed' = failed"
          by (auto simp: Let_def in_use_iff)
        from I(1) have "driver_inv d'"
          by (auto simp: d' driver_inv_def same_raw_def ptr_inv_def intro: raw_inv_frame owned_inv_cong)
        moreover have "same_raw d d'" using I(2) by (simp add: d' same_raw_def)
        moreover have "owned_handlers \<alpha> (d', u') = owned_handlers \<alpha> (d, u)"
          using H Some by (simp add: d' owned_handlers_def)
        ultimately show ?thesis by (simp add: d')
      next
        case pushed: (Some q1)
        let ?c = "\<lparr>oc_phase = CtxStaged, oc_control = qo_control x, oc_handler = Some ?h,
            oc_cancel_queued = False, oc_cancel_seen = False\<rparr>"
        let ?d = "d1\<lparr>dd_owned_contexts := hm_insert p ?c (dd_owned_contexts d1),
            dd_staged := dd_staged d1 @ [StagedOwned p]\<rparr>"
        from fresh have f: "hm_get (dd_owned_contexts d1) p = None" by (simp add: live_pointers_iff)
        have "owned_inv ?d"
          by (rule owned_inv_stage [OF _ f nz, of ?c]) (use I(1) in \<open>simp_all add: driver_inv_def\<close>)
        moreover have same: "same_raw d1 ?d" by (simp add: same_raw_def)
        moreover have "ptr_inv ?d"
          by (rule ptr_inv_insert(2) [OF _ fresh]) (use I(1) in \<open>simp_all add: driver_inv_def\<close>)
        ultimately have i: "driver_inv ?d" using driver_inv_owned [OF I(1)] by blast
        have "stage_owned L Q W supported m n failed ((?d, u1), q1) = Return (failed', (d', u'), q')"
          using False Suc.prems(4) nx Some p fresh pushed by (auto simp: Let_def in_use_iff)
        from Suc.IH [OF Suc.prems(1,2) i this]
        have r: "driver_inv d'" "same_raw ?d d'"
          "owned_handlers \<alpha> (d', u') + mset (map fst failed') = owned_handlers \<alpha> (?d, u1) + mset (map fst failed)"
          by auto
        have "owned_handlers \<alpha> (?d, u1) = owned_handlers \<alpha> (d, u)"
          using H Some by (simp add: owned_handlers_def held_insert [OF f])
        with r same_raw_trans [OF I(2) same_raw_trans [OF same r(2)]] show ?thesis by simp
      qed
    qed
  qed
qed simp

lemma request_owned_cancel_inv:
  assumes "driver_inv d"
  shows "driver_inv (request_owned_cancel c d) \<and> same_raw d (request_owned_cancel c d)
    \<and> dd_owned_pending (request_owned_cancel c d) = dd_owned_pending d"
proof -
  have same: "same_raw d (request_owned_cancel c d)"
    by (simp add: request_owned_cancel_def same_raw_def split: option.split prod.split)
  have "ptr_inv (request_owned_cancel c d)"
    using assms by (auto simp: driver_inv_def ptr_inv_def request_owned_cancel_def split: option.split prod.split)
  moreover have "owned_inv (request_owned_cancel c d)"
    using assms by (simp add: driver_inv_def owned_inv_request_cancel)
  moreover have "dd_owned_pending (request_owned_cancel c d) = dd_owned_pending d"
    by (simp add: request_owned_cancel_def split: option.split prod.split)
  ultimately show ?thesis using driver_inv_owned [OF assms] same by blast
qed

lemma retire_owned_inv:
  assumes "driver_inv d" "retire_owned p again d = Return (h, d')"
  shows "driver_inv d' \<and> same_raw d d'"
proof -
  have f: "same_raw d d' \<and> (\<forall>r. hm_get (dd_owned_contexts d') r \<noteq> None \<longrightarrow> hm_get (dd_owned_contexts d) r \<noteq> None)
    \<and> (\<forall>r. hm_get (dd_owned_cancel_contexts d') r \<noteq> None \<longrightarrow> hm_get (dd_owned_cancel_contexts d) r \<noteq> None)"
  proof (cases "hm_get (dd_owned_contexts d) p")
    case None
    show ?thesis
      by (rule retire_owned_cancelE [OF assms(2) None]) (auto simp: same_raw_def split: if_splits)
  next
    case (Some c)
    with assms(2) show ?thesis
      by (auto simp: retire_owned_def same_raw_def Let_def split: option.splits if_splits)
  qed
  then have c: "dd_contexts d' = dd_contexts d" by (simp only: same_raw_def)
  have "ptr_inv d" using assms(1) by (simp add: driver_inv_def)
  then have "ptr_inv d'" by (rule ptr_inv_shrink) (use f c in \<open>metis+\<close>)
  moreover have "owned_inv d'" using owned_inv_retire [OF _ assms(2)] assms(1) by (simp add: driver_inv_def)
  ultimately show ?thesis using driver_inv_owned [OF assms(1)] f by blast
qed

lemma wake_admissions_inv:
  "driver_inv d \<Longrightarrow> driver_inv (fst (wake_admissions ss d wakes)) \<and> same_owned d (fst (wake_admissions ss d wakes))"
proof (induction ss arbitrary: d wakes)
  case (Cons s ss)
  let ?x = "take_admission_waker (dd_states d s) wakes"
  from Cons.prems raw_invD(6) [of d s] have "driver_inv (set_state s (fst ?x) d)"
    by (intro driver_inv_set_state) (simp_all add: driver_inv_def)
  from Cons.IH [OF this, of "snd ?x"] Cons.IH [OF Cons.prems, of wakes] show ?case
    by (auto simp: case_prod_beta same_owned_def)
qed simp

end
