(* ===== verification/Uring_System.thy ===== *)
theory Uring_System
  imports Uring_Invariant
begin

text \<open>
  The ring driver, its clients and the kernel as a transition system. Every step is one critical
  section of \<open>src/io_uring.rs\<close> or \<open>src/io.rs\<close>, so that the relation contains all interleavings; \<open>us_refuse\<close>
  is the first poll of an operation that the closed runtime does not take, which fails it on the spot. The
  state adds to the world the locals of the driver between its sections, and two ghost multisets:
  the handlers that were ever admitted and those that were completed or failed.
\<close>

section \<open>The transition system\<close>

record ('x, 'w, 'q, 'u, 'r) UringSys =
  us_world :: "('x, 'w, 'q, 'u, 'r) UringWorld"
  us_failed :: "('w TypedHandler \<times> OwnedFailure) list"
  us_decided :: bool
  us_admitted :: "'w TypedHandler multiset"
  us_finished :: "'w TypedHandler multiset"

abbreviation us_data :: "('x, 'w, 'q, 'u, 'r) UringSys \<Rightarrow> ('x, 'w) owned_data" where
  "us_data s \<equiv> uw_data (us_world s)"

definition uring_init :: "('x, 'w, 'q, 'u, 'r) UringSys \<Rightarrow> ('u \<Rightarrow> 'w TypedHandler QueuedOwnedOp list) \<Rightarrow> bool" where
  "uring_init s \<alpha> \<longleftrightarrow> us_data s = driver_data_new \<and> uw_ring (us_world s) \<noteq> None
    \<and> \<alpha> (uw_queue (us_world s)) = [] \<and> uw_admission (us_world s) \<and> us_failed s = []
    \<and> \<not> us_decided s \<and> us_admitted s = {#} \<and> us_finished s = {#}"

text \<open>The handler that a completion ends, if it is one of a completion-native operation.\<close>

definition ended_by :: "'x cqe \<Rightarrow> ('x, 'h) DriverData \<Rightarrow> 'h multiset" where
  "ended_by cqe d =
    (if hm_contains (cq_user_data cqe) (dd_contexts d) then {#}
     else case hm_get (dd_owned_contexts d) (cq_user_data cqe) of None \<Rightarrow> {#} | Some c \<Rightarrow> handler_of c)"

text \<open>A state that no context and no command refers to, as a new \<open>Arc\<close> is.\<close>

definition fresh_state :: "nat \<Rightarrow> ('x, 'h) DriverData \<Rightarrow> bool" where
  "fresh_state s d \<longleftrightarrow> live_originals s (dd_contexts d) = 0 \<and> staged_originals s (dd_contexts d) = 0
     \<and> live_cancels s (dd_contexts d) = 0 \<and> queued_cancels s (dd_cancel_queue d) = 0"

inductive uring_step ::
  "('q, 's, 'x, 'u, 'w, 'r) uring_env \<Rightarrow> ('x, 'w, 'q, 'u, 'r) UringSys \<Rightarrow> ('x, 'w, 'q, 'u, 'r) UringSys \<Rightarrow> bool"
  for E :: "('q, 's, 'x, 'u, 'w, 'r) uring_env" where
  us_submit: "fresh_state i (us_data s)
    \<Longrightarrow> submit_entries E rt getpid live i entries (us_world s) = (se, w) \<Longrightarrow> uring_step E s (s\<lparr>us_world := w\<rparr>)"
| us_admit: "admit_world E i a (us_world s) = Return (a', wakes, w) \<Longrightarrow> uring_step E s (s\<lparr>us_world := w\<rparr>)"
| us_settle: "submit_settle E k se (us_world s) = Return (p, se', w) \<Longrightarrow> uring_step E s (s\<lparr>us_world := w\<rparr>)"
| us_cancel: "delivery \<noteq> DeliveryOpen \<Longrightarrow> cancel_submission E i delivery (us_world s) = Return w
    \<Longrightarrow> uring_step E s (s\<lparr>us_world := w\<rparr>)"
| us_stream: "stream_poll k i (us_world s) = (p, w) \<Longrightarrow> uring_step E s (s\<lparr>us_world := w\<rparr>)"
| us_cancellation: "cancellation_poll k i (us_world s) = (p, w) \<Longrightarrow> uring_step E s (s\<lparr>us_world := w\<rparr>)"
| us_drain: "drain_poll k i (us_world s) = (p', w) \<Longrightarrow> uring_step E s (s\<lparr>us_world := w\<rparr>)"
| us_detach: "uring_step E s (s\<lparr>us_world := cancellation_drop c (us_world s)\<rparr>)"
| us_enqueue: "enqueue (ue_queue E) (uw_admission (us_world s)) operation (uw_queue (us_world s)) = (Ok (), u)
    \<Longrightarrow> uring_step E s (s\<lparr>us_world := (us_world s)\<lparr>uw_queue := u\<rparr>,
          us_admitted := us_admitted s + {#qo_handler operation#}\<rparr>)"
| us_enqueue_batch: "enqueue_batch (ue_queue E) (uw_admission (us_world s)) operations (uw_queue (us_world s)) = (Ok (), u)
    \<Longrightarrow> uring_step E s (s\<lparr>us_world := (us_world s)\<lparr>uw_queue := u\<rparr>,
          us_admitted := us_admitted s + mset (map qo_handler operations)\<rparr>)"
| us_refuse: "handler_fail (ue_work E) h runtime_closed_error (uw_store (us_world s)) = (k', m)
    \<Longrightarrow> uring_step E s (s\<lparr>us_world := (us_world s)\<lparr>uw_store := m\<rparr>, us_admitted := us_admitted s + {#h#},
          us_finished := us_finished s + {#h#}\<rparr>)"
| us_owned_drop: "owned_drop E op (us_world s) = Return w \<Longrightarrow> uring_step E s (s\<lparr>us_world := w\<rparr>)"
| us_owned_poll: "owned_cell_poll (\<lambda>x. x) (\<lambda>x. x) k (uw_store (us_world s) i) = Return (r, st)
    \<Longrightarrow> uring_step E s (s\<lparr>us_world := (us_world s)\<lparr>uw_store := (uw_store (us_world s))(i := st)\<rparr>\<rparr>)"
| us_close: "uring_step E s (s\<lparr>us_world := (us_world s)\<lparr>uw_admission := False\<rparr>\<rparr>)"
| us_shutdown: "\<not> uw_admission (us_world s) \<Longrightarrow> uring_step E s (s\<lparr>us_world := (us_world s)
      \<lparr>uw_data := (us_data s)\<lparr>dd_accepting := False, dd_shutdown := True\<rparr>\<rparr>\<rparr>)"
| us_stage: "\<not> us_decided s \<Longrightarrow> us_failed s = [] \<Longrightarrow> stage_section E live (us_world s) = Return (failed, wakes, w)
    \<Longrightarrow> uring_step E s (s\<lparr>us_world := w, us_failed := failed\<rparr>)"
| us_fail: "fail_section E (us_failed s) wakes (us_world s) = (wakes', w)
    \<Longrightarrow> uring_step E s (s\<lparr>us_world := w, us_failed := [],
          us_finished := us_finished s + mset (map fst (us_failed s))\<rparr>)"
| us_reap: "reap_section E (us_world s) = Return (cqes, backlog, w) \<Longrightarrow> uring_step E s (s\<lparr>us_world := w\<rparr>)"
| us_dispatch: "dispatch E cqe wakes (us_world s) = Return (overflow, wakes', w)
    \<Longrightarrow> uring_step E s (s\<lparr>us_world := w, us_finished := us_finished s + ended_by cqe (us_data s)\<rparr>)"
| us_decide: "us_failed s = [] \<Longrightarrow> decide (us_data s) backlog (ubq_is_empty (ue_queue E) (uw_queue (us_world s))) = RunStop
    \<Longrightarrow> uring_step E s (s\<lparr>us_decided := True\<rparr>)"
| us_drop_ring: "us_decided s \<Longrightarrow> uring_step E s (s\<lparr>us_world := (us_world s)\<lparr>uw_ring := None\<rparr>\<rparr>)"
| us_gate: "uring_step E s (s\<lparr>us_world := (us_world s)\<lparr>uw_gate := g, uw_log := h, uw_completed := b\<rparr>\<rparr>)"

abbreviation uring_steps where
  "uring_steps E \<equiv> (uring_step E)\<^sup>*\<^sup>*"

section \<open>The invariant of the system\<close>

definition idle_data :: "('x, 'h) DriverData \<Rightarrow> bool" where
  "idle_data d \<longleftrightarrow> dd_contexts d = [] \<and> dd_staged d = [] \<and> dd_cancel_queue d = [] \<and> dd_owned_contexts d = []
    \<and> dd_owned_cancel_contexts d = [] \<and> dd_owned_pending d = [] \<and> dd_owned_cancel_queue d = []"

definition uring_inv ::
  "('u \<Rightarrow> 'w TypedHandler QueuedOwnedOp list) \<Rightarrow> ('x, 'w, 'q, 'u, 'r) UringSys \<Rightarrow> bool" where
  "uring_inv \<alpha> s \<longleftrightarrow> driver_inv (us_data s)
    \<and> us_admitted s = owned_handlers \<alpha> (us_data s, uw_queue (us_world s)) + mset (map fst (us_failed s)) + us_finished s
    \<and> (dd_shutdown (us_data s) \<longrightarrow> \<not> uw_admission (us_world s) \<and> \<not> dd_accepting (us_data s))
    \<and> (us_decided s \<longrightarrow> idle_data (us_data s) \<and> dd_shutdown (us_data s) \<and> us_failed s = []
         \<and> \<alpha> (uw_queue (us_world s)) = [])
    \<and> (uw_ring (us_world s) = None \<longrightarrow> us_decided s)"

lemma decide_stop_iff:
  "decide d backlog e = RunStop \<longleftrightarrow> dd_shutdown d \<and> idle_data d \<and> e"
  by (auto simp: decide_def idle_data_def Let_def)

lemma driver_notify_world_frame:
  "driver_notify_world E w = Return w' \<Longrightarrow> uw_data w' = uw_data w \<and> uw_queue w' = uw_queue w
    \<and> uw_ring w' = uw_ring w \<and> uw_admission w' = uw_admission w \<and> uw_store w' = uw_store w"
  by (auto simp: driver_notify_world_def)

lemma idle_request_cancel:
  assumes "idle_data d" "request_cancel s delivery d = Return d'"
  shows "idle_data d'"
  using assms by (auto simp: request_cancel_def idle_data_def cancel_targets_def set_state_def Let_def)

text \<open>A section that frames the completion-native part, on a world whose other fields stay.\<close>

lemma uring_inv_raw:
  assumes "uring_inv \<alpha> s" "driver_inv d'" "same_owned (us_data s) d'"
    and "us_decided s \<Longrightarrow> idle_data d'"
    and "uw_data w = d'" "uw_queue w = uw_queue (us_world s)" "uw_admission w = uw_admission (us_world s)"
    and "uw_ring w = None \<Longrightarrow> uw_ring (us_world s) = None"
  shows "uring_inv \<alpha> (s\<lparr>us_world := w\<rparr>)"
  using assms by (auto simp: uring_inv_def same_owned_def owned_handlers_def)

lemma uring_inv_state:
  assumes "uring_inv \<alpha> s" "si_counts v = si_counts (dd_states (us_data s) i)" "si_bounded v"
    and "uw_data w = set_state i v (us_data s)" "uw_queue w = uw_queue (us_world s)"
    and "uw_admission w = uw_admission (us_world s)" "uw_ring w = uw_ring (us_world s)"
  shows "uring_inv \<alpha> (s\<lparr>us_world := w\<rparr>)"
proof (rule uring_inv_raw [OF assms(1)])
  show "driver_inv (set_state i v (us_data s))"
    using assms(1-3) by (intro driver_inv_set_state) (auto simp: uring_inv_def)
qed (use assms in \<open>auto simp: uring_inv_def idle_data_def same_owned_def\<close>)

lemma uring_inv_init: "uring_init s \<alpha> \<Longrightarrow> uring_inv \<alpha> s"
  by (auto simp: uring_init_def uring_inv_def driver_inv_new owned_handlers_def)
     (simp_all add: driver_data_new_def)

lemma submit_entries_world:
  "\<exists>closed. snd (submit_entries E rt getpid live i entries w) = w\<lparr>uw_data :=
     (let d = register_submission (cf_max_buffered (ue_config E)) live i (uw_data w)
      in if closed then set_state i ((dd_states d i)\<lparr>si_delivery := DeliveryCancelling\<rparr>) d else d)\<rparr>"
  unfolding submit_entries_def Let_def snd_conv by (rule exI) (rule refl)

lemma submit_entries_inv:
  assumes inv: "uring_inv \<alpha> s" and fresh: "fresh_state i (us_data s)"
    and sub: "submit_entries E rt getpid live i entries (us_world s) = (se, w)"
  shows "uring_inv \<alpha> (s\<lparr>us_world := w\<rparr>)"
proof -
  let ?d = "us_data s" and ?d' = "uw_data w"
  obtain closed where u: "w = (us_world s)\<lparr>uw_data := (let d = register_submission (cf_max_buffered (ue_config E)) live i ?d
      in if closed then set_state i ((dd_states d i)\<lparr>si_delivery := DeliveryCancelling\<rparr>) d else d)\<rparr>"
    using submit_entries_world [of E rt getpid live i entries "us_world s"] sub by (metis snd_conv)
  define v where "v = dd_states ?d' i"
  have w: "dd_states ?d' = (dd_states ?d)(i := v)" "dd_contexts ?d' = dd_contexts ?d" "dd_staged ?d' = dd_staged ?d"
      "dd_cancel_queue ?d' = dd_cancel_queue ?d" "same_owned ?d ?d'" "uw_queue w = uw_queue (us_world s)"
      "uw_admission w = uw_admission (us_world s)" "uw_ring w = uw_ring (us_world s)"
    and v: "v = submission_new (cf_max_buffered (ue_config E))
      \<or> v = (submission_new (cf_max_buffered (ue_config E)))\<lparr>si_delivery := DeliveryCancelling\<rparr>"
    by (cases closed; simp add: u v_def register_submission_def set_state_def same_owned_def)+
  from inv have d: "driver_inv ?d" by (simp add: uring_inv_def)
  then have "raw_inv ?d" by (simp add: driver_inv_def)
  note I = raw_invD [OF this]
  have b: "si_bounded v" using v by (auto simp: si_bounded_def submission_new_def)
  have l: "ledger_ok v i (dd_contexts ?d) (dd_cancel_queue ?d)"
    using v fresh by (auto simp: ledger_ok_def fresh_state_def submission_new_def)
  have "raw_inv ?d'"
  proof (rule raw_invI)
    show "ledger_ok (dd_states ?d' j) j (dd_contexts ?d') (dd_cancel_queue ?d')" for j
      using I(5) [of j] l by (cases "j = i") (simp_all add: w(1,2,4))
    show "si_bounded (dd_states ?d' j)" for j
      using I(6) [of j] b by (cases "j = i") (simp_all add: w(1))
  qed (use I in \<open>simp_all add: w(2-4)\<close>)
  moreover have "ptr_inv ?d'"
    using d w(2,5) by (simp add: driver_inv_def ptr_inv_def same_owned_def)
  ultimately have "driver_inv ?d'"
    using driver_inv_raw [OF d _ w(5)] by blast
  then show ?thesis
    by (rule uring_inv_raw [OF inv _ w(5)]) (use inv w in \<open>auto simp: uring_inv_def idle_data_def same_owned_def\<close>)
qed

lemma cancel_submission_inv:
  assumes inv: "uring_inv \<alpha> s" and "delivery \<noteq> DeliveryOpen"
    and c: "cancel_submission E i delivery (us_world s) = Return w"
  shows "uring_inv \<alpha> (s\<lparr>us_world := w\<rparr>)"
proof -
  from inv have d: "driver_inv (us_data s)" by (simp add: uring_inv_def)
  obtain d' where d': "request_cancel i delivery (us_data s) = Return d'" "driver_inv d'" "same_owned (us_data s) d'"
    by (rule request_cancel_inv [OF d assms(2), of i])
  from c d'(1) have w: "driver_notify_world E ((us_world s)\<lparr>uw_data := d'\<rparr>) = Return w"
    by (auto simp: cancel_submission_def)
  note f = driver_notify_world_frame [OF w]
  show ?thesis
  proof (rule uring_inv_raw [OF inv d'(2,3)])
    show "idle_data d'" if "us_decided s"
      using that inv idle_request_cancel [OF _ d'(1)] by (auto simp: uring_inv_def)
  qed (use f in auto)
qed

lemma submit_settle_inv:
  assumes inv: "uring_inv \<alpha> s" and c: "submit_settle E k se (us_world s) = Return (p, se', w)"
  shows "uring_inv \<alpha> (s\<lparr>us_world := w\<rparr>)"
proof -
  let ?st = "dd_states (us_data s) (se_state se)"
  let ?v = "?st\<lparr>si_admission_waker := replace_waker (si_admission_waker ?st) k\<rparr>"
  from inv have b: "si_bounded ?st" by (auto simp: uring_inv_def driver_inv_def dest: raw_invD(6))
  from c consider "cancel_submission E (se_state se) DeliveryCancelling (us_world s) = Return w" | "w = us_world s"
    | "driver_notify_world E ((us_world s)\<lparr>uw_data := set_state (se_state se) ?v (us_data s)\<rparr>) = Return w"
    by (auto simp: submit_settle_def Let_def split: if_splits)
  then show ?thesis
  proof cases
    case 1
    then show ?thesis by (rule cancel_submission_inv [OF inv, rotated]) simp
  next
    case 2
    with inv show ?thesis by simp
  next
    case 3
    from driver_notify_world_frame [OF this] show ?thesis
      by (intro uring_inv_state [OF inv, of ?v "se_state se"]) (use b in \<open>auto simp: si_counts_eq_iff si_bounded_def\<close>)
  qed
qed

lemma admit_world_inv:
  assumes "alloc_ok (ue_ring E)" and inv: "uring_inv \<alpha> s" and c: "admit_world E i a (us_world s) = Return (a', wakes, w)"
  shows "uring_inv \<alpha> (s\<lparr>us_world := w\<rparr>)"
proof (cases "dd_accepting (us_data s)")
  case False
  with c cancel_submission_inv [OF inv, of DeliveryCancelling E i w] show ?thesis by (auto simp: admit_world_def)
next
  case acc: True
  then have live: "\<not> us_decided s" using inv by (auto simp: uring_inv_def)
  show ?thesis
  proof (cases "dd_owned_pending (us_data s) \<noteq> [] \<or> dd_owned_cancel_queue (us_data s) \<noteq> []
       \<or> \<not> ubq_is_empty (ue_queue E) (uw_queue (us_world s))")
    case True
    with acc c have "driver_notify_world E (us_world s) = Return w" by (auto simp: admit_world_def)
    from driver_notify_world_frame [OF this] inv show ?thesis by (auto simp: uring_inv_def)
  next
    case False
    with acc c obtain q n d' q' where a: "uw_ring (us_world s) = Some q"
      "admit (ue_libc E) (ue_ring E) True i a (us_data s, q) = Return (a', n, wakes, d', q')"
      "w = (us_world s)\<lparr>uw_data := d', uw_ring := Some q'\<rparr>
        \<or> driver_notify_world E ((us_world s)\<lparr>uw_data := d', uw_ring := Some q'\<rparr>) = Return w"
      by (auto simp: admit_world_def Let_def split: option.splits if_splits)
    from admit_driver_inv [OF assms(1) _ a(2)] inv
    have d: "driver_inv d'" "held (dd_owned_contexts d') = held (dd_owned_contexts (us_data s))"
      "dd_owned_pending d' = dd_owned_pending (us_data s)" "dd_shutdown d' = dd_shutdown (us_data s)"
      "dd_accepting d' = dd_accepting (us_data s)"
      by (auto simp: uring_inv_def)
    from a(3) have w: "uw_data w = d'" "uw_queue w = uw_queue (us_world s)" "uw_ring w \<noteq> None"
      "uw_admission w = uw_admission (us_world s)"
      by (auto dest: driver_notify_world_frame)
    from inv d live show ?thesis by (auto simp: uring_inv_def w owned_handlers_def)
  qed
qed

section \<open>The steps of the driver and of completion-native operations\<close>

text \<open>A section of the running driver that may move handlers but keeps their balance.\<close>

lemma uring_inv_balanced:
  assumes "uring_inv \<alpha> s" "\<not> us_decided s" "driver_inv (uw_data w)"
    and "owned_handlers \<alpha> (uw_data w, uw_queue w) + mset (map fst f) + n
      = owned_handlers \<alpha> (us_data s, uw_queue (us_world s)) + mset (map fst (us_failed s)) + us_finished s"
    and "dd_shutdown (uw_data w) = dd_shutdown (us_data s)" "dd_accepting (uw_data w) = dd_accepting (us_data s)"
    and "uw_admission w = uw_admission (us_world s)" "uw_ring w = None \<Longrightarrow> uw_ring (us_world s) = None"
  shows "uring_inv \<alpha> (s\<lparr>us_world := w, us_failed := f, us_finished := n\<rparr>)"
proof -
  have "us_admitted s = owned_handlers \<alpha> (uw_data w, uw_queue w) + mset (map fst f) + n"
    using assms(1,4) by (simp add: uring_inv_def)
  then show ?thesis
    using assms(1-3,5-8) unfolding uring_inv_def by (intro conjI) (simp only: UringSys.simps; fail | auto)+
qed

lemma uring_inv_enqueued:
  assumes inv: "uring_inv \<alpha> s" and adm: "uw_admission (us_world s)"
    and u: "\<alpha> u = \<alpha> (uw_queue (us_world s)) @ ops"
  shows "uring_inv \<alpha> (s\<lparr>us_world := (us_world s)\<lparr>uw_queue := u\<rparr>,
    us_admitted := us_admitted s + mset (map qo_handler ops)\<rparr>)"
  using assms by (auto simp: uring_inv_def owned_handlers_def)

lemma cancel_owned_inv:
  assumes inv: "uring_inv \<alpha> s" and st: "uw_data v = us_data s" "uw_queue v = uw_queue (us_world s)"
      "uw_ring v = uw_ring (us_world s)" "uw_admission v = uw_admission (us_world s)"
    and c: "cancel_owned E i v = Return w"
  shows "uring_inv \<alpha> (s\<lparr>us_world := w\<rparr>)"
proof -
  let ?d = "request_owned_cancel i (us_data s)"
  have w: "uw_data w = ?d" "uw_queue w = uw_queue (us_world s)" "uw_ring w = uw_ring (us_world s)"
      "uw_admission w = uw_admission (us_world s)"
    using driver_notify_world_frame [OF c [unfolded cancel_owned_def]] st by auto
  have d: "driver_inv ?d" "same_raw (us_data s) ?d" "dd_owned_pending ?d = dd_owned_pending (us_data s)"
    using inv request_owned_cancel_inv [of "us_data s" i] by (auto simp: uring_inv_def)
  have idle: "?d = us_data s" if "idle_data (us_data s)"
    using that by (simp add: request_owned_cancel_def idle_data_def)
  from inv d idle show ?thesis by (auto simp: uring_inv_def w owned_handlers_def same_raw_def)
qed

lemma stage_section_inv:
  assumes L: "alloc_ok (ue_ring E)" "ubq_fifo (ue_queue E) \<alpha>" and inv: "uring_inv \<alpha> s"
    and run: "\<not> us_decided s" "us_failed s = []" and c: "stage_section E live (us_world s) = Return (failed, wakes, w)"
  shows "uring_inv \<alpha> (s\<lparr>us_world := w, us_failed := failed\<rparr>)"
proof -
  let ?d0 = "us_data s" and ?u0 = "uw_queue (us_world s)"
  let ?m = "uw_store (us_world s)" and ?n = "unat (cf_entries (ue_config E))"
  from c obtain q where q: "uw_ring (us_world s) = Some q"
    by (auto simp: stage_section_def split: option.splits)
  note c = c [unfolded stage_section_def q option.case]
  from c obtain d1 q1 where 1: "stage_cancellations (ue_ring E) (?d0, q) = Return (d1, q1)" by auto
  with c obtain d2 q2 where 2: "stage_owned_cancellations (ue_ring E) (d1, q1) = Return (d2, q2)" by auto
  with c 1 obtain d3 u3 q3 where owned: "stage_owned (ue_ring E) (ue_queue E) (ue_work E) (ue_supported E) ?m ?n []
      ((d2, ?u0), q2) = Return (failed, (d3, u3), q3)" by (auto simp: Let_def case_prod_beta)
  with c 1 2 obtain d4 q4 wakes4 where sub: "submit_staged (ue_libc E) (ue_ring E) (d3, q3) [] = Return ((d4, q4), wakes4)"
    by auto
  with c 1 2 owned have w: "uw_queue w = u3" "uw_ring w = Some q4" "uw_admission w = uw_admission (us_world s)"
      and wd: "uw_data w = (if dd_owned_pending d4 = [] \<and> dd_owned_cancel_queue d4 = [] \<and> ubq_is_empty (ue_queue E) u3
        then fst (wake_admissions (filter live (dd_submissions d4)) d4 wakes4) else d4)"
    by (auto simp: Let_def case_prod_beta)
  note d1 = stage_cancellations_inv [OF L(1) _ 1]
  note d2 = stage_owned_cancels_inv [OF L(1) _ refl 2 [unfolded stage_owned_cancellations_def prod.case]]
  from inv have "driver_inv ?d0" by (simp add: uring_inv_def)
  with d1 d2 have 2: "driver_inv d2" "same_owned ?d0 d1" "same_raw d1 d2"
      "dd_owned_contexts d2 = dd_owned_contexts d1" "dd_owned_pending d2 = dd_owned_pending d1" by auto
  from stage_owned_inv [OF L 2(1) owned] have 3: "driver_inv d3" "same_raw d2 d3"
      "owned_handlers \<alpha> (d3, u3) + mset (map fst failed) = owned_handlers \<alpha> (d2, ?u0)" by auto
  from submit_staged_driver_inv [OF 3(1) sub] have 4: "driver_inv d4"
      "held (dd_owned_contexts d4) = held (dd_owned_contexts d3)" "dd_owned_pending d4 = dd_owned_pending d3"
      "dd_shutdown d4 = dd_shutdown d3" "dd_accepting d4 = dd_accepting d3" by auto
  have 5: "driver_inv (uw_data w) \<and> same_owned d4 (uw_data w)"
    using wake_admissions_inv [OF 4(1)] 4(1) by (simp add: wd)
  have "uring_inv \<alpha> (s\<lparr>us_world := w, us_failed := failed, us_finished := us_finished s\<rparr>)"
    using 2 3 4 5 run w
    by (intro uring_inv_balanced [OF inv]) (auto simp: same_owned_def same_raw_def owned_handlers_def)
  then show ?thesis by simp
qed

lemma dispatch_inv:
  assumes inv: "uring_inv \<alpha> s" and c: "dispatch E cqe wakes (us_world s) = Return (overflow, wakes', w)"
  shows "uring_inv \<alpha> (s\<lparr>us_world := w, us_finished := us_finished s + ended_by cqe (us_data s)\<rparr>)"
proof -
  let ?d = "us_data s" and ?p = "cq_user_data cqe"
  from inv have d: "driver_inv ?d" by (simp add: uring_inv_def)
  have run: "\<not> us_decided s"
    using c inv by (auto simp: uring_inv_def idle_data_def dispatch_def dispatch_owned_def retire_owned_def
        hm_contains_def split: if_splits)
  have "uring_inv \<alpha> (s\<lparr>us_world := w, us_failed := us_failed s, us_finished := us_finished s + ended_by cqe ?d\<rparr>)"
  proof (cases "hm_contains ?p (dd_contexts ?d)")
    case True
    with c obtain d' where "dispatch_raw (ue_ring E) cqe ?d wakes = Return (overflow, d', wakes')"
      and w: "w = (us_world s)\<lparr>uw_data := d'\<rparr>" by (auto simp: dispatch_def)
    from dispatch_raw_frame [OF d this(1)] True run show ?thesis
      by (intro uring_inv_balanced [OF inv]) (auto simp: w ended_by_def same_owned_def owned_handlers_def)
  next
    case False
    with c obtain h d' where r: "retire_owned ?p (rl_more (ue_ring E) (cq_flags cqe)) ?d = Return (h, d')"
      by (auto simp: dispatch_def dispatch_owned_def split: if_splits)
    with False c have w: "uw_data w = d'" "uw_queue w = uw_queue (us_world s)" "uw_ring w = uw_ring (us_world s)"
        "uw_admission w = uw_admission (us_world s)"
      by (auto simp: dispatch_def dispatch_owned_def split: if_splits option.splits prod.splits)
    have h: "(case h of None \<Rightarrow> {#} | Some h \<Rightarrow> {#h#}) = ended_by cqe ?d"
      using r False by (auto simp: retire_owned_def ended_by_def Let_def split: if_splits option.splits)
    from d have "owned_inv ?d" by (simp add: driver_inv_def)
    from retire_owned_handlers [OF this r] retire_owned_inv [OF d r] run h show ?thesis
      by (intro uring_inv_balanced [OF inv]) (auto simp: w owned_handlers_def same_raw_def)
  qed
  then show ?thesis by simp
qed

text \<open>Polling a shared state and detaching it keep its counters.\<close>

lemma state_section_inv:
  assumes inv: "uring_inv \<alpha> s" and v: "si_counts v = si_counts (dd_states (us_data s) i)"
      "si_bounded (dd_states (us_data s) i) \<Longrightarrow> si_bounded v"
    and w: "w = (us_world s)\<lparr>uw_data := set_state i v (us_data s)\<rparr>"
  shows "uring_inv \<alpha> (s\<lparr>us_world := w\<rparr>)"
proof (rule uring_inv_state [OF inv v(1)])
  show "si_bounded v" using inv by (intro v(2)) (auto simp: uring_inv_def driver_inv_def dest: raw_invD(6))
qed (simp_all add: w)

lemma poll_sections_inv:
  assumes inv: "uring_inv \<alpha> s"
  shows "stream_poll k i (us_world s) = (p, w) \<Longrightarrow> uring_inv \<alpha> (s\<lparr>us_world := w\<rparr>)"
    and "cancellation_poll k i (us_world s) = (p, w) \<Longrightarrow> uring_inv \<alpha> (s\<lparr>us_world := w\<rparr>)"
    and "drain_poll k i (us_world s) = (p', w) \<Longrightarrow> uring_inv \<alpha> (s\<lparr>us_world := w\<rparr>)"
    and "uring_inv \<alpha> (s\<lparr>us_world := cancellation_drop c (us_world s)\<rparr>)"
proof -
  let ?st = "dd_states (us_data s) i"
  show "uring_inv \<alpha> (s\<lparr>us_world := w\<rparr>)" if "stream_poll k i (us_world s) = (p, w)"
    using that by (intro state_section_inv [OF inv, of "snd (next_completion_poll k ?st)" i])
      (auto simp: stream_poll_def case_prod_beta)
  show "uring_inv \<alpha> (s\<lparr>us_world := w\<rparr>)" if "cancellation_poll k i (us_world s) = (p, w)"
    using that by (intro state_section_inv [OF inv, of "snd (next_cancellation_poll k ?st)" i])
      (auto simp: cancellation_poll_def case_prod_beta)
  show "uring_inv \<alpha> (s\<lparr>us_world := w\<rparr>)" if "drain_poll k i (us_world s) = (p', w)"
    using that by (intro state_section_inv [OF inv, of "snd (wait_drained_poll k ?st)" i])
      (auto simp: drain_poll_def case_prod_beta)
  show "uring_inv \<alpha> (s\<lparr>us_world := cancellation_drop c (us_world s)\<rparr>)"
  proof (cases "ca_active c")
    case True
    then show ?thesis
      by (intro state_section_inv [OF inv, of "detach (dd_states (us_data s) (ca_state c))" "ca_state c"])
         (auto simp: cancellation_drop_def)
  qed (simp add: cancellation_drop_def inv)
qed

lemma owned_drop_inv:
  assumes inv: "uring_inv \<alpha> s" and c: "owned_drop E op (us_world s) = Return w"
  shows "uring_inv \<alpha> (s\<lparr>us_world := w\<rparr>)"
proof (cases "oo_queued op \<and> \<not> oo_done op")
  case True
  with c have "cancel_owned E (oo_state op) ((us_world s)\<lparr>uw_store := (uw_store (us_world s))
      (oo_state op := control_cancel (uw_store (us_world s) (oo_state op)))\<rparr>) = Return w"
    by (simp add: owned_drop_def)
  then show ?thesis by (rule cancel_owned_inv [OF inv, rotated 4]) simp_all
next
  case False
  with c have "w = us_world s" unfolding owned_drop_def by (simp only: if_False exec.inject)
  with inv show ?thesis by simp
qed

lemma uring_inv_step:
  assumes L: "alloc_ok (ue_ring E)" "ubq_fifo (ue_queue E) \<alpha>" and "uring_step E s t" "uring_inv \<alpha> s"
  shows "uring_inv \<alpha> t"
  using assms(3,4)
proof cases
  case (us_submit i rt getpid live entries se w)
  with assms(4) show ?thesis by (auto intro: submit_entries_inv)
next
  case (us_admit i a a' wakes w)
  with assms(4) show ?thesis by (auto intro: admit_world_inv [OF L(1)])
next
  case (us_settle k se p se' w)
  with assms(4) show ?thesis by (auto intro: submit_settle_inv)
next
  case (us_cancel delivery i w)
  with assms(4) show ?thesis by (auto intro: cancel_submission_inv)
next
  case (us_enqueue operation u)
  then have "uw_admission (us_world s)" "\<alpha> u = \<alpha> (uw_queue (us_world s)) @ [operation]"
    using L(2) by (auto simp: enqueue_def ubq_fifo_def split: if_splits)
  from uring_inv_enqueued [OF assms(4) this] us_enqueue(1) show ?thesis by simp
next
  case (us_enqueue_batch operations u)
  then have "uw_admission (us_world s)" "\<alpha> u = \<alpha> (uw_queue (us_world s)) @ operations"
    using L(2) by (auto simp: enqueue_batch_def ubq_fifo_def split: if_splits)
  from uring_inv_enqueued [OF assms(4) this] us_enqueue_batch(1) show ?thesis by simp
next
  case (us_owned_drop op w)
  with assms(4) show ?thesis by (auto intro: owned_drop_inv)
next
  case (us_stage live failed wakes w)
  with assms(4) show ?thesis by (auto intro: stage_section_inv [OF L])
next
  case (us_fail wakes wakes' w)
  then have "w = (us_world s)\<lparr>uw_store := uw_store w\<rparr>" by (auto simp: fail_section_def split: prod.splits)
  then obtain m where "w = (us_world s)\<lparr>uw_store := m\<rparr>" by blast
  with assms(4) us_fail(1) show ?thesis by (auto simp: uring_inv_def)
next
  case (us_reap cqes backlog w)
  then obtain q where "w = (us_world s)\<lparr>uw_ring := Some q\<rparr>"
    by (auto simp: reap_section_def split: option.splits prod.splits)
  with assms(4) us_reap(1) show ?thesis by (auto simp: uring_inv_def)
next
  case (us_dispatch cqe wakes overflow wakes' w)
  with assms(4) show ?thesis by (auto intro: dispatch_inv)
next
  case (us_decide backlog)
  with assms(4) L(2) show ?thesis by (auto simp: uring_inv_def decide_stop_iff ubq_fifo_def)
next
  case us_shutdown
  let ?d = "(us_data s)\<lparr>dd_accepting := False, dd_shutdown := True\<rparr>"
  have "driver_inv ?d" if "driver_inv (us_data s)" by (rule driver_inv_flags [OF that])
  with assms(4) us_shutdown show ?thesis by (simp add: uring_inv_def owned_handlers_def idle_data_def)
next
  case (us_gate g h b)
  with assms(4) show ?thesis by (simp add: uring_inv_def)
next
  case (us_refuse h k m)
  with assms(4) show ?thesis by (auto simp: uring_inv_def)
next
  case us_close
  with assms(4) show ?thesis by (simp add: uring_inv_def)
next
  case us_drop_ring
  with assms(4) show ?thesis by (simp add: uring_inv_def)
next
  case (us_owned_poll k i r st)
  with assms(4) show ?thesis by (simp add: uring_inv_def)
qed (use assms(4) in \<open>simp_all add: poll_sections_inv\<close>)

lemma uring_inv_steps:
  assumes "alloc_ok (ue_ring E)" "ubq_fifo (ue_queue E) \<alpha>" "uring_steps E s t" "uring_init s \<alpha>"
  shows "uring_inv \<alpha> t"
  using assms(3) by induction (auto intro: uring_inv_init [OF assms(4)] uring_inv_step [OF assms(1,2)])

end
