(* ===== verification/Uring_Properties.thy ===== *)
theory Uring_Properties
  imports Uring_System
begin

text \<open>
  What the ring driver of \<open>src/io_uring.rs\<close> and the operations of \<open>src/io.rs\<close> guarantee in every
  interleaving, stated over the transition system of \<open>Uring_System\<close>. The sample environment is a
  ring of four entries with an allocator of four addresses; it serves the witnesses.
\<close>

section \<open>A pass of the driver is a sequence of steps\<close>

lemma dispatch_all_steps:
  "dispatch_all E cqes overflow wakes (us_world s) = Return (overflow', wakes', w)
    \<Longrightarrow> \<exists>n. uring_steps E s (s\<lparr>us_world := w, us_finished := n\<rparr>)"
proof (induction cqes arbitrary: s overflow wakes)
  case Nil
  then have "s = s\<lparr>us_world := w, us_finished := us_finished s\<rparr>" by simp
  then show ?case by (metis rtranclp.rtrancl_refl)
next
  case (Cons cqe cqes)
  from Cons.prems obtain o' wakes1 w1 where d: "dispatch E cqe wakes (us_world s) = Return (o', wakes1, w1)"
    and r: "dispatch_all E cqes (case o' of None \<Rightarrow> overflow | Some i \<Rightarrow> overflow @ [i]) wakes1 w1
      = Return (overflow', wakes', w)" by auto
  let ?s = "s\<lparr>us_world := w1, us_finished := us_finished s + ended_by cqe (us_data s)\<rparr>"
  from d have "uring_step E s ?s" by (rule us_dispatch)
  moreover from Cons.IH [of _ _ ?s] r obtain n where "uring_steps E ?s (?s\<lparr>us_world := w, us_finished := n\<rparr>)" by auto
  ultimately have "uring_steps E s (?s\<lparr>us_world := w, us_finished := n\<rparr>)" by (rule converse_rtranclp_into_rtranclp)
  then show ?case by auto
qed

lemma cancel_submissions_steps:
  "delivery \<noteq> DeliveryOpen \<Longrightarrow> cancel_submissions E delivery ss (us_world s) = Return w
    \<Longrightarrow> uring_steps E s (s\<lparr>us_world := w\<rparr>)"
proof (induction ss arbitrary: s)
  case Nil
  then have "w = us_world s" by simp
  then show ?case by simp
next
  case (Cons i ss)
  then obtain w1 where c: "cancel_submission E i delivery (us_world s) = Return w1"
    and r: "cancel_submissions E delivery ss w1 = Return w" by auto
  from us_cancel [OF Cons.prems(1) c] have "uring_step E s (s\<lparr>us_world := w1\<rparr>)" .
  moreover from Cons.IH [of "s\<lparr>us_world := w1\<rparr>"] Cons.prems(1) r
  have "uring_steps E (s\<lparr>us_world := w1\<rparr>) (s\<lparr>us_world := w\<rparr>)" by simp
  ultimately show ?case by (rule converse_rtranclp_into_rtranclp)
qed

lemma driver_pass_steps:
  assumes run: "\<not> us_decided s" "us_failed s = []"
    and c: "driver_pass E live (us_world s) = Return (wakes, backlog, w)"
  shows "\<exists>n. uring_steps E s (s\<lparr>us_world := w, us_finished := n\<rparr>)"
proof -
  from c obtain failed wakes1 w1 where 1: "stage_section E live (us_world s) = Return (failed, wakes1, w1)"
    by (auto simp: driver_pass_def)
  obtain wakes2 w2 where 2: "fail_section E failed wakes1 w1 = (wakes2, w2)" by (rule prod.exhaust)
  from c 1 2 obtain cqes w3 overflow w4 where 3: "reap_section E w2 = Return (cqes, backlog, w3)"
      and 4: "dispatch_all E cqes [] wakes2 w3 = Return (overflow, wakes, w4)"
      and 5: "cancel_submissions E DeliveryOverflow overflow w4 = Return w"
    by (auto simp: driver_pass_def)
  let ?s1 = "s\<lparr>us_world := w1, us_failed := failed\<rparr>"
  let ?s2 = "s\<lparr>us_world := w2, us_failed := [], us_finished := us_finished s + mset (map fst failed)\<rparr>"
  let ?s3 = "?s2\<lparr>us_world := w3\<rparr>"
  have "uring_step E s ?s1" by (rule us_stage [OF run 1])
  moreover have "uring_step E ?s1 ?s2" using us_fail [of E ?s1 wakes1 wakes2 w2] 2 by simp
  moreover have "uring_step E ?s2 ?s3" using us_reap [of E ?s2 cqes backlog w3] 3 by simp
  ultimately have "uring_steps E s ?s3" by (meson rtranclp.rtrancl_into_rtrancl rtranclp.rtrancl_refl)
  also from dispatch_all_steps [of E cqes "[]" wakes2 ?s3] 4
  obtain n where "uring_steps E ?s3 (?s3\<lparr>us_world := w4, us_finished := n\<rparr>)" by auto
  also have "uring_steps E (?s3\<lparr>us_world := w4, us_finished := n\<rparr>) (?s3\<lparr>us_world := w4, us_finished := n, us_world := w\<rparr>)"
    by (rule cancel_submissions_steps [where delivery = DeliveryOverflow and ss = overflow]) (simp_all add: 5)
  also have "?s3\<lparr>us_world := w4, us_finished := n, us_world := w\<rparr> = s\<lparr>us_world := w, us_finished := n\<rparr>"
    using run(2) by (intro UringSys.equality) simp_all
  finally show ?thesis by blast
qed

section \<open>Completions that the kernel may produce\<close>

text \<open>
  What the driver relies on: a completion carries the user data of an entry that was submitted and has
  not terminated, and only an entry of the caller's iterator may announce further completions.
\<close>

definition kernel_legal :: "('q, 's, 'x, 'z) ring_lib_scheme \<Rightarrow> ('x, 'h) DriverData \<Rightarrow> 'x cqe \<Rightarrow> bool" where
  "kernel_legal L d cqe \<longleftrightarrow> (let p = cq_user_data cqe; again = rl_more L (cq_flags cqe) in
     case hm_get (dd_contexts d) p of
       Some c \<Rightarrow> cx_phase c = CtxSubmitted \<and> (again \<longrightarrow> cx_kind c = CtxOriginal)
     | None \<Rightarrow>
         (case hm_get (dd_owned_contexts d) p of
            Some c \<Rightarrow> oc_phase c = CtxSubmitted \<and> \<not> again
          | None \<Rightarrow> (case hm_get (dd_owned_cancel_contexts d) p of
              Some k \<Rightarrow> on_phase k = CtxSubmitted \<and> \<not> again | None \<Rightarrow> False)))"

lemma cancels_for_pos:
  "hm_wf m \<Longrightarrow> hm_get m p = Some c \<Longrightarrow> cx_kind c = CtxCancel \<Longrightarrow> cx_target c = Some t \<Longrightarrow> 0 < cancels_for t m"
  by (simp add: counts_remove(1) [of m p c t])

lemma dispatch_raw_returns:
  assumes inv: "raw_inv d" and c: "hm_get (dd_contexts d) (cq_user_data cqe) = Some c" "cx_phase c = CtxSubmitted"
    and legal: "rl_more L (cq_flags cqe) \<longrightarrow> cx_kind c = CtxOriginal"
  shows "\<exists>r. dispatch_raw L cqe d wakes = Return r"
proof (cases "cx_kind c")
  case CtxOriginal
  with c raw_invD(4) [OF inv c(1)] show ?thesis by (simp add: dispatch_raw_def Let_def del: split_paired_Ex)
next
  case CtxCancel
  note I = raw_invD [OF inv]
  from I(4) [OF c(1)] CtxCancel obtain t where t: "cx_target c = Some t" "cq_user_data cqe \<noteq> 0"
    by (auto simp: shape_ok_def)
  with cancels_for_pos [OF I(1) c(1) CtxCancel, of t] I(3) [of t] obtain o'
    where o': "hm_get (dd_contexts d) t = Some o'" "awaits_cancel o'" by (auto simp: of_bool_def split: option.splits if_splits)
  with CtxCancel c(1) have "t \<noteq> cq_user_data cqe" by (auto simp: awaits_cancel_def)
  with c t o' CtxCancel legal show ?thesis
    by (auto simp: dispatch_raw_def dispatch_cancel_def Let_def case_prod_beta)
qed

lemma retire_owned_returns:
  assumes inv: "owned_inv d" and legal: "\<not> again"
    and c: "case hm_get (dd_owned_contexts d) p of Some c \<Rightarrow> oc_phase c = CtxSubmitted
      | None \<Rightarrow> \<exists>k. hm_get (dd_owned_cancel_contexts d) p = Some k \<and> on_phase k = CtxSubmitted"
  shows "\<exists>h d'. retire_owned p again d = Return (h, d')"
proof (cases "hm_get (dd_owned_contexts d) p")
  case (Some c)
  with assms(3) owned_invD(6) [OF inv Some] obtain h where "oc_phase c = CtxSubmitted" "oc_handler c = Some h"
    by (auto simp: oc_shape_def)
  with Some legal show ?thesis by (auto simp: retire_owned_def Let_def)
next
  case None
  with c obtain k where k: "hm_get (dd_owned_cancel_contexts d) p = Some k" "on_phase k = CtxSubmitted" by auto
  from owned_counts(2) [OF owned_invD(2) [OF inv] k(1), of "on_target k"] owned_invD(5) [OF inv, of "on_target k"]
  obtain o' where "hm_get (dd_owned_contexts d) (on_target k) = Some o'" by (auto split: option.splits)
  with None k legal show ?thesis by (auto simp: retire_owned_def Let_def)
qed

lemma dispatch_returns:
  assumes inv: "driver_inv (uw_data w)" and legal: "kernel_legal (ue_ring E) (uw_data w) cqe"
  shows "\<exists>r. dispatch E cqe wakes w = Return r"
proof (cases "hm_get (dd_contexts (uw_data w)) (cq_user_data cqe)")
  case (Some c)
  with inv legal dispatch_raw_returns [of "uw_data w" cqe c "ue_ring E" wakes] obtain r
    where "dispatch_raw (ue_ring E) cqe (uw_data w) wakes = Return r"
    by (auto simp: driver_inv_def kernel_legal_def Let_def)
  with Some show ?thesis by (cases r) (simp add: dispatch_def hm_contains_def)
next
  case None
  let ?p = "cq_user_data cqe" and ?again = "rl_more (ue_ring E) (cq_flags cqe)"
  from inv have o: "owned_inv (uw_data w)" by (simp add: driver_inv_def)
  from None legal have "\<not> ?again" and c: "case hm_get (dd_owned_contexts (uw_data w)) ?p of Some c \<Rightarrow> oc_phase c = CtxSubmitted
      | None \<Rightarrow> \<exists>k. hm_get (dd_owned_cancel_contexts (uw_data w)) ?p = Some k \<and> on_phase k = CtxSubmitted"
    by (auto simp: kernel_legal_def Let_def split: option.splits)
  from retire_owned_returns [OF o this] obtain h d'
    where r: "retire_owned ?p ?again (uw_data w) = Return (h, d')" by blast
  from c have "?p \<noteq> 0" using owned_invD(6,7) [OF o] by (fastforce split: option.splits)
  with None r show ?thesis
    by (cases h) (auto simp: dispatch_def hm_contains_def dispatch_owned_def case_prod_beta)
qed

lemma submit_staged_returns:
  assumes inv: "driver_inv d" and ok: "rl_submit L q = (Ok n, q')" "n \<le> length (dd_staged d)"
  shows "\<exists>r. submit_staged C L (d, q) wakes = Return r"
proof -
  from accept_prefix_returns [OF inv ok(2), of wakes] obtain d' w' where "accept_prefix n d wakes = Return (d', w')"
    by fastforce
  with ok show ?thesis by (simp add: submit_staged_def)
qed

section \<open>A sample environment and a sample run\<close>

type_synonym sample_queue = "nat TypedHandler QueuedOwnedOp list"
type_synonym ring_sys = "(unit, nat, unit sqe list, sample_queue, i32) UringSys"

definition sample_ring :: "(unit sqe list, unit, unit) ring_lib" where
  "sample_ring = \<lparr>rl_push = (\<lambda>e q. if length q < 4 then Some (q @ [e]) else None),
     rl_submit = (\<lambda>q. (Ok (length q), [])), rl_reap = (\<lambda>n q. ([], True, q)), rl_more = (\<lambda>f. f = 2),
     rl_async_cancel = (\<lambda>_. ()), rl_alloc = (\<lambda>ps. find (\<lambda>p. p \<notin> set ps) [64, 128, 192, 256])\<rparr>"

definition sample_work :: "(nat, unit, i32) op_work" where
  "sample_work = \<lparr>ow_opcode = (\<lambda>_. 0), ow_entry = (\<lambda>_. ()), ow_complete = (\<lambda>_ r. r), ow_fail = (\<lambda>_ _. - 1)\<rparr>"

definition sample_env :: "(unit sqe list, unit, unit, sample_queue, nat, i32) uring_env" where
  "sample_env = \<lparr>ue_libc = \<lparr>EINTR = 4, EAGAIN = 11, EBUSY = 16, ECANCELED = 125\<rparr>, ue_ring = sample_ring,
     ue_queue = list_ubq, ue_work = sample_work, ue_supported = [True],
     ue_config = io_uring_config_default\<lparr>cf_entries := 4, cf_max_buffered := 1\<rparr>, ue_nosv = sample_nosv\<rparr>"

lemma sample_laws: "alloc_ok (ue_ring sample_env)" "ubq_fifo (ue_queue sample_env) (\<lambda>u. u)"
  by (auto simp: alloc_ok_def sample_env_def sample_ring_def ubq_fifo_list split: if_splits)

definition sample_op :: "nat TypedHandler QueuedOwnedOp" where
  "sample_op = \<lparr>qo_control = 3, qo_handler = \<lparr>th_state = 3, th_work = 7\<rparr>\<rparr>"

definition sample_ring_world :: "(unit, nat, unit sqe list, sample_queue, i32) UringWorld" where
  "sample_ring_world = \<lparr>uw_data = driver_data_new, uw_queue = [], uw_ring = Some [], uw_admission = True,
     uw_store = (\<lambda>_. owned_state_new), uw_gate = driver_gate_new\<lparr>dg_notified := True\<rparr>, uw_log = [], uw_completed = False\<rparr>"

definition sample_start :: ring_sys where
  "sample_start = \<lparr>us_world = sample_ring_world, us_failed = [], us_decided = False, us_admitted = {#}, us_finished = {#}\<rparr>"

lemma sample_init: "uring_init sample_start (\<lambda>u. u)"
  by (simp add: uring_init_def sample_start_def sample_ring_world_def)

lemma sample_simps [simp]:
  "rl_push sample_ring e q = (if length q < 4 then Some (q @ [e]) else None)"
  "rl_submit sample_ring q = (Ok (length q), [])" "rl_reap sample_ring n q = ([], True, q)"
  "rl_more sample_ring f = (f = 2)" "rl_alloc sample_ring ps = find (\<lambda>p. p \<notin> set ps) [64, 128, 192, 256]"
  "ubq_is_empty list_ubq u = (u = [])" "ubq_push list_ubq x u = u @ [x]" "ubq_pop list_ubq [] = (None, [])"
  "ubq_pop list_ubq (x # u) = (Some x, u)" "ow_opcode sample_work w = 0" "ow_entry sample_work w = ()"
  by (simp_all add: sample_ring_def list_ubq_def sample_work_def)

lemma sample_env_simps [simp]:
  "ue_ring sample_env = sample_ring" "ue_queue sample_env = list_ubq" "ue_work sample_env = sample_work"
  "ue_supported sample_env = [True]" "unat (cf_entries (ue_config sample_env)) = 4" "ue_nosv sample_env = sample_nosv"
  "cf_reap_size (ue_config sample_env) = 256"
  by (simp_all add: sample_env_def io_uring_config_default_def)

text \<open>One operation is queued, staged and submitted.\<close>

definition sample_data :: "ContextPhase \<Rightarrow> (unit, nat) owned_data" where
  "sample_data phase = driver_data_new\<lparr>dd_owned_contexts := [(64, \<lparr>oc_phase = phase, oc_control = 3,
     oc_handler = Some (qo_handler sample_op), oc_cancel_queued = False, oc_cancel_seen = False\<rparr>)],
     dd_staged := (if phase = CtxStaged then [StagedOwned 64] else [])\<rparr>"

definition sample_submitted :: ring_sys where
  "sample_submitted = sample_start\<lparr>us_world := sample_ring_world\<lparr>uw_data := sample_data CtxSubmitted\<rparr>,
     us_admitted := {#qo_handler sample_op#}\<rparr>"

lemma sample_staged:
  "stage_owned sample_ring list_ubq sample_work [True] (\<lambda>_. owned_state_new) 4 [] ((driver_data_new, [sample_op]), [])
    = Return ([], (sample_data CtxStaged, []), [\<lparr>sq_user_data = 64, sq_body = ()\<rparr>])"
  by (simp add: eval_nat_numeral next_owned_def driver_data_new_def sample_data_def sample_op_def Let_def
      owned_state_new_def opcode_supported_def live_pointers_def context_pointer_in_use_def hm_contains_def
      hm_insert_def hm_remove_def)

lemma sample_accepted:
  "submit_staged (ue_libc sample_env) sample_ring (sample_data CtxStaged, [\<lparr>sq_user_data = 64, sq_body = ()\<rparr>]) []
    = Return ((sample_data CtxSubmitted, []), [])"
  by (simp add: submit_staged_def sample_data_def driver_data_new_def accept_one_def accept_owned_def hm_update_def)

lemma stage_none:
  "stage_cancellations L (driver_data_new, q) = Return (driver_data_new, q)"
  "stage_owned_cancellations L (driver_data_new, q) = Return (driver_data_new, q)"
  by (simp_all add: stage_cancellations_def stage_owned_cancellations_def driver_data_new_def)

lemma sample_stage_section:
  "stage_section sample_env (\<lambda>_. False) (sample_ring_world\<lparr>uw_queue := [sample_op]\<rparr>)
    = Return ([], [], sample_ring_world\<lparr>uw_data := sample_data CtxSubmitted\<rparr>)"
  by (simp add: stage_section_def sample_ring_world_def sample_staged sample_accepted stage_none del: exec_bind_Return_iff)

lemma sample_run_submitted: "uring_steps sample_env sample_start sample_submitted"
proof -
  let ?s1 = "sample_start\<lparr>us_world := (us_world sample_start)\<lparr>uw_queue := [sample_op]\<rparr>,
      us_admitted := us_admitted sample_start + {#qo_handler sample_op#}\<rparr>"
  have "uring_step sample_env sample_start ?s1"
    by (rule us_enqueue) (simp add: enqueue_def sample_start_def sample_ring_world_def)
  moreover have "uring_step sample_env ?s1 sample_submitted"
    using us_stage [of ?s1 sample_env "\<lambda>_. False" "[]" "[]" "sample_ring_world\<lparr>uw_data := sample_data CtxSubmitted\<rparr>"]
    by (simp add: sample_stage_section sample_submitted_def sample_start_def)
  ultimately show ?thesis by (meson rtranclp.rtrancl_into_rtrancl rtranclp.rtrancl_refl)
qed

text \<open>It completes, the runtime closes, and the driver drops its ring.\<close>

definition sample_dropped :: ring_sys where
  "sample_dropped = sample_submitted\<lparr>us_world := (us_world sample_submitted)
     \<lparr>uw_data := driver_data_new\<lparr>dd_accepting := False, dd_shutdown := True\<rparr>, uw_admission := False, uw_ring := None,
      uw_store := snd (handler_complete sample_work (qo_handler sample_op) 5 (\<lambda>_. owned_state_new))\<rparr>,
     us_finished := {#qo_handler sample_op#}, us_decided := True\<rparr>"


lemma sample_dispatch:
  "dispatch sample_env \<lparr>cq_user_data = 64, cq_result = 5, cq_flags = 0, cq_extra = ()\<rparr> [] (us_world sample_submitted)
    = Return (None, [], sample_ring_world\<lparr>uw_store := snd (handler_complete sample_work (qo_handler sample_op) 5
        (\<lambda>_. owned_state_new))\<rparr>)"
  by (simp add: dispatch_def sample_submitted_def sample_start_def sample_ring_world_def sample_data_def driver_data_new_def
      hm_contains_def dispatch_owned_def retire_owned_def hm_remove_def handler_complete_def store_and_publish_def
      control_publish_def option_take_def owned_state_new_def push_waker_def Let_def del: exec_bind_Return_iff)

lemma sample_run_dropped: "uring_steps sample_env sample_start sample_dropped"
proof -
  let ?w = "sample_ring_world\<lparr>uw_store := snd (handler_complete sample_work (qo_handler sample_op) 5 (\<lambda>_. owned_state_new))\<rparr>"
  let ?s1 = "sample_submitted\<lparr>us_world := ?w, us_finished := {#qo_handler sample_op#}\<rparr>"
  let ?s2 = "?s1\<lparr>us_world := ?w\<lparr>uw_admission := False\<rparr>\<rparr>"
  let ?s3 = "?s2\<lparr>us_world := ?w\<lparr>uw_admission := False, uw_data := driver_data_new
       \<lparr>dd_accepting := False, dd_shutdown := True\<rparr>\<rparr>\<rparr>"
  have "uring_step sample_env sample_submitted ?s1"
    using us_dispatch [OF sample_dispatch]
    by (simp add: ended_by_def sample_submitted_def sample_start_def sample_data_def driver_data_new_def hm_contains_def)
  moreover have "uring_step sample_env ?s1 ?s2" using us_close [of sample_env ?s1] by simp
  moreover have "uring_step sample_env ?s2 ?s3" using us_shutdown [of ?s2 sample_env] by (simp add: sample_ring_world_def)
  moreover have "uring_step sample_env ?s3 (?s3\<lparr>us_decided := True\<rparr>)"
    by (rule us_decide [where backlog = False])
       (simp_all add: decide_stop_iff idle_data_def sample_submitted_def sample_start_def sample_ring_world_def driver_data_new_def)
  moreover have "uring_step sample_env (?s3\<lparr>us_decided := True\<rparr>) sample_dropped"
    using us_drop_ring [of "?s3\<lparr>us_decided := True\<rparr>" sample_env]
    by (simp add: sample_dropped_def sample_submitted_def sample_start_def sample_ring_world_def)
  ultimately show ?thesis using sample_run_submitted by (meson rtranclp.rtrancl_into_rtrancl)
qed

text \<open>An iterator of one entry is submitted on the state 0 and its entry completes.\<close>

definition sample_state :: "nat \<Rightarrow> nat \<Rightarrow> unit Completion list \<Rightarrow> unit SubmissionInner" where
  "sample_state accepted terminal queue = (submission_new 1)\<lparr>si_iterator_finished := True, si_originals := 1,
     si_accepted := accepted, si_original_terminal := terminal, si_normal := queue\<rparr>"

definition sample_context :: CqeContext where
  "sample_context = \<lparr>cx_kind = CtxOriginal, cx_phase = CtxSubmitted, cx_index = 0, cx_user_data = 9, cx_state = 0,
     cx_target = None, cx_cancel_queued = False, cx_cancel_seen = False\<rparr>"

definition sample_admitted :: ring_sys where
  "sample_admitted = sample_start\<lparr>us_world := sample_ring_world\<lparr>uw_data := driver_data_new\<lparr>dd_submissions := [0],
     dd_contexts := [(64, sample_context)], dd_states := (\<lambda>_. submission_new 0)(0 := sample_state 1 0 [])\<rparr>\<rparr>\<rparr>"

definition sample_completed :: ring_sys where
  "sample_completed = sample_start\<lparr>us_world := sample_ring_world\<lparr>uw_data := driver_data_new\<lparr>dd_submissions := [0],
     dd_states := (\<lambda>_. submission_new 0)(0 := sample_state 1 1 [\<lparr>cp_index = 0,
       cp_cqe = \<lparr>cq_user_data = 9, cq_result = 5, cq_flags = 0, cq_extra = ()\<rparr>\<rparr>])\<rparr>\<rparr>\<rparr>"

definition sample_registered :: ring_sys where
  "sample_registered = sample_start\<lparr>us_world := sample_ring_world\<lparr>uw_data := driver_data_new\<lparr>dd_submissions := [0],
     dd_states := (\<lambda>_. submission_new 0)(0 := submission_new 1)\<rparr>\<rparr>\<rparr>"

lemmas sample_defs = sample_start_def sample_ring_world_def driver_data_new_def sample_registered_def sample_admitted_def
  sample_completed_def sample_state_def sample_context_def submission_new_def set_state_def

lemma sample_notify:
  "uw_gate w = driver_gate_new\<lparr>dg_notified := True\<rparr> \<Longrightarrow> driver_notify_world sample_env w = Return w"
  by (simp add: driver_notify_world_def uring_notify_def driver_notify_def driver_gate_new_def)

lemma sample_admit:
  "admit_world sample_env 0 \<lparr>ad_iter = [Some \<lparr>sq_user_data = 9, sq_body = ()\<rparr>], ad_pending = None, ad_next_index = 0\<rparr>
     (us_world sample_registered)
   = Return (\<lparr>ad_iter = [], ad_pending = None, ad_next_index = 1\<rparr>, [], us_world sample_admitted)"
  by (simp add: admit_world_def sample_notify sample_defs admit_def stage_cancellations_def admit_all_def
      checked_add_def stage_original_def live_pointers_def hm_contains_def finish_iterator_def take_admission_waker_def
      option_take_def push_waker_def submit_staged_def accept_one_def accept_raw_def hm_insert_def hm_remove_def
      hm_update_def Let_def fun_eq_iff del: exec_bind_Return_iff)

lemma sample_complete:
  "dispatch sample_env \<lparr>cq_user_data = 64, cq_result = 5, cq_flags = 0, cq_extra = ()\<rparr> [] (us_world sample_admitted)
    = Return (None, [], us_world sample_completed)"
  by (simp add: dispatch_def hm_contains_def dispatch_raw_def dispatch_original_def sample_defs hm_remove_def
      deliver_original_def take_normal_waker_def finish_original_def wake_drain_def drained_def option_take_def
      push_waker_def Let_def fun_eq_iff del: exec_bind_Return_iff)

lemma sample_run_admitted: "uring_steps sample_env sample_start sample_admitted"
proof -
  let ?it = "[Some \<lparr>sq_user_data = 9, sq_body = ()\<rparr>] :: unit sqe_iter"
  have "submit_entries sample_env (Some (new_runtime_core 0 42 (RawTaskType 8) (RawTaskType 16))) 42 (\<lambda>_. False) 0 ?it (us_world sample_start)
      = (\<lparr>se_iterator = Some ?it, se_pending = None, se_next_index = 0, se_state = 0, se_closed = False, se_done = False\<rparr>,
         us_world sample_registered)"
    by (simp add: submit_entries_def register_submission_def sample_defs new_runtime_core_def process_matches_def
        ensure_running_def sample_env_def io_uring_config_default_def)
  from us_submit [OF _ this]
  have "uring_step sample_env sample_start sample_registered" by (simp add: fresh_state_def sample_defs)
  moreover from us_admit [OF sample_admit] have "uring_step sample_env sample_registered sample_admitted"
    by (simp add: sample_registered_def sample_admitted_def)
  ultimately show ?thesis by (meson rtranclp.rtrancl_into_rtrancl rtranclp.rtrancl_refl)
qed

lemma sample_run_completed: "uring_steps sample_env sample_start sample_completed"
proof -
  from us_dispatch [OF sample_complete] have "uring_step sample_env sample_admitted sample_completed"
    by (simp add: ended_by_def hm_contains_def sample_defs)
  with sample_run_admitted show ?thesis by simp
qed

section \<open>Properties\<close>

text \<open>
  C24: the driver gives its ring up only when nothing is left: in every reachable state without a ring,
  every handler that was ever admitted has been completed or failed exactly once, no context, staged
  entry or cancellation remains and the producer queue is empty.
\<close>

theorem ring_dropped_when_all_done:
  assumes "alloc_ok (ue_ring E)" "ubq_fifo (ue_queue E) \<alpha>" "uring_init s \<alpha>" "uring_steps E s t"
    and "uw_ring (us_world t) = None"
  shows "us_finished t = us_admitted t \<and> idle_data (us_data t) \<and> \<alpha> (uw_queue (us_world t)) = []"
  using uring_inv_steps [OF assms(1,2,4,3)] assms(5)
  by (auto simp: uring_inv_def owned_handlers_def idle_data_def)

theorem ring_dropped_when_all_done_witness:
  "us_finished sample_dropped = us_admitted sample_dropped \<and> idle_data (us_data sample_dropped)
    \<and> us_finished sample_dropped = {#qo_handler sample_op#}"
  using ring_dropped_when_all_done [OF sample_laws sample_init sample_run_dropped]
  by (simp add: sample_dropped_def)

text \<open>
  C25: once \<open>WaitDrained\<close> resolves, no entry of the iterator and no cancellation of one is known to the
  kernel or staged for it: every remaining context is the terminal shell of an original. Its
  caller may free the buffers.
\<close>

theorem drained_means_unreferenced:
  assumes "alloc_ok (ue_ring E)" "ubq_fifo (ue_queue E) \<alpha>" "uring_init s \<alpha>" "uring_steps E s t"
    and "drain_poll k i (us_world t) = (Ready (), w)"
  shows "\<forall>p c. hm_get (dd_contexts (us_data t)) p = Some c \<and> cx_state c = i
    \<longrightarrow> cx_kind c = CtxOriginal \<and> cx_phase c = CtxTerminal"
proof -
  have inv: "raw_inv (us_data t)"
    using uring_inv_steps [OF assms(1,2,4,3)] by (simp add: uring_inv_def driver_inv_def)
  note I = raw_invD [OF inv]
  from assms(5) have "drained (dd_states (us_data t) i)"
    by (auto simp: drain_poll_def wait_drained_poll_def split: if_splits)
  with I(5) [of i] have "live_originals i (dd_contexts (us_data t)) = 0" "live_cancels i (dd_contexts (us_data t)) = 0"
    by (auto simp: ledger_ok_def drained_def)
  then show ?thesis
    unfolding live_originals_def live_cancels_def hm_count_zero_iff [OF I(1)]
    by (metis (full_types) ContextKind.exhaust)
qed

theorem drained_means_unreferenced_witness:
  "fst (drain_poll 3 0 (us_world sample_completed)) = Ready () \<and> \<not> (\<exists>p c. hm_get (dd_contexts (us_data sample_completed)) p
     = Some c \<and> cx_state c = 0 \<and> cx_phase c = CtxSubmitted)"
proof -
  have "drain_poll 3 0 (us_world sample_completed) = (Ready (), us_world sample_completed)"
    by (simp add: drain_poll_def wait_drained_poll_def drained_def sample_defs fun_eq_iff)
  from drained_means_unreferenced [OF sample_laws sample_init sample_run_completed this] this show ?thesis by auto
qed

text \<open>
  C26: the driver and its clients reach no invariant abort: in every reachable state a completion that the
  kernel may produce is dispatched, an accepted prefix of the staged entries is retired, and any
  request to cancel an iterator is carried out.
\<close>

theorem driver_never_aborts:
  assumes "alloc_ok (ue_ring E)" "ubq_fifo (ue_queue E) \<alpha>" "uring_init s \<alpha>" "uring_steps E s t"
  shows "(kernel_legal (ue_ring E) (us_data t) cqe \<longrightarrow> (\<exists>r. dispatch E cqe wakes (us_world t) = Return r))
    \<and> (rl_submit (ue_ring E) q = (Ok n, q') \<and> n \<le> length (dd_staged (us_data t))
        \<longrightarrow> (\<exists>r. submit_staged (ue_libc E) (ue_ring E) (us_data t, q) wakes = Return r))
    \<and> (delivery \<noteq> DeliveryOpen \<longrightarrow> (\<exists>d. request_cancel i delivery (us_data t) = Return d))"
proof (intro conjI impI)
  have inv: "driver_inv (us_data t)"
    using uring_inv_steps [OF assms(1,2,4,3)] by (simp add: uring_inv_def)
  show "\<exists>r. dispatch E cqe wakes (us_world t) = Return r" if "kernel_legal (ue_ring E) (us_data t) cqe"
    using dispatch_returns [OF inv that] .
  show "\<exists>r. submit_staged (ue_libc E) (ue_ring E) (us_data t, q) wakes = Return r"
    if "rl_submit (ue_ring E) q = (Ok n, q') \<and> n \<le> length (dd_staged (us_data t))"
    using that by (elim conjE) (rule submit_staged_returns [OF inv])
  show "\<exists>d. request_cancel i delivery (us_data t) = Return d" if "delivery \<noteq> DeliveryOpen"
    by (rule request_cancel_inv [OF inv that, of i]) blast
qed

theorem driver_never_aborts_witness:
  "\<exists>r. dispatch sample_env \<lparr>cq_user_data = 64, cq_result = 5, cq_flags = 0, cq_extra = ()\<rparr> [] (us_world sample_submitted)
     = Return r"
  using driver_never_aborts [OF sample_laws sample_init sample_run_submitted,
      of "\<lparr>cq_user_data = 64, cq_result = 5, cq_flags = 0, cq_extra = ()\<rparr>" "[]"]
  by (simp add: kernel_legal_def sample_submitted_def sample_start_def sample_data_def driver_data_new_def)

text \<open>
  C27: one pass of the driver is a sequence of critical sections of the transition system, whatever other
  threads do between them: from a reachable state it ends in a reachable state, with nothing left
  over from the pass and the invariant of the data intact.
\<close>

theorem driver_pass_refines:
  assumes "alloc_ok (ue_ring E)" "ubq_fifo (ue_queue E) \<alpha>" "uring_init s \<alpha>" "uring_steps E s t"
    and "\<not> us_decided t" "us_failed t = []" "driver_pass E live (us_world t) = Return (wakes, backlog, w)"
  shows "\<exists>n. uring_steps E s (t\<lparr>us_world := w, us_finished := n\<rparr>) \<and> driver_inv (uw_data w)"
proof -
  from driver_pass_steps [OF assms(5-7)] obtain n where "uring_steps E t (t\<lparr>us_world := w, us_finished := n\<rparr>)" ..
  with assms(4) have r: "uring_steps E s (t\<lparr>us_world := w, us_finished := n\<rparr>)" by simp
  from uring_inv_steps [OF assms(1,2) r assms(3)] have "driver_inv (uw_data w)" by (simp add: uring_inv_def)
  with r show ?thesis by blast
qed

lemma sample_idle_stage:
  "stage_section sample_env (\<lambda>_. False) (us_world sample_completed) = Return ([], [], us_world sample_completed)"
proof -
  let ?d = "us_data sample_completed"
  have d: "uw_ring (us_world sample_completed) = Some []" "uw_queue (us_world sample_completed) = []"
    "dd_owned_pending ?d = []" "dd_owned_cancel_queue ?d = []" "dd_cancel_queue ?d = []" "dd_staged ?d = []"
    by (simp_all add: sample_defs)
  have "stage_owned sample_ring list_ubq sample_work [True] m 4 [] ((?d, []), []) = Return ([], (?d, []), [])" for m
    by (simp add: eval_nat_numeral next_owned_def d)
  note this [simp]
  have [simp]: "?d\<lparr>dd_cancel_queue := [], dd_owned_cancel_queue := []\<rparr> = ?d"
    "(us_world sample_completed)\<lparr>uw_data := ?d, uw_queue := [], uw_ring := Some []\<rparr> = us_world sample_completed"
    by (simp_all add: sample_defs)
  show ?thesis
    by (simp add: stage_section_def stage_cancellations_def stage_owned_cancellations_def submit_staged_def d
        del: exec_bind_Return_iff)
qed

theorem driver_pass_refines_witness:
  "\<exists>n. uring_steps sample_env sample_start (sample_completed\<lparr>us_finished := n\<rparr>) \<and> driver_inv (us_data sample_completed)"
proof -
  have "driver_pass sample_env (\<lambda>_. False) (us_world sample_completed) = Return ([], False, us_world sample_completed)"
  proof -
    have "uw_ring (us_world sample_completed) = Some []"
      "(us_world sample_completed)\<lparr>uw_store := uw_store (us_world sample_completed), uw_ring := Some []\<rparr> = us_world sample_completed"
      by (simp_all add: sample_defs)
    then show ?thesis
      by (simp add: driver_pass_def fail_section_def reap_section_def sample_idle_stage del: exec_bind_Return_iff)
  qed
  from driver_pass_refines [OF sample_laws sample_init sample_run_completed _ _ this] show ?thesis
    by (simp add: sample_completed_def sample_start_def)
qed

lemma buffers_kept:
  "si_normal (fst (take_admission_waker s wakes)) = si_normal s"
  "si_delivery (fst (take_admission_waker s wakes)) = si_delivery s"
  "si_limit (fst (take_admission_waker s wakes)) = si_limit s"
  "si_normal_overflow (fst (take_admission_waker s wakes)) = si_normal_overflow s"
  "si_original_terminal (fst (take_admission_waker s wakes)) = si_original_terminal s"
  "si_normal (fst (finish_original s wakes)) = si_normal s"
  "si_delivery (fst (finish_original s wakes)) = si_delivery s"
  "si_normal_overflow (fst (finish_original s wakes)) = si_normal_overflow s"
  "si_original_terminal (fst (finish_original s wakes)) = si_original_terminal s + 1"
  by (simp_all add: submission_defs Let_def)

lemma deliver_open:
  assumes "si_delivery s = DeliveryOpen" "\<not> si_normal_overflow s"
  shows "fst (deliver_original c s wakes) = (\<not> length (si_normal s) < si_limit s)"
    and "si_normal (fst (snd (deliver_original c s wakes)))
      = (if length (si_normal s) < si_limit s then si_normal s @ [c] else si_normal s)"
    and "si_delivery (fst (snd (deliver_original c s wakes)))
      = (if length (si_normal s) < si_limit s then DeliveryOpen else DeliveryOverflow)"
    and "si_normal_overflow (fst (snd (deliver_original c s wakes))) = (\<not> length (si_normal s) < si_limit s)"
    and "si_original_terminal (fst (snd (deliver_original c s wakes))) = si_original_terminal s"
  using assms by (simp_all add: submission_defs Let_def)

text \<open>
  C31: the completion of a submitted original reaches its open stream once and unaltered but for the user
  data, which is the caller's again: it is appended while there is room, and otherwise the first
  overflow closes delivery and asks for cancellation. The context survives exactly while further
  completions are announced or its cancellation is outstanding, and no other iterator is touched.
\<close>

theorem completion_delivered_exactly:
  assumes c: "hm_get (dd_contexts d) (cq_user_data cqe) = Some c" "cq_user_data cqe \<noteq> 0"
    and kind: "cx_kind c = CtxOriginal" "cx_phase c = CtxSubmitted"
    and st: "st = dd_states d (cx_state c)" "si_delivery st = DeliveryOpen" "\<not> si_normal_overflow st"
  shows "\<exists>d' wakes' st'. dispatch_raw L cqe d wakes
      = Return (if length (si_normal st) < si_limit st then None else Some (cx_state c), d', wakes')
    \<and> dd_states d' = (dd_states d)(cx_state c := st')
    \<and> (if length (si_normal st) < si_limit st
       then si_normal st' = si_normal st @ [\<lparr>cp_index = cx_index c, cp_cqe = cqe\<lparr>cq_user_data := cx_user_data c\<rparr>\<rparr>]
         \<and> si_delivery st' = DeliveryOpen
       else si_normal st' = si_normal st \<and> si_delivery st' = DeliveryOverflow \<and> si_normal_overflow st')
    \<and> si_original_terminal st' = si_original_terminal st + of_bool (\<not> rl_more L (cq_flags cqe))
    \<and> hm_get (dd_contexts d') (cq_user_data cqe) = (if rl_more L (cq_flags cqe) then Some c
        else if cx_cancel_queued c \<and> \<not> cx_cancel_seen c then Some (c\<lparr>cx_phase := CtxTerminal\<rparr>) else None)
    \<and> (\<forall>p. p \<noteq> cq_user_data cqe \<longrightarrow> hm_get (dd_contexts d') p = hm_get (dd_contexts d) p)"
proof -
  let ?cqe = "cqe\<lparr>cq_user_data := cx_user_data c\<rparr>" and ?p = "cq_user_data cqe" and ?m = "rl_more L (cq_flags cqe)"
  have "dispatch_raw L cqe d wakes
    = Return (dispatch_original ?cqe ?m ?p c (d\<lparr>dd_contexts := hm_remove ?p (dd_contexts d)\<rparr>) wakes)"
    using c kind by (simp add: dispatch_raw_def Let_def)
  moreover obtain st1 w1 where 1: "(if \<not> si_iterator_finished st then take_admission_waker st wakes else (st, wakes)) = (st1, w1)"
    by (rule prod.exhaust)
  moreover obtain over st2 w2
    where 2: "deliver_original \<lparr>cp_index = cx_index c, cp_cqe = ?cqe\<rparr> st1 w1 = (over, st2, w2)" by (rule prod_cases3)
  moreover obtain st3 w3 where 3: "finish_original st2 w2 = (st3, w3)" by (rule prod.exhaust)
  moreover have a: "si_normal st1 = si_normal st" "si_limit st1 = si_limit st" "si_delivery st1 = DeliveryOpen"
      "\<not> si_normal_overflow st1" "si_original_terminal st1 = si_original_terminal st"
    using 1 st buffers_kept [of st wakes] by (auto split: if_splits)
  moreover note deliver_open [OF a(3,4), of "\<lparr>cp_index = cx_index c, cp_cqe = ?cqe\<rparr>" w1] buffers_kept [of st2 w2]
  ultimately show ?thesis
    by (cases ?m) (auto simp: dispatch_original_def Let_def simp flip: st(1))
qed

theorem completion_delivered_exactly_witness:
  "\<exists>d' wakes'. dispatch_raw sample_ring \<lparr>cq_user_data = 64, cq_result = 5, cq_flags = 0, cq_extra = ()\<rparr>
     (us_data sample_admitted) [] = Return (None, d', wakes')
   \<and> si_normal (dd_states d' 0) = [\<lparr>cp_index = 0, cp_cqe = \<lparr>cq_user_data = 9, cq_result = 5, cq_flags = 0, cq_extra = ()\<rparr>\<rparr>]
   \<and> hm_get (dd_contexts d') 64 = None"
proof -
  let ?c = "\<lparr>cq_user_data = 64, cq_result = 5, cq_flags = 0, cq_extra = ()\<rparr>"
  have "hm_get (dd_contexts (us_data sample_admitted)) (cq_user_data ?c) = Some sample_context"
    "cq_user_data ?c \<noteq> 0" "cx_kind sample_context = CtxOriginal" "cx_phase sample_context = CtxSubmitted"
    "sample_state 1 0 [] = dd_states (us_data sample_admitted) (cx_state sample_context)"
    "si_delivery (sample_state 1 0 []) = DeliveryOpen" "\<not> si_normal_overflow (sample_state 1 0 [])"
    by (simp_all add: sample_defs)
  from completion_delivered_exactly [OF this, of sample_ring "[]"] show ?thesis
    by (auto simp: sample_state_def submission_new_def sample_context_def)
qed

text \<open>
  A completed operation is never missed: its future may be polled any number of times, with any
  wakers, before the driver publishes; the publication then hands out exactly the waker of the last
  poll, and the next poll takes the published result.
\<close>

theorem owned_completion_never_missed:
  assumes "\<not> os_completed s" "ws \<noteq> []"
  shows "\<exists>t. poll_all (owned_cell_poll (\<lambda>s. s) (\<lambda>s. s)) ws s = Return t
    \<and> fst (store_and_publish v t) = Some (last ws)
    \<and> owned_cell_poll (\<lambda>s. s) (\<lambda>s. s) w (snd (store_and_publish v t))
        = Return (Ready v, (snd (store_and_publish v t))\<lparr>os_result := None\<rparr>)"
proof -
  from assms have "owned_open s" by (simp add: owned_open_def)
  from owned_cell.poll_all_registers [OF this, of ws] assms(2) obtain t
    where "poll_all (owned_cell_poll (\<lambda>s. s) (\<lambda>s. s)) ws s = Return t" "os_waker t = Some (last ws)" by auto
  then show ?thesis by (auto simp: owned_cell_poll_eq)
qed

theorem owned_completion_never_missed_witness:
  "\<exists>t. poll_all (owned_cell_poll (\<lambda>s. s) (\<lambda>s. s)) [4, 6] (owned_state_new :: i32 OwnedState) = Return t
    \<and> fst (store_and_publish 5 t) = Some 6"
proof -
  have "\<not> os_completed (owned_state_new :: i32 OwnedState)" by (simp add: owned_state_new_def)
  from owned_completion_never_missed [OF this, of "[4, 6]" 5 0] show ?thesis by (auto simp del: poll_all.simps)
qed

text \<open>
  The end of a completion stream does not prove that its originals are terminal. When the runtime
  shuts down it detaches every iterator; the stream then reports its end, without an error, while
  an original that the kernel has accepted is still under way.
\<close>

lemma queue_cancels_states: "queue_cancels ps d k = Return (d', k') \<Longrightarrow> dd_states d' = dd_states d"
  by (induction ps arbitrary: d k) (auto simp: Let_def split: option.splits if_splits)

theorem shutdown_ends_stream_early:
  assumes inv: "driver_inv d" and "hm_get (dd_contexts d) p = Some c" "cx_kind c = CtxOriginal"
    and "cx_phase c = CtxSubmitted" "cx_state c = i" "\<not> si_normal_overflow (dd_states d i)"
  shows "\<exists>d' c'. request_cancel i DeliveryDetached d = Return d'
    \<and> next_completion_poll k (dd_states d' i) = (Ready None, dd_states d' i)
    \<and> hm_get (dd_contexts d') p = Some c' \<and> cx_phase c' = CtxSubmitted \<and> cx_kind c' = CtxOriginal"
proof -
  obtain d' where r: "request_cancel i DeliveryDetached d = Return d'"
    and ctx: "hm_get (dd_contexts d') p = map_option (\<lambda>c. if cancellable i c then c\<lparr>cx_cancel_queued := True\<rparr> else c)
        (hm_get (dd_contexts d) p)"
    by (rule request_cancel_inv [OF inv, of DeliveryDetached i]) simp_all
  let ?d = "set_state i (close_delivery DeliveryDetached (dd_states d i)) d"
  from r obtain d1 ks where q: "queue_cancels (cancel_targets i ?d) ?d [] = Return (d1, ks)"
    and d': "dd_states d' i = (if ks = [] then dd_states d1 i
      else (dd_states d1 i)\<lparr>si_cancels := si_cancels (dd_states d1 i) + length ks\<rparr>)"
    by (fastforce simp: request_cancel_def Let_def)
  have "next_completion_poll k (dd_states d' i) = (Ready None, dd_states d' i)"
    using assms(6) queue_cancels_states [OF q]
    by (auto simp: d' next_completion_poll_def close_delivery_def discard_delivery_def)
  with r ctx assms(2-4) show ?thesis by auto
qed

theorem shutdown_ends_stream_early_witness:
  "\<exists>d'. request_cancel 0 DeliveryDetached (us_data sample_admitted) = Return d'
    \<and> next_completion_poll 3 (dd_states d' 0) = (Ready None, dd_states d' 0)
    \<and> (\<exists>c'. hm_get (dd_contexts d') 64 = Some c' \<and> cx_phase c' = CtxSubmitted)"
proof -
  have run: "uring_steps sample_env sample_start sample_admitted" using sample_run_admitted .
  have inv: "driver_inv (us_data sample_admitted)"
    using uring_inv_steps [OF sample_laws run sample_init] by (simp add: uring_inv_def)
  have "hm_get (dd_contexts (us_data sample_admitted)) 64 = Some sample_context" "cx_kind sample_context = CtxOriginal"
    "cx_phase sample_context = CtxSubmitted" "cx_state sample_context = 0"
    "\<not> si_normal_overflow (dd_states (us_data sample_admitted) 0)"
    by (simp_all add: sample_defs)
  from shutdown_ends_stream_early [OF inv this, of 3] show ?thesis by blast
qed

end
