(* ===== verification/Uring_Staging.thy ===== *)
theory Uring_Staging
  imports Uring_Properties
begin

text \<open>
  The order in which \<open>stage_owned\<close> of \<open>src/io_uring.rs\<close> takes requests: the list of requests put back
  for lack of space and the lock-free queue behind it are one queue, served first in first out.
\<close>

section \<open>The specification\<close>

text \<open>Why a request is refused instead of staged, if it is.\<close>

definition owned_refusal ::
  "('w, 's, 'r, 'v) op_work_scheme \<Rightarrow> bool list \<Rightarrow> 'r owned_store \<Rightarrow> bool \<Rightarrow> 'w TypedHandler QueuedOwnedOp
    \<Rightarrow> OwnedFailure option" where
  "owned_refusal W supported m shutdown op =
    (if shutdown then Some OwnedClosed
     else if os_cancelled (m (qo_control op)) then Some OwnedCancelled
     else if \<not> opcode_supported supported (ow_opcode W (th_work (qo_handler op))) then Some OwnedUnsupported
     else None)"

definition staged_context :: "'w TypedHandler QueuedOwnedOp \<Rightarrow> 'w TypedHandler OwnedCqeContext" where
  "staged_context op = \<lparr>oc_phase = CtxStaged, oc_control = qo_control op, oc_handler = Some (qo_handler op),
     oc_cancel_queued = False, oc_cancel_seen = False\<rparr>"

definition staged_entry :: "('w, 's, 'r, 'v) op_work_scheme \<Rightarrow> u64 \<Rightarrow> 'w TypedHandler QueuedOwnedOp \<Rightarrow> 's sqe" where
  "staged_entry W p op = \<lparr>sq_user_data = p, sq_body = ow_entry W (th_work (qo_handler op))\<rparr>"

fun push_all :: "('q, 's, 'x, 'z) ring_lib_scheme \<Rightarrow> 's sqe list \<Rightarrow> 'q \<Rightarrow> 'q option" where
  "push_all L [] q = Some q"
| "push_all L (e # es) q = (case rl_push L e q of None \<Rightarrow> None | Some q \<Rightarrow> push_all L es q)"

definition refused ::
  "('w TypedHandler QueuedOwnedOp \<Rightarrow> OwnedFailure option) \<Rightarrow> 'w TypedHandler QueuedOwnedOp list
    \<Rightarrow> ('w TypedHandler \<times> OwnedFailure) list" where
  "refused reason ops = concat (map (\<lambda>op. case reason op of None \<Rightarrow> [] | Some r \<Rightarrow> [(qo_handler op, r)]) ops)"

definition accepted ::
  "('w TypedHandler QueuedOwnedOp \<Rightarrow> OwnedFailure option) \<Rightarrow> 'w TypedHandler QueuedOwnedOp list
    \<Rightarrow> 'w TypedHandler QueuedOwnedOp list" where
  "accepted reason ops = filter (\<lambda>op. reason op = None) ops"

text \<open>The requests \<open>ops\<close> are staged under the addresses \<open>ps\<close>, in this order.\<close>

definition staged_under ::
  "('q, 's, 'x, 'z) ring_lib_scheme \<Rightarrow> ('w, 's, 'r, 'v) op_work_scheme \<Rightarrow> u64 list \<Rightarrow> 'w TypedHandler QueuedOwnedOp list
    \<Rightarrow> ('x, 'w) owned_data \<times> 'q \<Rightarrow> ('x, 'w) owned_data \<times> 'q \<Rightarrow> bool" where
  "staged_under L W ps ops = (\<lambda>(d, q) (d', q').
     length ps = length ops \<and> distinct ps \<and> (\<forall>p \<in> set ps. hm_get (dd_owned_contexts d) p = None)
     \<and> dd_staged d' = dd_staged d @ map StagedOwned ps
     \<and> (\<forall>p. hm_get (dd_owned_contexts d') p = (case map_of (zip ps ops) p of
           Some op \<Rightarrow> Some (staged_context op) | None \<Rightarrow> hm_get (dd_owned_contexts d) p))
     \<and> push_all L (map2 (staged_entry W) ps ops) q = Some q')"

text \<open>Staging stops before its budget is used only when nothing waits, or the ring has no room for the next request.\<close>

definition may_stop ::
  "('q, 's, 'x, 'z) ring_lib_scheme \<Rightarrow> ('w, 's, 'r, 'v) op_work_scheme
    \<Rightarrow> ('w TypedHandler QueuedOwnedOp \<Rightarrow> OwnedFailure option) \<Rightarrow> 'w TypedHandler QueuedOwnedOp list \<Rightarrow> 'q \<Rightarrow> bool" where
  "may_stop L W reason waiting q \<longleftrightarrow> (case waiting of [] \<Rightarrow> True
     | op # _ \<Rightarrow> reason op = None \<and> (\<exists>p. rl_push L (staged_entry W p op) q = None))"

section \<open>The proof\<close>

lemma refused_simps [simp]:
  "refused reason [] = []"
  "refused reason (op # ops) = (case reason op of None \<Rightarrow> [] | Some r \<Rightarrow> [(qo_handler op, r)]) @ refused reason ops"
  by (simp_all add: refused_def)

lemma accepted_simps [simp]:
  "accepted reason [] = []"
  "accepted reason (op # ops) = (if reason op = None then op # accepted reason ops else accepted reason ops)"
  by (simp_all add: accepted_def)

lemma next_owned_fifo:
  assumes "ubq_fifo Q \<alpha>" "next_owned Q (d, u) = (op, d', u')"
  shows "\<exists>rest. d' = d\<lparr>dd_owned_pending := rest\<rparr>
    \<and> dd_owned_pending d @ \<alpha> u = (case op of None \<Rightarrow> [] | Some x \<Rightarrow> [x]) @ rest @ \<alpha> u'
    \<and> (op = None \<longrightarrow> rest = [] \<and> \<alpha> u' = [])"
proof (cases "dd_owned_pending d")
  case Nil
  have "case ubq_pop Q u of (None, u') \<Rightarrow> \<alpha> u = [] \<and> \<alpha> u' = [] | (Some x, u') \<Rightarrow> \<alpha> u = x # \<alpha> u'"
    using assms(1) by (simp add: ubq_fifo_def)
  with assms(2) Nil show ?thesis
    by (cases d) (auto simp: next_owned_def split: prod.splits option.splits)
next
  case (Cons x xs)
  with assms(2) show ?thesis by (auto simp: next_owned_def intro!: exI [of _ xs])
qed

lemma staged_under_Nil:
  "dd_staged d' = dd_staged d \<Longrightarrow> dd_owned_contexts d' = dd_owned_contexts d \<Longrightarrow> staged_under L W [] [] (d, q) (d', q)"
  by (simp add: staged_under_def)

lemma staged_under_cong:
  "dd_staged d1 = dd_staged d \<Longrightarrow> dd_owned_contexts d1 = dd_owned_contexts d
    \<Longrightarrow> staged_under L W ps ops (d1, q) x \<longleftrightarrow> staged_under L W ps ops (d, q) x"
  by (cases x) (simp add: staged_under_def cong: option.case_cong)

lemma staged_under_Cons:
  assumes "hm_get (dd_owned_contexts d) p = None" "rl_push L (staged_entry W p op) q = Some q1"
    and "dd_owned_contexts d1 = hm_insert p (staged_context op) (dd_owned_contexts d)"
    and "dd_staged d1 = dd_staged d @ [StagedOwned p]" "staged_under L W ps ops (d1, q1) (d', q')"
  shows "staged_under L W (p # ps) (op # ops) (d, q) (d', q')"
proof -
  from assms(5) have n: "\<forall>r \<in> set ps. hm_get (dd_owned_contexts d1) r = None" by (simp add: staged_under_def)
  then have p: "p \<notin> set ps" by (auto simp: assms(3))
  have "\<forall>r \<in> set ps. hm_get (dd_owned_contexts d) r = None"
  proof
    fix r
    assume "r \<in> set ps"
    with n p have "hm_get (hm_insert p (staged_context op) (dd_owned_contexts d)) r = None" "r \<noteq> p" by (auto simp: assms(3))
    then show "hm_get (dd_owned_contexts d) r = None" by simp
  qed
  moreover have none: "map_of (zip ps ops) p = None"
    using p assms(5) by (auto simp: staged_under_def map_of_eq_None_iff dest: set_zip_leftD)
  have "hm_get (dd_owned_contexts d') r = (case map_of (zip (p # ps) (op # ops)) r of
      Some op \<Rightarrow> Some (staged_context op) | None \<Rightarrow> hm_get (dd_owned_contexts d) r)" for r
  proof -
    from assms(5) have "hm_get (dd_owned_contexts d') r = (case map_of (zip ps ops) r of
        Some op \<Rightarrow> Some (staged_context op) | None \<Rightarrow> hm_get (dd_owned_contexts d1) r)" by (simp add: staged_under_def)
    with none show ?thesis by (cases "r = p") (simp_all add: assms(3) split: option.split)
  qed
  ultimately show ?thesis using assms p by (simp add: staged_under_def)
qed

lemma stage_owned_fifo:
  "ubq_fifo Q \<alpha> \<Longrightarrow> stage_owned L Q W supported m n failed ((d, u), q) = Return (failed', (d', u'), q')
    \<Longrightarrow> reason = owned_refusal W supported m (dd_shutdown d)
    \<Longrightarrow> \<exists>taken ps. dd_owned_pending d @ \<alpha> u = taken @ dd_owned_pending d' @ \<alpha> u' \<and> length taken \<le> n
      \<and> failed' = failed @ refused reason taken \<and> staged_under L W ps (accepted reason taken) (d, q) (d', q')
      \<and> (length taken < n \<longrightarrow> may_stop L W reason (dd_owned_pending d' @ \<alpha> u') q')"
proof (induction n arbitrary: failed d u q)
  case 0
  then show ?case by (auto intro!: exI [of _ "[]"] staged_under_Nil)
next
  case (Suc n)
  obtain op d1 u1 where nx: "next_owned Q (d, u) = (op, d1, u1)" by (metis prod.exhaust)
  from next_owned_fifo [OF Suc.prems(1) nx] obtain rest where d1: "d1 = d\<lparr>dd_owned_pending := rest\<rparr>"
    and wait: "dd_owned_pending d @ \<alpha> u = (case op of None \<Rightarrow> [] | Some x \<Rightarrow> [x]) @ rest @ \<alpha> u1"
    and none: "op = None \<longrightarrow> rest = [] \<and> \<alpha> u1 = []" by blast
  show ?case
  proof (cases op)
    case None
    with Suc.prems(2) nx d1 wait none show ?thesis
      by (auto simp: may_stop_def intro!: exI [of _ "[]"] staged_under_Nil)
  next
    case (Some x)
    let ?h = "qo_handler x"
    show ?thesis
    proof (cases "reason x")
      case r: (Some why)
      then have "stage_owned L Q W supported m (Suc n) failed ((d, u), q)
          = stage_owned L Q W supported m n (failed @ [(?h, why)]) ((d1, u1), q)"
        using nx Some Suc.prems(3) d1 by (auto simp: owned_refusal_def Let_def split: if_splits)
      with Suc.prems(2) have "stage_owned L Q W supported m n (failed @ [(?h, why)]) ((d1, u1), q) = Return (failed', (d', u'), q')"
        by simp
      from Suc.IH [OF Suc.prems(1) this] Suc.prems(3) d1 obtain taken ps
        where t: "rest @ \<alpha> u1 = taken @ dd_owned_pending d' @ \<alpha> u'" "length taken \<le> n"
          "failed' = (failed @ [(?h, why)]) @ refused reason taken" "staged_under L W ps (accepted reason taken) (d1, q) (d', q')"
          "length taken < n \<longrightarrow> may_stop L W reason (dd_owned_pending d' @ \<alpha> u') q'" by auto
      then show ?thesis
        using wait Some r staged_under_cong [of d1 d L W ps "accepted reason taken" q] d1
        by (intro exI [of _ "x # taken"] exI [of _ ps]) simp
    next
      case r: None
      then have stages: "\<not> dd_shutdown d" "\<not> os_cancelled (m (qo_control x))" "opcode_supported supported (ow_opcode W (th_work ?h))"
        using Suc.prems(3) by (auto simp: owned_refusal_def split: if_splits)
      have go: "stage_owned L Q W supported m (Suc n) failed ((d, u), q) = (case rl_alloc L (live_pointers d1) of
             None \<Rightarrow> Abort ''memory allocation failed''
           | Some p \<Rightarrow>
               if context_pointer_in_use d1 p then Abort ''reused live owned context pointer''
               else (case rl_push L (staged_entry W p x) q of
                 None \<Rightarrow> Return (failed, (d1\<lparr>dd_owned_pending := x # dd_owned_pending d1\<rparr>, u1), q)
               | Some q \<Rightarrow>
                   stage_owned L Q W supported m n failed
                     ((d1\<lparr>dd_owned_contexts := hm_insert p (staged_context x) (dd_owned_contexts d1),
                          dd_staged := dd_staged d1 @ [StagedOwned p]\<rparr>, u1), q)))"
        using nx Some stages d1 by (simp add: staged_entry_def staged_context_def Let_def split: option.split)
      with Suc.prems(2) obtain p where p: "rl_alloc L (live_pointers d1) = Some p" "\<not> context_pointer_in_use d1 p"
        by (auto split: option.splits if_splits)
      then have fresh: "hm_get (dd_owned_contexts d) p = None"
        by (simp add: context_pointer_in_use_def hm_contains_def d1)
      show ?thesis
      proof (cases "rl_push L (staged_entry W p x) q")
        case None
        with go p Suc.prems(2) r wait Some d1 show ?thesis
          by (auto simp: may_stop_def intro!: exI [of _ "[]"] staged_under_Nil)
      next
        case (Some q1)
        let ?d2 = "d1\<lparr>dd_owned_contexts := hm_insert p (staged_context x) (dd_owned_contexts d1),
            dd_staged := dd_staged d1 @ [StagedOwned p]\<rparr>"
        from go p Some Suc.prems(2) have "stage_owned L Q W supported m n failed ((?d2, u1), q1) = Return (failed', (d', u'), q')"
          by simp
        from Suc.IH [OF Suc.prems(1) this] Suc.prems(3) d1 obtain taken ps
          where t: "rest @ \<alpha> u1 = taken @ dd_owned_pending d' @ \<alpha> u'" "length taken \<le> n"
            "failed' = failed @ refused reason taken" "staged_under L W ps (accepted reason taken) (?d2, q1) (d', q')"
            "length taken < n \<longrightarrow> may_stop L W reason (dd_owned_pending d' @ \<alpha> u') q'" by auto
        have "staged_under L W (p # ps) (x # accepted reason taken) (d, q) (d', q')"
          by (rule staged_under_Cons [OF fresh Some _ _ t(4)]) (simp_all add: d1)
        with t wait \<open>op = Some x\<close> r show ?thesis
          by (intro exI [of _ "x # taken"] exI [of _ "p # ps"]) simp
      qed
    qed
  qed
qed

section \<open>Property\<close>

text \<open>
  C29: staging is first in first out over the requests put back and the lock-free queue behind them.
  Within its budget it takes a prefix of what waits, hands the refused ones to the failing section in
  their order and with the first reason that applies, and stages the others in their order, each under
  a fresh address that carries its handler and its entry. It stops early only when nothing waits any
  more or the ring has no room, and then the request that found none stays the first in line.
\<close>

theorem staging_is_fifo:
  assumes "ubq_fifo Q \<alpha>" "stage_owned L Q W supported m n [] ((d, u), q) = Return (failed, (d', u'), q')"
  shows "\<exists>taken ps. dd_owned_pending d @ \<alpha> u = taken @ dd_owned_pending d' @ \<alpha> u' \<and> length taken \<le> n
    \<and> failed = refused (owned_refusal W supported m (dd_shutdown d)) taken
    \<and> staged_under L W ps (accepted (owned_refusal W supported m (dd_shutdown d)) taken) (d, q) (d', q')
    \<and> (length taken < n \<longrightarrow> may_stop L W (owned_refusal W supported m (dd_shutdown d)) (dd_owned_pending d' @ \<alpha> u') q')"
  using stage_owned_fifo [OF assms refl] by simp

text \<open>Two requests wait, the first one cancelled; the second one is staged.\<close>

theorem staging_is_fifo_witness:
  "\<exists>taken ps. [sample_op\<lparr>qo_control := 5\<rparr>, sample_op] = taken \<and> ps = [64]
    \<and> refused (owned_refusal sample_work [True] ((\<lambda>_. owned_state_new)(5 := owned_state_new\<lparr>os_cancelled := True\<rparr>)) False) taken
      = [(qo_handler sample_op, OwnedCancelled)]
    \<and> staged_under sample_ring sample_work ps [sample_op] (driver_data_new, []) (sample_data CtxStaged, [\<lparr>sq_user_data = 64, sq_body = ()\<rparr>])"
proof -
  let ?m = "(\<lambda>_. owned_state_new)(5 := owned_state_new\<lparr>os_cancelled := True\<rparr>)"
  have run: "stage_owned sample_ring list_ubq sample_work [True] ?m 4 [] ((driver_data_new, [sample_op\<lparr>qo_control := 5\<rparr>, sample_op]), [])
    = Return ([(qo_handler sample_op, OwnedCancelled)], (sample_data CtxStaged, []), [\<lparr>sq_user_data = 64, sq_body = ()\<rparr>])"
    by (simp add: eval_nat_numeral next_owned_def driver_data_new_def sample_data_def sample_op_def Let_def
        owned_state_new_def opcode_supported_def live_pointers_def context_pointer_in_use_def hm_contains_def
        hm_insert_def hm_remove_def)
  from staging_is_fifo [OF ubq_fifo_list run] obtain taken ps
    where t: "[sample_op\<lparr>qo_control := 5\<rparr>, sample_op] = taken" "[(qo_handler sample_op, OwnedCancelled)]
        = refused (owned_refusal sample_work [True] ?m False) taken"
      "staged_under sample_ring sample_work ps (accepted (owned_refusal sample_work [True] ?m False) taken)
        (driver_data_new, []) (sample_data CtxStaged, [\<lparr>sq_user_data = 64, sq_body = ()\<rparr>])"
    by (auto simp: driver_data_new_def sample_data_def)
  have "accepted (owned_refusal sample_work [True] ?m False) taken = [sample_op]"
    by (simp add: t(1) [symmetric] owned_refusal_def sample_op_def owned_state_new_def opcode_supported_def)
  with t(3) have s: "staged_under sample_ring sample_work ps [sample_op] (driver_data_new, [])
      (sample_data CtxStaged, [\<lparr>sq_user_data = 64, sq_body = ()\<rparr>])" by simp
  then have "ps = [64]" by (auto simp: staged_under_def driver_data_new_def sample_data_def)
  with t s show ?thesis by metis
qed

end
