(* ===== verification/Timer.thy ===== *)
theory Timer
  imports Driver_Gate Join_State
begin

text \<open>
  \<open>src/time.rs\<close>: timer states, the heap of deadlines, the timer driver with its service loop, and
  the futures \<open>Sleep\<close> and \<open>Timeout\<close>. An instant is its number of nanoseconds since the start of the
  monotonic clock. A \<open>TimerState\<close> is shared by a sleep and a heap entry: both hold its index into
  the store \<open>tw_states\<close>. \<open>BinaryHeap\<close> is the list of its entries, greatest first, under the order
  that the code defines on entries.
\<close>

section \<open>State\<close>

record TimerState =
  ts_fired :: bool
  ts_cancelled :: bool
  ts_waiter :: "waker option"

text \<open>The two fields of an entry that \<open>Ord\<close> compares, both reversed.\<close>

datatype timer_key = TimerKey (tk_deadline: nat) (tk_id: u64)

definition timer_key_le :: "timer_key \<Rightarrow> timer_key \<Rightarrow> bool" where
  "timer_key_le a b \<longleftrightarrow> tk_deadline b < tk_deadline a
    \<or> tk_deadline b = tk_deadline a \<and> tk_id b \<le> tk_id a"

instantiation timer_key :: linorder
begin

definition less_eq_timer_key :: "timer_key \<Rightarrow> timer_key \<Rightarrow> bool" where
  "less_eq_timer_key = timer_key_le"

definition less_timer_key :: "timer_key \<Rightarrow> timer_key \<Rightarrow> bool" where
  "less_timer_key a b \<longleftrightarrow> a \<le> b \<and> \<not> b \<le> (a :: timer_key)"

instance
  by standard (auto simp: less_eq_timer_key_def timer_key_le_def less_timer_key_def intro: timer_key.expand)

end

record TimerEntry =
  te_key :: timer_key
  te_state :: nat

abbreviation te_deadline :: "TimerEntry \<Rightarrow> nat" where
  "te_deadline e \<equiv> tk_deadline (te_key e)"

type_synonym timer_heap = "TimerEntry list"

record TimerDriver =
  td_timers :: timer_heap
  td_shutdown :: bool
  td_gate :: DriverGate
  td_next_id :: u64
  td_completed :: bool

text \<open>The driver, the shared timer states, the log of native calls and the wakers called so far.\<close>

record TimerWorld =
  tw_driver :: TimerDriver
  tw_states :: "nat \<Rightarrow> TimerState"
  tw_log :: nlog
  tw_woken :: "waker list"

definition timer_state_new :: TimerState where
  "timer_state_new = \<lparr>ts_fired = False, ts_cancelled = False, ts_waiter = None\<rparr>"

definition timer_driver_new :: TimerDriver where
  "timer_driver_new = \<lparr>td_timers = [], td_shutdown = False, td_gate = driver_gate_new,
     td_next_id = 1, td_completed = False\<rparr>"

section \<open>The heap\<close>

fun heap_push :: "TimerEntry \<Rightarrow> timer_heap \<Rightarrow> timer_heap" where
  "heap_push e [] = [e]"
| "heap_push e (x # xs) = (if te_key x \<le> te_key e then e # x # xs else x # heap_push e xs)"

definition heap_ok :: "timer_heap \<Rightarrow> bool" where
  "heap_ok hp \<longleftrightarrow> sorted_wrt (\<lambda>a b. te_key b \<le> te_key a) hp"

section \<open>One shared timer state\<close>

definition ts_cancel :: "TimerState \<Rightarrow> TimerState" where
  "ts_cancel st = st\<lparr>ts_cancelled := True, ts_waiter := None\<rparr>"

text \<open>What the driver does to an expired entry that is not cancelled.\<close>

definition ts_fire :: "TimerState \<Rightarrow> waker option \<times> TimerState" where
  "ts_fire st = (let (waiter, slot) = option_take (ts_waiter st)
     in (waiter, st\<lparr>ts_fired := True, ts_waiter := slot\<rparr>))"

text \<open>The first block of \<open>Sleep::poll\<close>.\<close>

definition ts_poll :: "bool \<Rightarrow> waker \<Rightarrow> TimerState \<Rightarrow> (unit, unit) polled \<times> TimerState" where
  "ts_poll expired w st =
    (if ts_fired st \<or> expired then (Ready (), st\<lparr>ts_fired := True\<rparr>)
     else if (case ts_waiter st of None \<Rightarrow> True | Some old \<Rightarrow> old \<noteq> w)
       then (Pending, st\<lparr>ts_waiter := Some w\<rparr>)
       else (Pending, st))"

section \<open>Driver operations\<close>

definition tw_gate_step ::
  "(DriverGate \<times> nlog \<Rightarrow> (DriverGate \<times> nlog) exec) \<Rightarrow> TimerWorld \<Rightarrow> TimerWorld exec" where
  "tw_gate_step f w = exec_bind (f (td_gate (tw_driver w), tw_log w))
     (\<lambda>(g, h). Return (w\<lparr>tw_driver := (tw_driver w)\<lparr>td_gate := g\<rparr>, tw_log := h\<rparr>))"

definition timer_start ::
  "'z nosv_scheme \<Rightarrow> RawTaskType \<Rightarrow> nlog \<Rightarrow> (TimerDriver, NativeError) rust_result \<times> nlog" where
  "timer_start N tt h =
    (case driver_start N tt h of
       (Inl e, h) \<Rightarrow> (Err e, h)
     | (Inr g, h) \<Rightarrow> (Ok (timer_driver_new\<lparr>td_gate := g\<rparr>), h))"

definition timer_register :: "'z nosv_scheme \<Rightarrow> nat \<Rightarrow> nat \<Rightarrow> TimerWorld \<Rightarrow> TimerWorld exec" where
  "timer_register N deadline sref w =
    (let d = tw_driver w; i = td_next_id d; d = d\<lparr>td_next_id := i + 1\<rparr> in
     if i = - 1 then Abort ''timer identifier exhausted''
     else if td_shutdown d then
       Return (w\<lparr>tw_driver := d, tw_states := (tw_states w)(sref := ts_cancel (tw_states w sref))\<rparr>)
     else tw_gate_step (timer_notify N)
       (w\<lparr>tw_driver := d\<lparr>td_timers :=
            heap_push \<lparr>te_key = TimerKey deadline i, te_state = sref\<rparr> (td_timers d)\<rparr>\<rparr>))"

text \<open>The two loops over the heap in one pass: expired entries, then stale ones at the top.\<close>

fun pop_due ::
  "nat \<Rightarrow> timer_heap \<Rightarrow> (nat \<Rightarrow> TimerState) \<Rightarrow> waker list
    \<Rightarrow> timer_heap \<times> (nat \<Rightarrow> TimerState) \<times> waker list" where
  "pop_due now [] st wake = ([], st, wake)"
| "pop_due now (e # hp) st wake =
    (if te_deadline e \<le> now then
       (if \<not> ts_cancelled (st (te_state e)) then
          (case ts_fire (st (te_state e)) of (waiter, s) \<Rightarrow>
             pop_due now hp (st(te_state e := s)) (push_waker waiter wake))
        else pop_due now hp st wake)
     else (e # hp, st, wake))"

fun pop_stale :: "(nat \<Rightarrow> TimerState) \<Rightarrow> timer_heap \<Rightarrow> timer_heap" where
  "pop_stale st [] = []"
| "pop_stale st (e # hp) = (if ts_cancelled (st (te_state e)) then pop_stale st hp else e # hp)"

fun cancel_all :: "timer_heap \<Rightarrow> (nat \<Rightarrow> TimerState) \<Rightarrow> nat \<Rightarrow> TimerState" where
  "cancel_all [] st = st"
| "cancel_all (e # hp) st = cancel_all hp (st(te_state e := ts_cancel (st (te_state e))))"

definition timer_data_pass :: "nat \<Rightarrow> TimerWorld \<Rightarrow> nat option \<times> waker list \<times> TimerWorld" where
  "timer_data_pass now w =
    (let d = tw_driver w in
     if td_shutdown d then
       (None, [], w\<lparr>tw_driver := d\<lparr>td_timers := []\<rparr>,
                    tw_states := cancel_all (td_timers d) (tw_states w)\<rparr>)
     else
       (case pop_due now (td_timers d) (tw_states w) [] of (hp, st, wake) \<Rightarrow>
          let hp = pop_stale st hp;
              wait = (case hp of [] \<Rightarrow> None | e # _ \<Rightarrow> Some (saturating_sub (te_deadline e) now))
          in (wait, wake, w\<lparr>tw_driver := d\<lparr>td_timers := hp\<rparr>, tw_states := st\<rparr>)))"

text \<open>The first half of \<open>shutdown_and_wait\<close>; the second half waits for \<open>td_completed\<close>.\<close>

definition timer_request_shutdown :: "'z nosv_scheme \<Rightarrow> TimerWorld \<Rightarrow> TimerWorld exec" where
  "timer_request_shutdown N w =
    tw_gate_step (timer_notify N) (w\<lparr>tw_driver := (tw_driver w)\<lparr>td_shutdown := True\<rparr>\<rparr>)"

definition timer_retire :: "'z nosv_scheme \<Rightarrow> TimerWorld \<Rightarrow> TimerWorld exec" where
  "timer_retire N w = exec_bind (tw_gate_step (timer_gate_retire N) w)
     (\<lambda>w. Return (w\<lparr>tw_driver := (tw_driver w)\<lparr>td_completed := True\<rparr>\<rparr>))"

section \<open>Sleeping\<close>

text \<open>\<open>sl_driver\<close> says whether the sleep has been registered with the driver.\<close>

record Sleep =
  sl_deadline :: nat
  sl_state :: nat
  sl_driver :: bool

definition sleep_until :: "nat \<Rightarrow> nat \<Rightarrow> Sleep" where
  "sleep_until deadline sref = \<lparr>sl_deadline = deadline, sl_state = sref, sl_driver = False\<rparr>"

text \<open>
  \<open>imax\<close> is the largest instant the clock can represent; the clock is read again for the fallback.
\<close>

definition far_future :: "nat \<Rightarrow> nat \<Rightarrow> nat exec" where
  "far_future imax now =
    (let t = now + 100 * 365 * 24 * 60 * 60 * 1000000000 in
     if t \<le> imax then Return t else Panic ''overflow when adding duration to instant'')"

definition sleep :: "nat \<Rightarrow> nat \<Rightarrow> nat \<Rightarrow> nat \<Rightarrow> nat \<Rightarrow> Sleep exec" where
  "sleep imax now now' duration sref =
    exec_bind (if now + duration \<le> imax then Return (now + duration) else far_future imax now')
      (\<lambda>deadline. Return (sleep_until deadline sref))"

text \<open>\<open>current\<close> is the core of the current handle, \<open>None\<close> outside a runtime.\<close>

definition sleep_poll ::
  "'z nosv_scheme \<Rightarrow> 'tc RuntimeCore option \<Rightarrow> int \<Rightarrow> nat \<Rightarrow> waker \<Rightarrow> Sleep \<times> TimerWorld
    \<Rightarrow> ((unit, unit) polled \<times> Sleep \<times> TimerWorld) exec" where
  "sleep_poll N current getpid now w = (\<lambda>(sl, tw).
    (case ts_poll (sl_deadline sl \<le> now) w (tw_states tw (sl_state sl)) of (p, st) \<Rightarrow>
      let tw = tw\<lparr>tw_states := (tw_states tw)(sl_state sl := st)\<rparr> in
      if p = Ready () then Return (Ready (), sl, tw)
      else if \<not> sl_driver sl then
        (case current of
           None \<Rightarrow> Panic ''nosv::time::Sleep polled outside a runtime''
         | Some core \<Rightarrow>
             (case ensure_running core getpid of
                Inl _ \<Rightarrow> Panic ''nosv::time::Sleep polled through a closed or fork-inherited runtime''
              | Inr _ \<Rightarrow>
                  exec_bind (timer_register N (sl_deadline sl) (sl_state sl) tw)
                    (\<lambda>tw. Return (Pending, sl\<lparr>sl_driver := True\<rparr>, tw))))
      else Return (Pending, sl, tw)))"

definition sleep_drop :: "'z nosv_scheme \<Rightarrow> Sleep \<Rightarrow> TimerWorld \<Rightarrow> TimerWorld exec" where
  "sleep_drop N sl tw =
    (let tw = tw\<lparr>tw_states := (tw_states tw)(sl_state sl := ts_cancel (tw_states tw (sl_state sl)))\<rparr> in
     if sl_driver sl then tw_gate_step (timer_notify N) tw else Return tw)"

datatype Elapsed = Elapsed

definition elapsed_fmt :: string where
  "elapsed_fmt = ''deadline elapsed''"

text \<open>
  \<open>Timeout::poll\<close> on the outcome of polling the operation; a panic of the operation unwinds.
\<close>

definition timeout_poll ::
  "('a, 'p) polled \<Rightarrow> (Sleep \<times> TimerWorld \<Rightarrow> ((unit, unit) polled \<times> Sleep \<times> TimerWorld) exec)
    \<Rightarrow> Sleep \<times> TimerWorld \<Rightarrow> (('a + Elapsed, 'p) polled \<times> Sleep \<times> TimerWorld) exec" where
  "timeout_poll op poll_sleep s =
    (case op of
       Ready output \<Rightarrow> Return (Ready (Inl output), s)
     | Panicked q \<Rightarrow> Return (Panicked q, s)
     | Pending \<Rightarrow> exec_bind (poll_sleep s) (\<lambda>(p, s).
         Return (if p = Ready () then Ready (Inr Elapsed) else Pending, s)))"

section \<open>The service loop\<close>

text \<open>What other threads can do to the driver between the critical sections of its loop.\<close>

datatype timer_req = ReqRegister nat nat | ReqNotify | ReqDrop Sleep | ReqShutdown

fun timer_request :: "'z nosv_scheme \<Rightarrow> timer_req \<Rightarrow> TimerWorld \<Rightarrow> TimerWorld exec" where
  "timer_request N (ReqRegister deadline sref) w = timer_register N deadline sref w"
| "timer_request N ReqNotify w = tw_gate_step (timer_notify N) w"
| "timer_request N (ReqDrop sl) w = sleep_drop N sl w"
| "timer_request N ReqShutdown w = timer_request_shutdown N w"

fun timer_requests :: "'z nosv_scheme \<Rightarrow> timer_req list \<Rightarrow> TimerWorld \<Rightarrow> TimerWorld exec" where
  "timer_requests N [] w = Return w"
| "timer_requests N (r # rs) w = exec_bind (timer_request N r w) (timer_requests N rs)"

text \<open>
  One iteration of \<open>run\<close>: \<open>during\<close> are the requests of other threads between the data section and
  the shutdown check, \<open>before\<close> those up to the gate section, \<open>parked\<close> those while the driver is
  parked. The flag says whether the loop goes on.
\<close>

definition timer_iteration ::
  "'z nosv_scheme \<Rightarrow> nat \<Rightarrow> timer_req list \<Rightarrow> timer_req list \<Rightarrow> timer_req list
    \<Rightarrow> TimerWorld \<Rightarrow> (bool \<times> TimerWorld) exec" where
  "timer_iteration N now during before parked w =
    (case timer_data_pass now w of (wait, wake, w) \<Rightarrow>
      let w = w\<lparr>tw_woken := tw_woken w @ wake\<rparr> in
      exec_bind (timer_requests N during w) (\<lambda>w.
        if td_shutdown (tw_driver w) then
          Return (False, w\<lparr>tw_driver := (tw_driver w)\<lparr>td_gate :=
            (td_gate (tw_driver w))\<lparr>dg_phase := Park_Terminal\<rparr>\<rparr>\<rparr>)
        else exec_bind (timer_requests N before w) (\<lambda>w.
          let mode = (case wait of Some d \<Rightarrow> ParkWait d | None \<Rightarrow> ParkPause);
              (should_wait, g) = driver_arm mode (td_gate (tw_driver w));
              w = w\<lparr>tw_driver := (tw_driver w)\<lparr>td_gate := g\<rparr>\<rparr>
          in if \<not> should_wait then Return (True, w)
             else exec_bind (driver_park N ''timer driver could not park'' mode (tw_log w)) (\<lambda>h.
               exec_bind (timer_requests N parked (w\<lparr>tw_log := h\<rparr>)) (\<lambda>w.
                 Return (True, w\<lparr>tw_driver := (tw_driver w)\<lparr>td_gate :=
                   driver_resume (td_gate (tw_driver w))\<rparr>\<rparr>))))))"

text \<open>The loop, driven by fuel: \<open>None\<close> when the fuel runs out before shutdown.\<close>

fun timer_run ::
  "'z nosv_scheme \<Rightarrow> (nat \<Rightarrow> nat \<times> timer_req list \<times> timer_req list \<times> timer_req list)
    \<Rightarrow> nat \<Rightarrow> TimerWorld \<Rightarrow> TimerWorld exec option" where
  "timer_run N env 0 w = None"
| "timer_run N env (Suc n) w =
    (case env n of (now, during, before, parked) \<Rightarrow>
      (case timer_iteration N now during before parked w of
         Return (True, w) \<Rightarrow> timer_run N env n w
       | Return (False, w) \<Rightarrow> Some (Return w)
       | Panic m \<Rightarrow> Some (Panic m)
       | Abort m \<Rightarrow> Some (Abort m)))"


section \<open>Lemmas\<close>

subsection \<open>The heap\<close>

lemma mset_heap_push [simp]: "mset (heap_push e hp) = add_mset e (mset hp)"
  by (induction hp) auto

lemma set_heap_push [simp]: "set (heap_push e hp) = insert e (set hp)"
  by (induction hp) auto

lemma heap_ok_push [simp]: "heap_ok hp \<Longrightarrow> heap_ok (heap_push e hp)"
  by (induction hp) (auto simp: heap_ok_def intro: order_trans)

lemma heap_ok_simps [simp]:
  "heap_ok []" "heap_ok (e # hp) \<longleftrightarrow> (\<forall>x \<in> set hp. te_key x \<le> te_key e) \<and> heap_ok hp"
  by (simp_all add: heap_ok_def)

text \<open>The greatest entry is one with the earliest deadline.\<close>

lemma heap_head_earliest: "heap_ok (e # hp) \<Longrightarrow> x \<in> set hp \<Longrightarrow> te_deadline e \<le> te_deadline x"
  by (auto simp: less_eq_timer_key_def timer_key_le_def)

lemma heap_ok_dropWhile: "heap_ok hp \<Longrightarrow> heap_ok (dropWhile P hp)"
  by (induction hp) auto

lemma pop_stale_eq: "pop_stale st hp = dropWhile (\<lambda>e. ts_cancelled (st (te_state e))) hp"
  by (induction hp) auto

lemma heap_ok_pop_stale: "heap_ok hp \<Longrightarrow> heap_ok (pop_stale st hp)"
  by (simp add: pop_stale_eq heap_ok_dropWhile)

lemma heap_not_due: "heap_ok (e # hp) \<Longrightarrow> \<not> te_deadline e \<le> now \<Longrightarrow> x \<in> set (e # hp) \<Longrightarrow> now < te_deadline x"
  using heap_head_earliest [of e hp x] by auto

subsection \<open>One data pass\<close>

lemma ts_fire_simps [simp]:
  "fst (ts_fire st) = ts_waiter st" "snd (ts_fire st) = st\<lparr>ts_fired := True, ts_waiter := None\<rparr>"
  by (simp_all add: ts_fire_def option_take_def)

definition is_due :: "nat \<Rightarrow> (nat \<Rightarrow> TimerState) \<Rightarrow> TimerEntry \<Rightarrow> bool" where
  "is_due now st e \<longleftrightarrow> te_deadline e \<le> now \<and> \<not> ts_cancelled (st (te_state e))"

definition due_wakers :: "nat \<Rightarrow> (nat \<Rightarrow> TimerState) \<Rightarrow> timer_heap \<Rightarrow> waker list" where
  "due_wakers now st hp =
    concat (map (\<lambda>e. push_waker (ts_waiter (st (te_state e))) []) (filter (is_due now st) hp))"

lemma push_waker_append: "push_waker w wakes = wakes @ push_waker w []"
  by (simp add: push_waker_def split: option.split)

lemma is_due_other: "te_state x \<noteq> i \<Longrightarrow> is_due now (st(i := s)) x = is_due now st x"
  by (simp add: is_due_def)

lemma due_wakers_other:
  "\<forall>x \<in> set hp. te_state x \<noteq> i \<Longrightarrow> due_wakers now (st(i := s)) hp = due_wakers now st hp"
  by (induction hp) (auto simp: due_wakers_def is_due_other)

lemma due_wakers_Cons:
  "due_wakers now st (e # hp) =
    (if is_due now st e then push_waker (ts_waiter (st (te_state e))) [] else []) @ due_wakers now st hp"
  by (simp add: due_wakers_def)

lemma due_wakers_late: "\<forall>x \<in> set hp. now < te_deadline x \<Longrightarrow> due_wakers now st hp = []"
  by (induction hp) (auto simp: due_wakers_def is_due_def)

lemma pop_due_spec:
  assumes "heap_ok hp" "distinct (map te_state hp)"
  shows "pop_due now hp st wake = (filter (\<lambda>e. now < te_deadline e) hp,
    \<lambda>i. if \<exists>e \<in> set hp. te_state e = i \<and> is_due now st e
         then (st i)\<lparr>ts_fired := True, ts_waiter := None\<rparr> else st i,
    wake @ due_wakers now st hp)"
  using assms
proof (induction hp arbitrary: st wake)
  case (Cons e hp)
  show ?case
  proof (cases "te_deadline e \<le> now")
    case False
    with Cons.prems(1) have late: "\<forall>x \<in> set (e # hp). now < te_deadline x"
      using heap_not_due by blast
    then have "filter (\<lambda>e. now < te_deadline e) (e # hp) = e # hp" by (simp add: filter_id_conv)
    moreover have "\<not> (\<exists>x \<in> set (e # hp). te_state x = i \<and> is_due now st x)" for i
      using late by (auto simp: is_due_def)
    ultimately show ?thesis using False due_wakers_late [OF late, of st] by simp
  next
    case due: True
    show ?thesis
    proof (cases "ts_cancelled (st (te_state e))")
      case True
      with due Cons show ?thesis by (simp add: due_wakers_def is_due_def)
    next
      case False
      let ?st = "st(te_state e := (st (te_state e))\<lparr>ts_fired := True, ts_waiter := None\<rparr>)"
      have fresh: "\<forall>x \<in> set hp. te_state x \<noteq> te_state e"
        using Cons.prems(2) by (auto simp: image_def)
      let ?w = "push_waker (ts_waiter (st (te_state e))) wake"
      from Cons.prems have prems: "heap_ok hp" "distinct (map te_state hp)" by simp_all
      have same: "(\<exists>x \<in> set hp. te_state x = i \<and> is_due now ?st x)
          \<longleftrightarrow> (\<exists>x \<in> set hp. te_state x = i \<and> is_due now st x)" for i
        using fresh is_due_other by blast
      have states: "(\<lambda>i. if \<exists>x \<in> set hp. te_state x = i \<and> is_due now st x
            then (?st i)\<lparr>ts_fired := True, ts_waiter := None\<rparr> else ?st i)
        = (\<lambda>i. if \<exists>x \<in> set (e # hp). te_state x = i \<and> is_due now st x
            then (st i)\<lparr>ts_fired := True, ts_waiter := None\<rparr> else st i)"
        using due False fresh by (intro ext) (auto simp: is_due_def)
      have wakes: "?w @ due_wakers now ?st hp = wake @ due_wakers now st (e # hp)"
        using due False
        by (subst push_waker_append) (simp add: due_wakers_other [OF fresh] due_wakers_Cons is_due_def)
      have "pop_due now (e # hp) st wake = pop_due now hp ?st ?w"
        using due False by (simp add: case_prod_beta)
      also have "\<dots> = (filter (\<lambda>e. now < te_deadline e) hp, \<lambda>i. if \<exists>x \<in> set hp. te_state x = i \<and> is_due now st x
            then (?st i)\<lparr>ts_fired := True, ts_waiter := None\<rparr> else ?st i, ?w @ due_wakers now ?st hp)"
        using Cons.IH [OF prems, of ?st ?w] unfolding same .
      finally show ?thesis unfolding states wakes using due by simp
    qed
  qed
qed (simp add: due_wakers_def)


lemma set_pop_stale: "set (pop_stale st hp) \<subseteq> set hp"
  unfolding pop_stale_eq by (auto dest: set_dropWhileD)

lemma pop_stale_keeps:
  "e \<in> set hp \<Longrightarrow> \<not> ts_cancelled (st (te_state e)) \<Longrightarrow> e \<in> set (pop_stale st hp)"
  by (induction hp) auto

lemma pop_stale_head: "pop_stale st hp = e # es \<Longrightarrow> \<not> ts_cancelled (st (te_state e))"
  by (induction hp) (auto split: if_splits)

subsection \<open>Requests of other threads\<close>

definition driver_open :: "nosv_ptr \<Rightarrow> TimerWorld \<Rightarrow> bool" where
  "driver_open p w \<longleftrightarrow> gate_open p (td_gate (tw_driver w), tw_log w)"

definition driver_parked :: "TimerWorld \<Rightarrow> bool" where
  "driver_parked w \<longleftrightarrow> gate_parked (td_gate (tw_driver w), tw_log w)"

lemma tw_notify_open:
  assumes "driver_open p w" and "tw_gate_step (timer_notify N) w = Return w'"
  shows "driver_open p w' \<and> \<not> driver_parked w' \<and> dg_notified (td_gate (tw_driver w'))
    \<and> td_shutdown (tw_driver w') = td_shutdown (tw_driver w)
    \<and> destroys p (tw_log w') = destroys p (tw_log w)
    \<and> (\<not> driver_parked w \<longrightarrow> tw_log w' = tw_log w)"
proof -
  from assms(2) obtain g h where n: "driver_notify N ''timer descriptor missing''
      ''timer wake submit failed'' (td_gate (tw_driver w), tw_log w) = Return (g, h)"
    and w': "w' = w\<lparr>tw_driver := (tw_driver w)\<lparr>td_gate := g\<rparr>, tw_log := h\<rparr>"
    by (auto simp: tw_gate_step_def timer_notify_def)
  from driver_notify_open [OF assms(1) [unfolded driver_open_def] n] assms(1) show ?thesis
    by (auto simp: w' driver_open_def driver_parked_def gate_open_def gate_parked_def)
qed

lemma driver_open_simps [simp]:
  "driver_open p (w\<lparr>tw_states := st\<rparr>) = driver_open p w"
  "driver_open p (w\<lparr>tw_woken := ws\<rparr>) = driver_open p w"
  "driver_open p (w\<lparr>tw_driver := d\<rparr>) = gate_open p (td_gate d, tw_log w)"
  "driver_parked (w\<lparr>tw_states := st\<rparr>) = driver_parked w"
  "driver_parked (w\<lparr>tw_woken := ws\<rparr>) = driver_parked w"
  "driver_parked (w\<lparr>tw_driver := d\<rparr>) = gate_parked (td_gate d, tw_log w)"
  by (simp_all add: driver_open_def driver_parked_def)

text \<open>
  One request on an open driver: it stays open, keeps the log when it is not parked, never
  withdraws a notification or a shutdown request, and a registration is either notified or refused
  because shutdown was requested.
\<close>

lemma timer_request_open:
  assumes "driver_open p w" and "timer_request N r w = Return w'"
  shows "driver_open p w' \<and> destroys p (tw_log w') = destroys p (tw_log w)
    \<and> (td_shutdown (tw_driver w) \<longrightarrow> td_shutdown (tw_driver w'))
    \<and> (\<not> driver_parked w \<longrightarrow> \<not> driver_parked w' \<and> tw_log w' = tw_log w)
    \<and> (dg_notified (td_gate (tw_driver w)) \<longrightarrow> dg_notified (td_gate (tw_driver w')))
    \<and> (\<forall>deadline sref. r = ReqRegister deadline sref
         \<longrightarrow> td_shutdown (tw_driver w') \<or> dg_notified (td_gate (tw_driver w')))
    \<and> (td_shutdown (tw_driver w') \<longrightarrow> td_shutdown (tw_driver w) \<or> dg_notified (td_gate (tw_driver w')))"
proof (cases r)
  case (ReqRegister deadline sref)
  let ?d = "(tw_driver w)\<lparr>td_next_id := td_next_id (tw_driver w) + 1\<rparr>"
  show ?thesis
  proof (cases "td_shutdown (tw_driver w)")
    case True
    with assms ReqRegister show ?thesis
      by (auto simp: timer_register_def Let_def driver_open_def driver_parked_def split: if_splits)
  next
    case False
    let ?w = "w\<lparr>tw_driver := ?d\<lparr>td_timers := heap_push \<lparr>te_key = TimerKey deadline (td_next_id (tw_driver w)),
      te_state = sref\<rparr> (td_timers (tw_driver w))\<rparr>\<rparr>"
    have "tw_gate_step (timer_notify N) ?w = Return w'"
      using assms(2) False ReqRegister by (auto simp: timer_register_def Let_def split: if_splits)
    moreover have "driver_open p ?w" "driver_parked ?w = driver_parked w"
      using assms(1) by (simp_all add: driver_open_def driver_parked_def)
    ultimately show ?thesis using tw_notify_open [of p ?w N w'] ReqRegister False by auto
  qed
next
  case ReqNotify
  with assms tw_notify_open [OF assms(1), of N w'] show ?thesis by auto
next
  case (ReqDrop sl)
  let ?w = "w\<lparr>tw_states := (tw_states w)(sl_state sl := ts_cancel (tw_states w (sl_state sl)))\<rparr>"
  show ?thesis
  proof (cases "sl_driver sl")
    case True
    with assms ReqDrop tw_notify_open [of p ?w N w'] show ?thesis
      by (auto simp: sleep_drop_def Let_def)
  next
    case False
    with assms ReqDrop show ?thesis by (auto simp: sleep_drop_def Let_def)
  qed
next
  case ReqShutdown
  let ?w = "w\<lparr>tw_driver := (tw_driver w)\<lparr>td_shutdown := True\<rparr>\<rparr>"
  have "driver_open p ?w" "driver_parked ?w = driver_parked w"
    using assms(1) by (simp_all add: driver_open_def driver_parked_def)
  with assms(2) ReqShutdown tw_notify_open [of p ?w N w'] show ?thesis
    by (auto simp: timer_request_shutdown_def)
qed

lemma timer_requests_open:
  assumes "driver_open p w" and "timer_requests N rs w = Return w'"
  shows "driver_open p w' \<and> destroys p (tw_log w') = destroys p (tw_log w)
    \<and> (td_shutdown (tw_driver w) \<longrightarrow> td_shutdown (tw_driver w'))
    \<and> (\<not> driver_parked w \<longrightarrow> \<not> driver_parked w' \<and> tw_log w' = tw_log w)
    \<and> (dg_notified (td_gate (tw_driver w)) \<longrightarrow> dg_notified (td_gate (tw_driver w')))
    \<and> (\<forall>deadline sref. ReqRegister deadline sref \<in> set rs
         \<longrightarrow> td_shutdown (tw_driver w') \<or> dg_notified (td_gate (tw_driver w')))
    \<and> (td_shutdown (tw_driver w') \<longrightarrow> td_shutdown (tw_driver w) \<or> dg_notified (td_gate (tw_driver w')))"
  using assms
proof (induction rs arbitrary: w)
  case (Cons r rs)
  then obtain u where u: "timer_request N r w = Return u" "timer_requests N rs u = Return w'" by auto
  note one = timer_request_open [OF Cons.prems(1) u(1)]
  then have "driver_open p u" by blast
  note more = Cons.IH [OF this u(2)]
  from one more show ?case by (auto; metis)
qed simp

lemma timer_data_pass_frame:
  assumes "timer_data_pass now w = (wait, wakes, w')"
  shows "td_gate (tw_driver w') = td_gate (tw_driver w) \<and> tw_log w' = tw_log w
    \<and> td_shutdown (tw_driver w') = td_shutdown (tw_driver w) \<and> tw_woken w' = tw_woken w"
  using assms by (auto simp: timer_data_pass_def Let_def split: if_splits prod.splits)


subsection \<open>The sleeping side\<close>

definition ts_open :: "TimerState \<Rightarrow> bool" where
  "ts_open st \<longleftrightarrow> \<not> ts_fired st \<and> \<not> ts_cancelled st"

definition ts_poll_early :: "waker \<Rightarrow> TimerState \<Rightarrow> ((unit, unit) polled \<times> TimerState) exec" where
  "ts_poll_early w st = Return (ts_poll False w st)"

lemma ts_poll_open: "ts_open st \<Longrightarrow> ts_poll False w st = (Pending, st\<lparr>ts_waiter := Some w\<rparr>)"
  by (cases st) (auto simp: ts_poll_def ts_open_def split: option.splits)

lemma ts_open_waiter [simp]: "ts_open (st\<lparr>ts_waiter := x\<rparr>) = ts_open st"
  by (simp add: ts_open_def)

lemma ts_poll_early_open: "ts_open st \<Longrightarrow> ts_poll_early w st = Return (Pending, st\<lparr>ts_waiter := Some w\<rparr>)"
  by (simp add: ts_poll_early_def ts_poll_open)

lemma ts_poll_early_filled: "ts_fired st \<Longrightarrow> ts_poll_early w st = Return (Ready (), st\<lparr>ts_fired := True\<rparr>)"
  by (simp add: ts_poll_early_def ts_poll_def)

interpretation sleep_cell: wake_cell ts_poll_early ts_fire ts_open ts_fired ts_waiter
  by unfold_locales (simp_all add: ts_poll_early_open ts_poll_early_filled)

lemma ts_poll_early_keeps_open:
  "poll_all ts_poll_early ws st = Return t \<Longrightarrow> ts_open st \<Longrightarrow> ts_open t"
proof (induction ws arbitrary: st)
  case (Cons w ws)
  then have "poll_all ts_poll_early ws (st\<lparr>ts_waiter := Some w\<rparr>) = Return t"
    by (simp add: ts_poll_early_open)
  with Cons show ?case by simp
qed simp

lemma cancel_all_spec:
  "cancel_all hp st i = (if i \<in> te_state ` set hp then ts_cancel (st i) else st i)"
  by (induction hp arbitrary: st) (auto simp: ts_cancel_def)

subsection \<open>An example driver\<close>

text \<open>Two registered timers, due at 10 and at 50; the sleeper of the first is waker 7.\<close>

definition sample_timer :: TimerWorld where
  "sample_timer =
    \<lparr>tw_driver = \<lparr>td_timers = [\<lparr>te_key = TimerKey 10 1, te_state = 0\<rparr>, \<lparr>te_key = TimerKey 50 2, te_state = 1\<rparr>],
       td_shutdown = False,
       td_gate = \<lparr>dg_raw = Some (RawTask 64), dg_phase = Park_Running, dg_notified = False\<rparr>,
       td_next_id = 3, td_completed = False\<rparr>,
     tw_states = (\<lambda>i. timer_state_new\<lparr>ts_waiter := if i = 0 then Some 7 else None\<rparr>),
     tw_log = [CSubmit 64 0], tw_woken = []\<rparr>"

lemma sample_timer_ok:
  "heap_ok (td_timers (tw_driver sample_timer))" "distinct (map te_state (td_timers (tw_driver sample_timer)))"
  "\<not> td_shutdown (tw_driver sample_timer)" "driver_open 64 sample_timer" "\<not> driver_parked sample_timer"
  by (simp_all add: sample_timer_def less_eq_timer_key_def timer_key_le_def driver_open_def driver_parked_def
      gate_open_def gate_parked_def)

section \<open>Properties\<close>

text \<open>
  C16: one pass of the driver fires exactly the timers that are due. A timer state is fired by the
  pass if and only if some entry for it has reached its deadline and is not cancelled, so no timer
  fires early or after its sleep was dropped; the wakers called are those of the fired timers, in
  heap order; every live timer with a later deadline stays in the heap; and the driver then waits
  exactly until the earliest live deadline, or indefinitely when no timer is left.
\<close>

theorem timer_pass_exact:
  assumes "heap_ok (td_timers (tw_driver w))" and "distinct (map te_state (td_timers (tw_driver w)))"
    and "\<not> td_shutdown (tw_driver w)" and "timer_data_pass now w = (wait, wakes, w')"
  defines "es \<equiv> td_timers (tw_driver w)" and "es' \<equiv> td_timers (tw_driver w')"
  shows "(\<forall>i. ts_fired (tw_states w' i) \<longleftrightarrow> ts_fired (tw_states w i) \<or>
           (\<exists>e \<in> set es. te_state e = i \<and> te_deadline e \<le> now \<and> \<not> ts_cancelled (tw_states w i)))
    \<and> wakes = concat (map (\<lambda>e. push_waker (ts_waiter (tw_states w (te_state e))) [])
         (filter (\<lambda>e. te_deadline e \<le> now \<and> \<not> ts_cancelled (tw_states w (te_state e))) es))
    \<and> heap_ok es' \<and> set es' \<subseteq> {e \<in> set es. now < te_deadline e}
    \<and> {e \<in> set es. now < te_deadline e \<and> \<not> ts_cancelled (tw_states w (te_state e))} \<subseteq> set es'
    \<and> (case wait of
         None \<Rightarrow> es' = []
       | Some d \<Rightarrow> 0 < d \<and> (\<forall>e \<in> set es'. now + d \<le> te_deadline e)
           \<and> (\<exists>e \<in> set es'. te_deadline e = now + d \<and> \<not> ts_cancelled (tw_states w (te_state e))))"
proof -
  let ?st = "\<lambda>i. if \<exists>e \<in> set es. te_state e = i \<and> is_due now (tw_states w) e
         then (tw_states w i)\<lparr>ts_fired := True, ts_waiter := None\<rparr> else tw_states w i"
  let ?later = "filter (\<lambda>e. now < te_deadline e) es"
  have canc: "ts_cancelled (?st i) = ts_cancelled (tw_states w i)" for i by simp
  have pass: "es' = pop_stale ?st ?later" "tw_states w' = ?st" "wakes = due_wakers now (tw_states w) es"
    "wait = (case es' of [] \<Rightarrow> None | e # _ \<Rightarrow> Some (saturating_sub (te_deadline e) now))"
    using assms(3,4) pop_due_spec [OF assms(1,2), of now "tw_states w" "[]"]
    by (auto simp: timer_data_pass_def Let_def es_def es'_def)
  have ok: "heap_ok es'"
    unfolding pass(1) using assms(1) by (intro heap_ok_pop_stale) (simp add: es_def heap_ok_def sorted_wrt_filter)
  have sub: "set es' \<subseteq> {e \<in> set es. now < te_deadline e}"
    unfolding pass(1) using set_pop_stale [of ?st ?later] by auto
  have keep: "{e \<in> set es. now < te_deadline e \<and> \<not> ts_cancelled (tw_states w (te_state e))} \<subseteq> set es'"
    unfolding pass(1) using pop_stale_keeps [of _ ?later ?st] canc by auto
  have wait: "case wait of None \<Rightarrow> es' = []
       | Some d \<Rightarrow> 0 < d \<and> (\<forall>e \<in> set es'. now + d \<le> te_deadline e)
           \<and> (\<exists>e \<in> set es'. te_deadline e = now + d \<and> \<not> ts_cancelled (tw_states w (te_state e)))"
  proof (cases es')
    case (Cons e rest)
    have "now < te_deadline e" using sub Cons by auto
    moreover have "\<not> ts_cancelled (tw_states w (te_state e))"
      using pop_stale_head [of ?st ?later e rest] pass(1) Cons canc by simp
    ultimately show ?thesis
      using ok Cons heap_head_earliest [of e rest] by (auto simp: pass(4) saturating_sub_def)
  qed (simp add: pass(4))
  show ?thesis
    using pass(2,3) ok sub keep wait by (auto simp: is_due_def due_wakers_def cong: filter_cong)
qed

theorem timer_pass_exact_witness:
  "\<exists>w'. timer_data_pass 20 sample_timer = (Some 30, [7], w') \<and> ts_fired (tw_states w' 0)
    \<and> heap_ok (td_timers (tw_driver w'))"
proof -
  obtain w' where pass: "timer_data_pass 20 sample_timer = (Some 30, [7], w')"
    by (simp add: timer_data_pass_def sample_timer_def timer_state_new_def ts_fire_def option_take_def
        push_waker_def saturating_sub_def)
  have due: "ts_fired (tw_states sample_timer 0) \<or> (\<exists>e \<in> set (td_timers (tw_driver sample_timer)).
      te_state e = 0 \<and> te_deadline e \<le> 20 \<and> \<not> ts_cancelled (tw_states sample_timer 0))"
    by (simp add: sample_timer_def timer_state_new_def)
  from timer_pass_exact [OF sample_timer_ok(1-3) pass] due pass show ?thesis by blast
qed


text \<open>
  C17: a sleeper is always woken. Whatever wakers its polls used before the deadline, the pass that
  finds the deadline reached calls the waker of the last poll, and the next poll is ready.
\<close>

theorem sleeper_is_woken:
  assumes "heap_ok (td_timers (tw_driver w))" "distinct (map te_state (td_timers (tw_driver w)))"
    and "\<not> td_shutdown (tw_driver w)" "e \<in> set (td_timers (tw_driver w))" "te_deadline e \<le> now"
    and "ts_open (tw_states w (te_state e))" "ws \<noteq> []"
  shows "\<exists>st. poll_all ts_poll_early ws (tw_states w (te_state e)) = Return st
    \<and> (case timer_data_pass now (w\<lparr>tw_states := (tw_states w)(te_state e := st)\<rparr>) of (wait, wakes, w') \<Rightarrow>
         last ws \<in> set wakes \<and> (\<exists>v. ts_poll_early k (tw_states w' (te_state e)) = Return (Ready (), v)))"
proof -
  from sleep_cell.poll_all_registers [OF assms(6), of ws] assms(7) obtain st
    where st: "poll_all ts_poll_early ws (tw_states w (te_state e)) = Return st" "ts_waiter st = Some (last ws)"
    by auto
  from ts_poll_early_keeps_open [OF st(1) assms(6)] have o: "ts_open st" .
  let ?w = "w\<lparr>tw_states := (tw_states w)(te_state e := st)\<rparr>"
  obtain wait wakes w' where pass: "timer_data_pass now ?w = (wait, wakes, w')" by (cases "timer_data_pass now ?w")
  have wakes: "wakes = due_wakers now (tw_states ?w) (td_timers (tw_driver w))"
    and fired: "ts_fired (tw_states w' (te_state e))"
    using pass assms(3-5) o pop_due_spec [OF assms(1,2), of now "tw_states ?w" "[]"]
    by (auto simp: timer_data_pass_def Let_def is_due_def ts_open_def)
  have "is_due now (tw_states ?w) e" using assms(5) o by (simp add: is_due_def ts_open_def)
  then have "last ws \<in> set wakes"
    using assms(4) st(2) by (force simp: wakes due_wakers_def push_waker_def)
  with st(1) pass fired show ?thesis by (auto simp: ts_poll_early_filled)
qed

theorem sleeper_is_woken_witness:
  "\<exists>st. poll_all ts_poll_early [3, 9] (tw_states sample_timer 1) = Return st
    \<and> 9 \<in> set (fst (snd (timer_data_pass 60 (sample_timer\<lparr>tw_states := (tw_states sample_timer)(1 := st)\<rparr>))))"
proof -
  let ?e = "\<lparr>te_key = TimerKey 50 2, te_state = 1\<rparr>"
  have e: "?e \<in> set (td_timers (tw_driver sample_timer))" "te_deadline ?e \<le> 60"
    "ts_open (tw_states sample_timer (te_state ?e))" "[3, 9 :: waker] \<noteq> []"
    by (simp_all add: sample_timer_def ts_open_def timer_state_new_def)
  have one: "te_state ?e = 1" by simp
  from sleeper_is_woken [OF sample_timer_ok(1-3) e, of 0] obtain st
    where "poll_all ts_poll_early [3, 9] (tw_states sample_timer 1) = Return st"
      "last [3, 9] \<in> set (fst (snd (timer_data_pass 60 (sample_timer\<lparr>tw_states := (tw_states sample_timer)(1 := st)\<rparr>))))"
    unfolding one by (auto simp: case_prod_beta simp del: poll_all.simps last.simps)
  then show ?thesis by (metis last_ConsR last_ConsL list.distinct(1))
qed

text \<open>
  A registration is never missed. If another thread registers a timer while the driver is
  between reading the heap and parking, the driver does not park: it either stops because shutdown
  was requested, or makes another pass at once, which reads the new entry.
\<close>

theorem registration_prevents_park:
  assumes "driver_open p w" and "\<not> driver_parked w"
    and "ReqRegister deadline sref \<in> set (during @ before)"
    and "timer_iteration N now during before parked w = Return (go, w')"
  shows "tw_log w' = tw_log w \<and> (go \<or> td_shutdown (tw_driver w'))"
proof -
  obtain wait wakes w0 where pass: "timer_data_pass now w = (wait, wakes, w0)"
    by (cases "timer_data_pass now w")
  note frame = timer_data_pass_frame [OF pass]
  let ?w1 = "w0\<lparr>tw_woken := tw_woken w0 @ wakes\<rparr>"
  have o1: "driver_open p ?w1" "\<not> driver_parked ?w1"
    using assms(1,2) frame by (simp_all add: driver_open_def driver_parked_def)
  from assms(4) pass obtain w2 where w2: "timer_requests N during ?w1 = Return w2"
    by (auto simp: timer_iteration_def Let_def)
  note r2 = timer_requests_open [OF o1(1) w2]
  show ?thesis
  proof (cases "td_shutdown (tw_driver w2)")
    case True
    with assms(4) pass w2 r2 o1 frame show ?thesis by (auto simp: timer_iteration_def Let_def)
  next
    case False
    with assms(4) pass w2 obtain w3 where w3: "timer_requests N before w2 = Return w3"
      by (auto simp: timer_iteration_def Let_def case_prod_beta)
    have "driver_open p w2" using r2 by blast
    note r3 = timer_requests_open [OF this w3]
    have "dg_notified (td_gate (tw_driver w3))"
      using assms(3) False r2 r3 by auto
    with assms(4) pass w2 w3 False r2 r3 o1 frame show ?thesis
      by (auto simp: timer_iteration_def Let_def driver_arm_def)
  qed
qed

theorem registration_prevents_park_witness:
  "\<exists>w'. timer_iteration sample_nosv 5 [ReqRegister 40 2] [] [] sample_timer = Return (True, w')
    \<and> tw_log w' = tw_log sample_timer"
proof -
  have reg: "ReqRegister 40 2 \<in> set ([ReqRegister 40 2] @ [])" by simp
  obtain w' where run: "timer_iteration sample_nosv 5 [ReqRegister 40 2] [] [] sample_timer = Return (True, w')"
    by (simp add: timer_iteration_def timer_data_pass_def sample_timer_def timer_state_new_def Let_def
        timer_register_def tw_gate_step_def timer_notify_def driver_notify_def driver_arm_def)
  from registration_prevents_park [OF sample_timer_ok(4,5) reg run] run show ?thesis by blast
qed


text \<open>
  The pass that sees the shutdown request cancels every retained timer, empties the heap and
  ends the loop without parking, with the gate terminal; retiring then destroys the descriptor, and
  no later notification submits it again.
\<close>

theorem timer_shutdown_retires:
  assumes "driver_contract N p" "driver_open p w" "\<not> driver_parked w" "destroys p (tw_log w) = 0"
    and "td_shutdown (tw_driver w)" "timer_requests N during (snd (snd (timer_data_pass now w))) = Return w1"
  shows "\<exists>w' w''. timer_iteration N now during before parked w = Return (False, w')
    \<and> (\<forall>e \<in> set (td_timers (tw_driver w)).
         ts_cancelled (tw_states (snd (snd (timer_data_pass now w))) (te_state e)))
    \<and> td_timers (tw_driver (snd (snd (timer_data_pass now w)))) = []
    \<and> timer_retire N w' = Return w'' \<and> td_completed (tw_driver w'')
    \<and> tw_log w'' = tw_log w @ [CDestroy p]
    \<and> timer_notify N (td_gate (tw_driver w''), tw_log w'')
        = Return ((td_gate (tw_driver w''))\<lparr>dg_notified := True\<rparr>, tw_log w'')"
proof -
  let ?w0 = "w\<lparr>tw_driver := (tw_driver w)\<lparr>td_timers := []\<rparr>,
    tw_states := cancel_all (td_timers (tw_driver w)) (tw_states w)\<rparr>"
  have pass: "timer_data_pass now w = (None, [], ?w0)"
    using assms(5) by (simp add: timer_data_pass_def Let_def)
  have o: "driver_open p ?w0" "\<not> driver_parked ?w0"
    using assms(2,3) by (simp_all add: driver_open_def driver_parked_def)
  note req = timer_requests_open [OF o(1), of N during w1]
  have w1: "driver_open p w1" "tw_log w1 = tw_log w" "td_shutdown (tw_driver w1)"
    using req assms(5,6) o(2) pass by auto
  let ?w' = "w1\<lparr>tw_driver := (tw_driver w1)\<lparr>td_gate := (td_gate (tw_driver w1))\<lparr>dg_phase := Park_Terminal\<rparr>\<rparr>\<rparr>"
  have iter: "timer_iteration N now during before parked w = Return (False, ?w')"
    using pass assms(6) w1(3) by (simp add: timer_iteration_def Let_def)
  have "fst (ffi_destroy N (RawTask p) (tw_log w)) = Ok ()"
    using assms(1,4) by (simp add: driver_contract_def ffi_destroy_def)
  then have "driver_retire N a b c (td_gate (tw_driver ?w'), tw_log ?w')
      = Return ((td_gate (tw_driver ?w'))\<lparr>dg_raw := None, dg_phase := Park_Destroyed\<rparr>, tw_log w @ [CDestroy p])"
    for a b c
    using w1(1,2) by (simp add: driver_retire_Return_iff driver_open_def gate_open_def ffi_destroy_log)
  with iter pass show ?thesis
    by (simp add: timer_retire_def tw_gate_step_def timer_gate_retire_def timer_notify_def
        driver_notify_closed cancel_all_spec ts_cancel_def)
qed

theorem timer_shutdown_retires_witness:
  "\<exists>w' w''. timer_iteration sample_nosv 5 [] [] [] (sample_timer\<lparr>tw_driver := (tw_driver sample_timer)\<lparr>td_shutdown := True\<rparr>\<rparr>)
      = Return (False, w')
    \<and> timer_retire sample_nosv w' = Return w'' \<and> tw_log w'' = [CSubmit 64 0, CDestroy 64]"
proof -
  let ?w = "sample_timer\<lparr>tw_driver := (tw_driver sample_timer)\<lparr>td_shutdown := True\<rparr>\<rparr>"
  have w: "driver_open 64 ?w" "\<not> driver_parked ?w" "destroys 64 (tw_log ?w) = 0" "td_shutdown (tw_driver ?w)"
    "tw_log ?w = [CSubmit 64 0]"
    by (simp_all add: sample_timer_def driver_open_def driver_parked_def gate_open_def gate_parked_def)
  have req: "timer_requests sample_nosv [] (snd (snd (timer_data_pass 5 ?w)))
      = Return (snd (snd (timer_data_pass 5 ?w)))" by simp
  have log: "[CSubmit 64 0] @ [CDestroy 64] = [CSubmit 64 0, CDestroy 64]" by simp
  from timer_shutdown_retires [OF driver_contract_sample w(1-4) req, of "[]" "[]"] show ?thesis
    unfolding w(5) log by blast
qed

text \<open>
  The cancellation of retained timers is skipped when shutdown is requested between the data
  section of a pass and its shutdown check: the loop ends with a timer still in the heap, neither
  fired nor cancelled, and with its waiter still registered.
\<close>

theorem shutdown_race_leaves_timers:
  "\<exists>w'. timer_iteration sample_nosv 5 [ReqShutdown] [] [] sample_timer = Return (False, w')
    \<and> (\<exists>e \<in> set (td_timers (tw_driver w')). ts_open (tw_states w' (te_state e))
         \<and> ts_waiter (tw_states w' (te_state e)) = Some 7)"
  by (simp add: timer_iteration_def timer_data_pass_def sample_timer_def timer_state_new_def Let_def
      timer_request_shutdown_def tw_gate_step_def timer_notify_def driver_notify_def ts_open_def)


end
