(* ===== verification/Driver_Callbacks.thy ===== *)
theory Driver_Callbacks
  imports Timer Uring_Driver
begin

text \<open>
  The native callbacks of the two driver tasks: \<open>timer_owner\<close>, \<open>run_callback\<close> and \<open>completed_callback\<close>
  of \<open>src/time.rs\<close>, \<open>driver_owner\<close> and the callbacks of \<open>src/io_uring.rs\<close>. The metadata of a
  descriptor holds the address of its driver; the strong count that \<open>start\<close> leaked into it is an
  entry of \<open>ow_strong\<close>, which the completion callback consumes. With them the life of the timer driver
  is closed: from its creation through its loop to the destruction of its descriptor.
\<close>

section \<open>Callbacks\<close>

record driver_owners =
  ow_meta :: "(nosv_ptr, nat) hashmap"
  ow_strong :: "nat list"

text \<open>The messages in which the callbacks differ.\<close>

record callback_texts =
  ct_null_task :: string
  ct_metadata :: string
  ct_null_owner :: string
  ct_panic :: string

definition driver_owner ::
  "'z nosv_scheme \<Rightarrow> callback_texts \<Rightarrow> RawTask \<Rightarrow> driver_owners \<Rightarrow> nlog \<Rightarrow> (nat option \<times> nlog) exec" where
  "driver_owner N T raw own h =
    (case ffi_metadata N raw h of
       (Inl e, h) \<Rightarrow> Abort (ct_metadata T)
     | (Inr m, h) \<Rightarrow> Return (hm_get (ow_meta own) m, h))"

text \<open>
  The way into a callback. Using a driver whose strong count is gone, or in the completion callback a
  null owner, would be undefined behaviour; the model makes either an abort of its own.
\<close>

definition callback_entry ::
  "'z nosv_scheme \<Rightarrow> callback_texts \<Rightarrow> nosv_ptr \<Rightarrow> driver_owners \<Rightarrow> nlog \<Rightarrow> (nat \<times> nlog) exec" where
  "callback_entry N T pointer own h =
    (case raw_task_from_ptr pointer of
       None \<Rightarrow> Abort (ct_null_task T)
     | Some raw \<Rightarrow> exec_bind (driver_owner N T raw own h) (\<lambda>(ow, h).
         case ow of
           None \<Rightarrow> Abort (ct_null_owner T)
         | Some i \<Rightarrow> if i \<in> set (ow_strong own) then Return (i, h) else Abort ''use of a freed driver''))"

text \<open>\<open>catch_unwind\<close> around a callback's body turns a panic into an abort.\<close>

definition contained :: "callback_texts \<Rightarrow> 'a exec \<Rightarrow> 'a exec" where
  "contained T x = (case x of Panic m \<Rightarrow> Abort (ct_panic T) | x \<Rightarrow> x)"

definition timer_run_callback ::
  "'z nosv_scheme \<Rightarrow> (TimerWorld \<Rightarrow> TimerWorld exec option) \<Rightarrow> nosv_ptr \<Rightarrow> driver_owners \<Rightarrow> TimerWorld
    \<Rightarrow> TimerWorld exec option" where
  "timer_run_callback N run pointer own w =
    (let T = \<lparr>ct_null_task = ''null timer task'', ct_metadata = ''timer metadata missing'',
              ct_null_owner = ''null timer owner'', ct_panic = ''panic in timer run callback''\<rparr>
     in case callback_entry N T pointer own (tw_log w) of
          Return (i, h) \<Rightarrow> map_option (contained T) (run (w\<lparr>tw_log := h\<rparr>))
        | Panic m \<Rightarrow> Some (Abort (ct_panic T))
        | Abort m \<Rightarrow> Some (Abort m))"

definition timer_completed_callback ::
  "'z nosv_scheme \<Rightarrow> nosv_ptr \<Rightarrow> driver_owners \<Rightarrow> TimerWorld \<Rightarrow> (driver_owners \<times> TimerWorld) exec" where
  "timer_completed_callback N pointer own w =
    (let T = \<lparr>ct_null_task = ''null completed timer'', ct_metadata = ''timer metadata missing'',
              ct_null_owner = ''null timer owner consumed'', ct_panic = ''panic in timer completed callback''\<rparr>
     in contained T (exec_bind (callback_entry N T pointer own (tw_log w)) (\<lambda>(i, h).
          exec_bind (timer_retire N (w\<lparr>tw_log := h\<rparr>)) (\<lambda>w.
            Return (own\<lparr>ow_strong := remove1 i (ow_strong own)\<rparr>, w)))))"

definition uring_run_callback ::
  "('q, 's, 'x, 'u, 'w, 'r) uring_env
    \<Rightarrow> (('x, 'w, 'q, 'u, 'r) UringWorld \<Rightarrow> ('x, 'w, 'q, 'u, 'r) UringWorld exec option)
    \<Rightarrow> nosv_ptr \<Rightarrow> driver_owners \<Rightarrow> ('x, 'w, 'q, 'u, 'r) UringWorld \<Rightarrow> ('x, 'w, 'q, 'u, 'r) UringWorld exec option" where
  "uring_run_callback E run pointer own w =
    (let T = \<lparr>ct_null_task = ''null driver'', ct_metadata = ''driver metadata missing'',
              ct_null_owner = ''null owner'', ct_panic = ''panic in io_uring driver callback''\<rparr>
     in case callback_entry (ue_nosv E) T pointer own (uw_log w) of
          Return (i, h) \<Rightarrow> map_option (contained T) (run (w\<lparr>uw_log := h\<rparr>))
        | Panic m \<Rightarrow> Some (Abort (ct_panic T))
        | Abort m \<Rightarrow> Some (Abort m))"

definition uring_completed_callback ::
  "('q, 's, 'x, 'u, 'w, 'r) uring_env \<Rightarrow> nosv_ptr \<Rightarrow> driver_owners \<Rightarrow> ('x, 'w, 'q, 'u, 'r) UringWorld
    \<Rightarrow> (driver_owners \<times> ('x, 'w, 'q, 'u, 'r) UringWorld) exec" where
  "uring_completed_callback E pointer own w =
    (let T = \<lparr>ct_null_task = ''null completed driver'', ct_metadata = ''driver metadata missing'',
              ct_null_owner = ''null driver owner consumed'', ct_panic = ''panic in io_uring completion callback''\<rparr>
     in contained T (exec_bind (callback_entry (ue_nosv E) T pointer own (uw_log w)) (\<lambda>(i, h).
          exec_bind (uring_retire E (w\<lparr>uw_log := h\<rparr>)) (\<lambda>w.
            Return (own\<lparr>ow_strong := remove1 i (ow_strong own)\<rparr>, w)))))"

section \<open>Lemmas\<close>

text \<open>What \<open>start\<close> establishes and nothing but the completion callback ends.\<close>

definition owner_installed :: "'z nosv_scheme \<Rightarrow> nosv_ptr \<Rightarrow> nat \<Rightarrow> driver_owners \<Rightarrow> bool" where
  "owner_installed N p i own \<longleftrightarrow> p \<noteq> 0 \<and> i \<in> set (ow_strong own)
     \<and> (\<exists>m. m \<noteq> 0 \<and> hm_get (ow_meta own) m = Some i \<and> (\<forall>h. nosv_get_task_metadata N h p = m))"

lemma callback_entry_installed:
  "owner_installed N p i own \<Longrightarrow> callback_entry N T p own h = Return (i, h @ [CMetadata p])"
  by (auto simp: owner_installed_def callback_entry_def driver_owner_def raw_task_from_ptr_def ffi_metadata_def Let_def)

lemma contained_Return_iff [simp]: "contained T x = Return y \<longleftrightarrow> x = Return y"
  by (cases x) (simp_all add: contained_def)

text \<open>The loop keeps the descriptor and leaves it in the terminal phase.\<close>

definition timer_ended :: "nosv_ptr \<Rightarrow> TimerWorld \<Rightarrow> bool" where
  "timer_ended p w \<longleftrightarrow> dg_phase (td_gate (tw_driver w)) = Park_Terminal
     \<and> dg_raw (td_gate (tw_driver w)) = Some (RawTask p)"

lemma driver_park_log: "driver_park N f mode h = Return h' \<Longrightarrow> destroys p h' = destroys p h"
  by (cases mode) (auto simp: driver_park_def ffi_defs Let_def is_destroy_of_def split: sum.splits)

lemma timer_iteration_keeps:
  assumes "driver_open p w" "\<not> driver_parked w" "timer_iteration N now during before parked w = Return (go, w')"
  shows "destroys p (tw_log w') = destroys p (tw_log w)
    \<and> (if go then driver_open p w' \<and> \<not> driver_parked w' else timer_ended p w')"
proof -
  obtain wait wakes w0 where pass: "timer_data_pass now w = (wait, wakes, w0)" by (cases "timer_data_pass now w")
  note frame = timer_data_pass_frame [OF pass]
  let ?w1 = "w0\<lparr>tw_woken := tw_woken w0 @ wakes\<rparr>"
  have o1: "driver_open p ?w1" "\<not> driver_parked ?w1"
    using assms(1,2) frame by (simp_all add: driver_open_def driver_parked_def)
  from assms(3) pass obtain w2 where w2: "timer_requests N during ?w1 = Return w2"
    by (auto simp: timer_iteration_def Let_def)
  note r2 = timer_requests_open [OF o1(1) w2]
  show ?thesis
  proof (cases "td_shutdown (tw_driver w2)")
    case True
    with assms(3) pass w2 r2 o1 frame show ?thesis
      by (auto simp: timer_iteration_def Let_def timer_ended_def driver_open_def gate_open_def)
  next
    case False
    with assms(3) pass w2 obtain w3 where w3: "timer_requests N before w2 = Return w3"
      by (auto simp: timer_iteration_def Let_def case_prod_beta)
    note r3 = timer_requests_open [OF r2 [THEN conjunct1] w3]
    let ?mode = "case wait of Some d \<Rightarrow> ParkWait d | None \<Rightarrow> ParkPause"
    obtain should g where arm: "driver_arm ?mode (td_gate (tw_driver w3)) = (should, g)" by (rule prod.exhaust)
    let ?w4 = "w3\<lparr>tw_driver := (tw_driver w3)\<lparr>td_gate := g\<rparr>\<rparr>"
    have o4: "driver_open p ?w4" "\<not> should \<Longrightarrow> \<not> driver_parked ?w4"
      using r3 arm
      by (auto simp: driver_arm_def driver_open_def gate_open_def driver_parked_def gate_parked_def
          split: if_splits option.splits)
    show ?thesis
    proof (cases should)
      case no: False
      with assms(3) pass w2 w3 False arm r2 r3 o1 frame o4 show ?thesis
        by (auto simp: timer_iteration_def Let_def)
    next
      case yes: True
      with assms(3) pass w2 w3 False arm obtain h w5
        where h: "driver_park N ''timer driver could not park'' ?mode (tw_log w3) = Return h"
          and w5: "timer_requests N parked (?w4\<lparr>tw_log := h\<rparr>) = Return w5"
          and w': "go" "w' = w5\<lparr>tw_driver := (tw_driver w5)\<lparr>td_gate := driver_resume (td_gate (tw_driver w5))\<rparr>\<rparr>"
        by (auto simp: timer_iteration_def Let_def)
      have "driver_open p (?w4\<lparr>tw_log := h\<rparr>)" using o4(1) by (simp add: driver_open_def gate_open_def)
      note r5 = timer_requests_open [OF this w5]
      from r2 r3 r5 o1 frame driver_park_log [OF h, of p] w' show ?thesis
        by (auto simp: driver_open_def gate_open_def driver_parked_def gate_parked_def driver_resume_def)
    qed
  qed
qed

lemma timer_run_keeps:
  "driver_open p w \<Longrightarrow> \<not> driver_parked w \<Longrightarrow> timer_run N env fuel w = Some (Return w')
    \<Longrightarrow> timer_ended p w' \<and> destroys p (tw_log w') = destroys p (tw_log w)"
proof (induction fuel arbitrary: w)
  case (Suc fuel)
  obtain now during before parked where e: "env fuel = (now, during, before, parked)" by (metis prod.exhaust)
  with Suc.prems(3) obtain go w1 where i: "timer_iteration N now during before parked w = Return (go, w1)"
    by (auto split: exec.splits)
  note k = timer_iteration_keeps [OF Suc.prems(1,2) i]
  show ?case
  proof (cases go)
    case True
    with Suc.prems(3) e i have "timer_run N env fuel w1 = Some (Return w')" by simp
    with Suc.IH [of w1] k True show ?thesis by simp
  next
    case False
    with Suc.prems(3) e i k show ?thesis by simp
  qed
qed simp

subsection \<open>The loop ends\<close>

text \<open>nOS-V promises that a driver task can always park; the only other failure is the 64-bit timer identifier.\<close>

definition park_contract :: "'z nosv_scheme \<Rightarrow> bool" where
  "park_contract N \<longleftrightarrow> (\<forall>h. from_code N (nosv_pause N h) = Ok () \<and> (\<forall>n. from_code N (nosv_waitfor N h n) = Ok ()))"

definition stops_with :: "string \<Rightarrow> 'a exec \<Rightarrow> bool" where
  "stops_with message x \<longleftrightarrow> x = Abort message"

lemma stops_with_simps [simp]:
  "stops_with m (Abort m') \<longleftrightarrow> m' = m" "\<not> stops_with m (Return y)" "\<not> stops_with m (Panic m')"
  "stops_with m (exec_bind x f) \<longleftrightarrow> stops_with m x \<or> (\<exists>y. x = Return y \<and> stops_with m (f y))"
  by (cases x; simp add: stops_with_def)+

abbreviation exhausted :: "'a exec \<Rightarrow> bool" where
  "exhausted \<equiv> stops_with ''timer identifier exhausted''"

lemma tw_notify_returns:
  assumes "driver_contract N p" "driver_open p w" "destroys p (tw_log w) = 0"
  shows "\<exists>w'. tw_gate_step (timer_notify N) w = Return w'"
proof -
  from assms(2) have "gate_open p (td_gate (tw_driver w), tw_log w)" by (simp add: driver_open_def)
  from driver_notify_returns [OF assms(1,3) this] show ?thesis by (auto simp: tw_gate_step_def timer_notify_def)
qed

lemma timer_request_outcome:
  assumes "driver_contract N p" "driver_open p w" "destroys p (tw_log w) = 0"
  shows "exhausted (timer_request N r w) \<or> (\<exists>w'. timer_request N r w = Return w')"
proof -
  have notify: "driver_open p v \<Longrightarrow> tw_log v = tw_log w \<Longrightarrow> \<exists>w'. tw_gate_step (timer_notify N) v = Return w'" for v
    using tw_notify_returns [OF assms(1)] assms(3) by simp
  show ?thesis
    using assms(2)
    by (cases r) (auto simp: timer_register_def timer_request_shutdown_def sleep_drop_def Let_def driver_open_def gate_open_def
        intro!: notify)
qed

lemma timer_requests_outcome:
  "driver_contract N p \<Longrightarrow> driver_open p w \<Longrightarrow> destroys p (tw_log w) = 0
    \<Longrightarrow> exhausted (timer_requests N rs w) \<or> (\<exists>w'. timer_requests N rs w = Return w')"
proof (induction rs arbitrary: w)
  case (Cons r rs)
  from timer_request_outcome [OF Cons.prems, of r] show ?case
  proof
    assume "\<exists>u. timer_request N r w = Return u"
    then obtain u where u: "timer_request N r w = Return u" ..
    from Cons.IH [of u] Cons.prems timer_request_open [OF Cons.prems(2) u] u show ?thesis by auto
  qed simp
qed simp

lemma timer_requests_shutdown:
  "driver_open p w \<Longrightarrow> timer_requests N rs w = Return w' \<Longrightarrow> ReqShutdown \<in> set rs \<Longrightarrow> td_shutdown (tw_driver w')"
proof (induction rs arbitrary: w)
  case (Cons r rs)
  then obtain u where u: "timer_request N r w = Return u" "timer_requests N rs u = Return w'" by auto
  have o: "driver_open p u" using timer_request_open [OF Cons.prems(1) u(1)] by blast
  show ?case
  proof (cases "r = ReqShutdown")
    case True
    with u(1) have "td_shutdown (tw_driver u)" by (auto simp: timer_request_shutdown_def tw_gate_step_def)
    with timer_requests_open [OF o u(2)] show ?thesis by blast
  next
    case False
    with Cons.IH [OF o u(2)] Cons.prems(3) show ?thesis by auto
  qed
qed simp

lemma driver_park_returns: "park_contract N \<Longrightarrow> mode \<noteq> ParkYield \<Longrightarrow> \<exists>h'. driver_park N f mode h = Return h'"
  by (cases mode) (auto simp: driver_park_def park_contract_def ffi_pause_def ffi_waitfor_def Let_def)

lemma timer_iteration_outcome:
  assumes c: "driver_contract N p" "park_contract N"
    and o: "driver_open p w" "\<not> driver_parked w" "destroys p (tw_log w) = 0"
  shows "exhausted (timer_iteration N now during before parked w)
    \<or> (\<exists>go w'. timer_iteration N now during before parked w = Return (go, w')
        \<and> (go \<longrightarrow> \<not> td_shutdown (tw_driver w) \<and> (ReqShutdown \<in> set (during @ before) \<longrightarrow> td_shutdown (tw_driver w'))))"
    (is "?E \<or> ?R")
proof (rule disjCI)
  assume ne: "\<not> ?R"
  obtain wait wakes w0 where pass: "timer_data_pass now w = (wait, wakes, w0)" by (cases "timer_data_pass now w")
  note frame = timer_data_pass_frame [OF pass]
  let ?w1 = "w0\<lparr>tw_woken := tw_woken w0 @ wakes\<rparr>"
  have o1: "driver_open p ?w1" "destroys p (tw_log ?w1) = 0"
    using o frame by (simp_all add: driver_open_def)
  from timer_requests_outcome [OF c(1) o1, of during] show ?E
  proof
    assume "\<exists>w2. timer_requests N during ?w1 = Return w2"
    then obtain w2 where w2: "timer_requests N during ?w1 = Return w2" ..
    note r2 = timer_requests_open [OF o1(1) w2]
    show ?E
    proof (cases "td_shutdown (tw_driver w2)")
      case True
      with pass w2 ne show ?E by (auto simp: timer_iteration_def Let_def)
    next
      case False
      have d2: "destroys p (tw_log w2) = 0" "driver_open p w2" using r2 o1 by auto
      from timer_requests_outcome [OF c(1) d2(2,1), of before] show ?E
      proof
        assume "\<exists>w3. timer_requests N before w2 = Return w3"
        then obtain w3 where w3: "timer_requests N before w2 = Return w3" ..
        note r3 = timer_requests_open [OF d2(2) w3]
        have sd: "\<not> td_shutdown (tw_driver w)" "ReqShutdown \<in> set (during @ before) \<Longrightarrow> td_shutdown (tw_driver w3)"
          using r2 frame False timer_requests_shutdown [OF o1(1) w2] timer_requests_shutdown [OF d2(2) w3] by auto
        let ?mode = "case wait of Some d \<Rightarrow> ParkWait d | None \<Rightarrow> ParkPause"
        obtain should g where arm: "driver_arm ?mode (td_gate (tw_driver w3)) = (should, g)" by (rule prod.exhaust)
        let ?w4 = "w3\<lparr>tw_driver := (tw_driver w3)\<lparr>td_gate := g\<rparr>\<rparr>"
        have "?mode \<noteq> ParkYield" by (simp split: option.split)
        from driver_park_returns [OF c(2) this] obtain h
          where h: "driver_park N ''timer driver could not park'' ?mode (tw_log w3) = Return h" by blast
        have o4: "driver_open p (?w4\<lparr>tw_log := h\<rparr>)" "destroys p (tw_log (?w4\<lparr>tw_log := h\<rparr>)) = 0"
          using r3 d2 arm driver_park_log [OF h, of p]
          by (auto simp: driver_arm_def driver_open_def gate_open_def split: if_splits option.splits)
        have should
        proof (rule ccontr)
          assume "\<not> should"
          with pass w2 w3 False arm have "timer_iteration N now during before parked w = Return (True, ?w4)"
            by (simp add: timer_iteration_def Let_def)
          with ne sd show False by auto
        qed
        from timer_requests_outcome [OF c(1) o4, of parked] show ?E
        proof
          assume "\<exists>w5. timer_requests N parked (?w4\<lparr>tw_log := h\<rparr>) = Return w5"
          then obtain w5 where w5: "timer_requests N parked (?w4\<lparr>tw_log := h\<rparr>) = Return w5" ..
          from timer_requests_open [OF o4(1) w5] sd ne pass w2 w3 False arm \<open>should\<close> h w5 show ?E
            by (auto simp: timer_iteration_def Let_def)
        qed (use pass w2 w3 False arm \<open>should\<close> h in \<open>auto simp: timer_iteration_def Let_def\<close>)
      qed (use pass w2 False in \<open>auto simp: timer_iteration_def Let_def\<close>)
    qed
  qed (use pass in \<open>auto simp: timer_iteration_def Let_def\<close>)
qed

text \<open>The iteration that runs with \<open>n\<close> left over sees the requests \<open>env n\<close>, the next one the flag.\<close>

definition shutdown_requested ::
  "(nat \<Rightarrow> nat \<times> timer_req list \<times> timer_req list \<times> timer_req list) \<Rightarrow> nat \<Rightarrow> bool" where
  "shutdown_requested env fuel \<longleftrightarrow>
    (\<exists>n now during before parked. 0 < n \<and> n < fuel \<and> env n = (now, during, before, parked) \<and> ReqShutdown \<in> set (during @ before))"

lemma timer_run_outcome:
  assumes c: "driver_contract N p" "park_contract N"
  shows "driver_open p w \<Longrightarrow> \<not> driver_parked w \<Longrightarrow> destroys p (tw_log w) = 0
    \<Longrightarrow> td_shutdown (tw_driver w) \<and> 0 < fuel \<or> shutdown_requested env fuel
    \<Longrightarrow> \<exists>x. timer_run N env fuel w = Some x \<and> (exhausted x \<or> (\<exists>w'. x = Return w'))"
proof (induction fuel arbitrary: w)
  case (Suc fuel)
  obtain now during before parked where e: "env fuel = (now, during, before, parked)" by (metis prod.exhaust)
  let ?it = "timer_iteration N now during before parked w"
  from timer_iteration_outcome [OF c Suc.prems(1-3), of now during before parked] show ?case
  proof
    assume "exhausted ?it"
    with e show ?case by (auto simp: stops_with_def)
  next
    assume "\<exists>go w'. ?it = Return (go, w') \<and> (go \<longrightarrow> \<not> td_shutdown (tw_driver w)
        \<and> (ReqShutdown \<in> set (during @ before) \<longrightarrow> td_shutdown (tw_driver w')))"
    then obtain go w' where it: "?it = Return (go, w')"
      and go: "go \<Longrightarrow> \<not> td_shutdown (tw_driver w)" "go \<Longrightarrow> ReqShutdown \<in> set (during @ before) \<Longrightarrow> td_shutdown (tw_driver w')"
      by blast
    show ?case
    proof (cases go)
      case True
      from Suc.prems(4) go(1) True obtain n now' d' b' p' where n: "0 < n" "n < Suc fuel" "env n = (now', d', b', p')"
        "ReqShutdown \<in> set (d' @ b')" by (auto simp: shutdown_requested_def)
      have "td_shutdown (tw_driver w') \<and> 0 < fuel \<or> shutdown_requested env fuel"
      proof (cases "n = fuel")
        case True
        with n e go(2) \<open>go\<close> show ?thesis by auto
      next
        case False
        with n show ?thesis unfolding shutdown_requested_def by (metis less_antisym)
      qed
      with Suc.IH [of w'] timer_iteration_keeps [OF Suc.prems(1,2) it] True it e Suc.prems(3) show ?thesis by simp
    qed (use e it in simp)
  qed
qed (simp add: shutdown_requested_def)

subsection \<open>Before and after the loop\<close>

lemma timer_started_open:
  assumes "timer_start N tt h = (Ok d, h1)" "dg_raw (td_gate d) = Some (RawTask p)" "destroys p h = 0" "tw_driver w = d"
  shows "driver_open p (w\<lparr>tw_log := h1 @ [CMetadata p]\<rparr>) \<and> \<not> driver_parked (w\<lparr>tw_log := h1 @ [CMetadata p]\<rparr>)
    \<and> destroys p (h1 @ [CMetadata p]) = 0"
proof -
  from assms(1) obtain g where g: "driver_start N tt h = (Ok g, h1)" "d = timer_driver_new\<lparr>td_gate := g\<rparr>"
    by (auto simp: timer_start_def split: prod.splits sum.splits)
  from driver_start_Ok [OF g(1)] assms(2-4) g(2) show ?thesis
    by (auto simp: driver_open_def gate_open_def driver_parked_def gate_parked_def)
qed

lemma timer_completed_after_end:
  assumes "driver_contract N p" "owner_installed N p i own" "timer_ended p w1" "destroys p (tw_log w1) = 0"
  shows "\<exists>own' w2. timer_completed_callback N p own w1 = Return (own', w2) \<and> td_completed (tw_driver w2)
    \<and> destroys p (tw_log w2) = 1 \<and> ow_strong own' = remove1 i (ow_strong own)
    \<and> timer_notify N (td_gate (tw_driver w2), tw_log w2)
        = Return ((td_gate (tw_driver w2))\<lparr>dg_notified := True\<rparr>, tw_log w2)"
proof -
  let ?w1 = "w1\<lparr>tw_log := tw_log w1 @ [CMetadata p]\<rparr>"
  have e: "destroys p (tw_log w1 @ [CMetadata p]) = 0" using assms(4) by simp
  have "fst (ffi_destroy N (RawTask p) (tw_log ?w1)) = Ok ()"
    using assms(1) e by (simp add: driver_contract_def ffi_destroy_def)
  with assms(3) have "driver_retire N a b c (td_gate (tw_driver ?w1), tw_log ?w1)
      = Return ((td_gate (tw_driver ?w1))\<lparr>dg_raw := None, dg_phase := Park_Destroyed\<rparr>, tw_log ?w1 @ [CDestroy p])" for a b c
    by (simp add: driver_retire_Return_iff timer_ended_def ffi_destroy_log)
  with e show ?thesis
    by (simp add: timer_completed_callback_def callback_entry_installed [OF assms(2)] timer_retire_def tw_gate_step_def
        timer_gate_retire_def timer_notify_def driver_notify_closed)
qed

section \<open>Property\<close>



end
