(* ===== verification/Uring_Load.thy ===== *)
theory Uring_Load
  imports Uring_Staging Driver_Callbacks
begin

text \<open>
  What is left to do for the ring driver of \<open>src/io_uring.rs\<close>, as a number, on a kernel that completes
  what it is given; and what a cancellation with its notification does to it: a cancellation of an
  iterator takes up what its entries had been counted for.
\<close>

section \<open>A kernel that completes\<close>

fun staged_pointer :: "StagedContext \<Rightarrow> u64" where
  "staged_pointer (StagedRaw p) = p"
| "staged_pointer (StagedOwned p) = p"
| "staged_pointer (StagedOwnedCancel p) = p"

definition submitted :: "('x, 'h) DriverData \<Rightarrow> u64 set" where
  "submitted d = {p. (\<exists>c. hm_get (dd_contexts d) p = Some c \<and> cx_phase c = CtxSubmitted)
     \<or> (\<exists>c. hm_get (dd_owned_contexts d) p = Some c \<and> oc_phase c = CtxSubmitted)
     \<or> (\<exists>k. hm_get (dd_owned_cancel_contexts d) p = Some k \<and> on_phase k = CtxSubmitted)}"

text \<open>
  \<open>sq\<close> are the user data of the entries pushed and not yet submitted, \<open>flight\<close> those the kernel holds.
\<close>

definition prompt_ring ::
  "('q, 's, 'x, 'z) ring_lib_scheme \<Rightarrow> nat \<Rightarrow> ('q \<Rightarrow> u64 list) \<Rightarrow> ('q \<Rightarrow> u64 set) \<Rightarrow> bool" where
  "prompt_ring L cap sq flight \<longleftrightarrow> 0 < cap
    \<and> (\<forall>e q. case rl_push L e q of
          None \<Rightarrow> cap \<le> length (sq q)
        | Some q' \<Rightarrow> sq q' = sq q @ [sq_user_data e] \<and> flight q' = flight q)
    \<and> (\<forall>q. \<exists>q'. rl_submit L q = (Ok (length (sq q)), q') \<and> sq q' = [] \<and> flight q' = flight q \<union> set (sq q))
    \<and> (\<forall>n q. case rl_reap L n q of (cqes, _, q') \<Rightarrow>
          sq q' = sq q \<and> distinct (map cq_user_data cqes) \<and> cq_user_data ` set cqes \<subseteq> flight q
          \<and> flight q' = flight q - cq_user_data ` set cqes
          \<and> (\<forall>cqe \<in> set cqes. \<not> rl_more L (cq_flags cqe)) \<and> (0 < n \<and> flight q \<noteq> {} \<longrightarrow> cqes \<noteq> []))"

definition ring_agrees :: "('q \<Rightarrow> u64 list) \<Rightarrow> ('q \<Rightarrow> u64 set) \<Rightarrow> ('x, 'h) DriverData \<Rightarrow> 'q \<Rightarrow> bool" where
  "ring_agrees sq flight d q \<longleftrightarrow> sq q = map staged_pointer (dd_staged d) \<and> flight q = submitted d"

lemma prompt_push:
  assumes "prompt_ring L cap sq flight"
  shows "rl_push L e q = None \<Longrightarrow> cap \<le> length (sq q)"
    and "rl_push L e q = Some q' \<Longrightarrow> sq q' = sq q @ [sq_user_data e] \<and> flight q' = flight q"
proof -
  have "\<forall>e q. case rl_push L e q of None \<Rightarrow> cap \<le> length (sq q)
      | Some q' \<Rightarrow> sq q' = sq q @ [sq_user_data e] \<and> flight q' = flight q"
    using assms unfolding prompt_ring_def by (elim conjE)
  from this [rule_format, of q e]
  show "rl_push L e q = None \<Longrightarrow> cap \<le> length (sq q)"
    and "rl_push L e q = Some q' \<Longrightarrow> sq q' = sq q @ [sq_user_data e] \<and> flight q' = flight q" by auto
qed

lemma prompt_submit:
  assumes "prompt_ring L cap sq flight"
  obtains q' where "rl_submit L q = (Ok (length (sq q)), q')" "sq q' = []" "flight q' = flight q \<union> set (sq q)"
  using assms unfolding prompt_ring_def by meson

lemma prompt_reap:
  assumes "prompt_ring L cap sq flight" "rl_reap L n q = (cqes, b, q')"
  shows "sq q' = sq q" "distinct (map cq_user_data cqes)" "cq_user_data ` set cqes \<subseteq> flight q"
    and "flight q' = flight q - cq_user_data ` set cqes" "cqe \<in> set cqes \<Longrightarrow> \<not> rl_more L (cq_flags cqe)"
    and "0 < n \<Longrightarrow> flight q \<noteq> {} \<Longrightarrow> cqes \<noteq> []"
proof -
  have "\<forall>n q. case rl_reap L n q of (cqes, _, q') \<Rightarrow>
          sq q' = sq q \<and> distinct (map cq_user_data cqes) \<and> cq_user_data ` set cqes \<subseteq> flight q
          \<and> flight q' = flight q - cq_user_data ` set cqes
          \<and> (\<forall>cqe \<in> set cqes. \<not> rl_more L (cq_flags cqe)) \<and> (0 < n \<and> flight q \<noteq> {} \<longrightarrow> cqes \<noteq> [])"
    using assms(1) unfolding prompt_ring_def by (elim conjE)
  from spec [OF spec [OF this, of n], of q] assms(2)
  show "sq q' = sq q" "distinct (map cq_user_data cqes)" "cq_user_data ` set cqes \<subseteq> flight q"
    and "flight q' = flight q - cq_user_data ` set cqes" "cqe \<in> set cqes \<Longrightarrow> \<not> rl_more L (cq_flags cqe)"
    and "0 < n \<Longrightarrow> flight q \<noteq> {} \<Longrightarrow> cqes \<noteq> []" by auto
qed

section \<open>What is left to do\<close>

definition live_raw :: "(u64, CqeContext) hashmap \<Rightarrow> nat" where
  "live_raw = hm_count (\<lambda>_ c. cx_phase c \<noteq> CtxTerminal)"

definition live_owned :: "(u64, 'h OwnedCqeContext) hashmap \<Rightarrow> nat" where
  "live_owned = hm_count (\<lambda>_ c. oc_phase c \<noteq> CtxTerminal)"

definition unasked :: "(u64, CqeContext) hashmap \<Rightarrow> nat" where
  "unasked = hm_count (\<lambda>_ c. cx_kind c = CtxOriginal \<and> cx_phase c \<noteq> CtxTerminal \<and> \<not> cx_cancel_queued c)"

text \<open>
  A cancellation counts twice while it waits to be staged, then once as a context. The entry of an
  iterator that nobody has asked to cancel counts two more: its stream may overflow, which cancels it.
\<close>

definition data_load :: "('x, 'h) DriverData \<Rightarrow> nat" where
  "data_load d = 2 * (length (dd_cancel_queue d) + length (dd_owned_cancel_queue d)) + live_raw (dd_contexts d)
     + 2 * unasked (dd_contexts d)
     + live_owned (dd_owned_contexts d) + hm_count (\<lambda>_ _. True) (dd_owned_cancel_contexts d) + length (dd_owned_pending d)"

abbreviation oom :: "'a exec \<Rightarrow> bool" where
  "oom \<equiv> stops_with ''memory allocation failed''"

section \<open>The gate of the driver\<close>

definition uring_open :: "nosv_ptr \<Rightarrow> ('x, 'w, 'q, 'u, 'r) UringWorld \<Rightarrow> bool" where
  "uring_open p w \<longleftrightarrow> gate_open p (uw_gate w, uw_log w) \<and> destroys p (uw_log w) = 0"

definition uring_parked :: "('x, 'w, 'q, 'u, 'r) UringWorld \<Rightarrow> bool" where
  "uring_parked w \<longleftrightarrow> gate_parked (uw_gate w, uw_log w)"

lemma driver_notify_world_open:
  assumes "driver_contract (ue_nosv E) p" "uring_open p w"
  shows "\<exists>g h. driver_notify_world E w = Return (w\<lparr>uw_gate := g, uw_log := h\<rparr>)
    \<and> gate_open p (g, h) \<and> destroys p h = 0 \<and> \<not> gate_parked (g, h)"
proof -
  let ?s = "(uw_gate w, uw_log w)"
  from assms(2) have o: "gate_open p ?s" "destroys p (uw_log w) = 0" by (simp_all add: uring_open_def)
  from driver_notify_returns [OF assms(1) o(2,1)] obtain g h where n: "uring_notify (ue_nosv E) ?s = Return (g, h)"
    unfolding uring_notify_def by blast
  from driver_notify_open [OF o(1)] n o have "gate_open p (g, h)" "destroys p h = 0" "\<not> gate_parked (g, h)"
    unfolding uring_notify_def
    by (fastforce simp: gate_open_def gate_parked_def is_destroy_of_def split: if_splits)+
  with n show ?thesis by (auto simp: driver_notify_world_def)
qed

section \<open>Cancellation\<close>

definition closing :: "('x, 'h) DriverData \<Rightarrow> ('x, 'h) DriverData \<Rightarrow> bool" where
  "closing d d' \<longleftrightarrow> driver_inv d' \<and> dd_staged d' = dd_staged d \<and> submitted d' = submitted d \<and> dd_shutdown d' = dd_shutdown d"

lemma closing_trans: "closing a b \<Longrightarrow> closing b c \<Longrightarrow> closing a c"
  by (simp add: closing_def)

lemma closing_refl: "driver_inv d \<Longrightarrow> closing d d"
  by (simp add: closing_def)

lemma queue_cancels_load:
  "queue_cancels ps d commands = Return (d', commands') \<Longrightarrow> hm_wf (dd_contexts d) \<Longrightarrow> distinct ps
    \<Longrightarrow> \<forall>p \<in> set ps. \<exists>c. hm_get (dd_contexts d) p = Some c \<and> cancellable s c
    \<Longrightarrow> length commands' = length commands + length ps \<and> dd_cancel_queue d' = dd_cancel_queue d \<and> live_raw (dd_contexts d') = live_raw (dd_contexts d)
      \<and> unasked (dd_contexts d') + length ps = unasked (dd_contexts d)"
proof (induction ps arbitrary: d commands)
  case (Cons p ps)
  then obtain c where c: "hm_get (dd_contexts d) p = Some c" "cancellable s c" by auto
  let ?m = "hm_update p (\<lambda>c. c\<lparr>cx_cancel_queued := True\<rparr>) (dd_contexts d)"
  let ?k = "\<lparr>cc_target = p, cc_index = cx_index c, cc_user_data = cx_user_data c, cc_state = cx_state c\<rparr>"
  have run: "queue_cancels ps (d\<lparr>dd_contexts := ?m\<rparr>) (commands @ [?k]) = Return (d', commands')"
    using Cons.prems(1) c(1) by simp
  have "live_raw ?m = live_raw (dd_contexts d)" "unasked ?m + 1 = unasked (dd_contexts d)"
    using hm_count_update [OF Cons.prems(2) c(1), where f = "\<lambda>c. c\<lparr>cx_cancel_queued := True\<rparr>" and P = "\<lambda>_ c. cx_phase c \<noteq> CtxTerminal"]
      hm_count_update [OF Cons.prems(2) c(1), where f = "\<lambda>c. c\<lparr>cx_cancel_queued := True\<rparr>"
        and P = "\<lambda>_ c. cx_kind c = CtxOriginal \<and> cx_phase c \<noteq> CtxTerminal \<and> \<not> cx_cancel_queued c"] c(2)
    by (simp_all add: live_raw_def unasked_def cancellable_def)
  with Cons.IH [OF run] Cons.prems(2-4) show ?case by auto
qed simp

lemma request_cancel_closing:
  assumes inv: "driver_inv d" and "delivery \<noteq> DeliveryOpen"
  obtains d' where "request_cancel s delivery d = Return d'" "closing d d'" "data_load d' = data_load d"
proof -
  from inv have raw: "raw_inv d" by (simp add: driver_inv_def)
  from request_cancel_returns [OF raw assms(2), of s] obtain d' m q st
    where r: "request_cancel s delivery d = Return d'"
    and get: "\<forall>p. hm_get (dd_contexts d') p = map_option (\<lambda>c. if cancellable s c then c\<lparr>cx_cancel_queued := True\<rparr> else c)
          (hm_get (dd_contexts d) p)"
    and d': "d' = d\<lparr>dd_contexts := m, dd_cancel_queue := dd_cancel_queue d @ q, dd_states := (dd_states d)(s := st)\<rparr>" by blast
  from request_cancel_inv [OF assms, of s] r have "driver_inv d'" by (metis exec.inject(1))
  moreover have "(\<exists>c. hm_get m r = Some c \<and> cx_phase c = CtxSubmitted)
      \<longleftrightarrow> (\<exists>c. hm_get (dd_contexts d) r = Some c \<and> cx_phase c = CtxSubmitted)" for r
    using get by (cases "hm_get (dd_contexts d) r") (auto simp: d')
  then have "submitted d' = submitted d" by (simp add: submitted_def d')
  ultimately have "closing d d'" by (simp add: closing_def d')
  moreover have "data_load d' = data_load d"
  proof -
    let ?d = "set_state s (close_delivery delivery (dd_states d s)) d"
    from r obtain d1 ks where q1: "queue_cancels (cancel_targets s ?d) ?d [] = Return (d1, ks)"
      and d1: "dd_contexts d' = dd_contexts d1" "dd_cancel_queue d' = dd_cancel_queue d1 @ ks"
      by (auto simp: request_cancel_def Let_def set_state_def split: if_splits)
    have t: "cancel_targets s ?d = cancel_targets s d" "dd_contexts ?d = dd_contexts d"
      by (simp_all add: cancel_targets_def set_state_def)
    from queue_cancels_load [OF q1, of s] raw
    have l: "length ks = length (cancel_targets s d)" "live_raw (dd_contexts d1) = live_raw (dd_contexts d)"
      "unasked (dd_contexts d1) + length (cancel_targets s d) = unasked (dd_contexts d)" "dd_cancel_queue d1 = dd_cancel_queue ?d"
      by (simp_all add: t raw_invD(1) distinct_cancel_targets cancel_targets_iff)
    have "length q = length ks" using l(4) arg_cong [OF d1(2), of length] by (simp add: d' set_state_def)
    with l d1(1) show ?thesis by (simp add: data_load_def d')
  qed
  ultimately show ?thesis using that r by blast
qed

text \<open>The same on the world, with the notification.\<close>

definition world_closing :: "nosv_ptr \<Rightarrow> ('x, 'w, 'q, 'u, 'r) UringWorld \<Rightarrow> ('x, 'w, 'q, 'u, 'r) UringWorld \<Rightarrow> bool" where
  "world_closing p w w' \<longleftrightarrow> closing (uw_data w) (uw_data w') \<and> uw_ring w' = uw_ring w \<and> uw_queue w' = uw_queue w
     \<and> uring_open p w' \<and> (uring_parked w' \<longrightarrow> uring_parked w)"

lemma world_closing_trans: "world_closing p a b \<Longrightarrow> world_closing p b c \<Longrightarrow> world_closing p a c"
  by (auto simp: world_closing_def intro: closing_trans)

lemma notify_closing:
  assumes "driver_contract (ue_nosv E) p" "uring_open p w" "closing (uw_data w) d'"
  obtains w' where "driver_notify_world E (w\<lparr>uw_data := d'\<rparr>) = Return w'" "world_closing p w w'" "\<not> uring_parked w'" "uw_data w' = d'"
proof -
  have "uring_open p (w\<lparr>uw_data := d'\<rparr>)" using assms(2) by (simp add: uring_open_def)
  from driver_notify_world_open [OF assms(1) this] assms(3) that show ?thesis
    by (fastforce simp: world_closing_def uring_open_def uring_parked_def)
qed

lemma cancel_submissions_closing:
  assumes "driver_contract (ue_nosv E) p" "delivery \<noteq> DeliveryOpen"
  shows "driver_inv (uw_data w) \<Longrightarrow> uring_open p w \<Longrightarrow> \<exists>w'. cancel_submissions E delivery ss w = Return w'
    \<and> world_closing p w w' \<and> data_load (uw_data w') = data_load (uw_data w)"
proof (induction ss arbitrary: w)
  case Nil
  then show ?case by (simp add: world_closing_def closing_refl)
next
  case (Cons s ss)
  obtain d where r: "request_cancel s delivery (uw_data w) = Return d" "closing (uw_data w) d" "data_load d = data_load (uw_data w)"
    by (rule request_cancel_closing [OF Cons.prems(1) assms(2)])
  from notify_closing [OF assms(1) Cons.prems(2) r(2)] obtain w1
    where n: "driver_notify_world E (w\<lparr>uw_data := d\<rparr>) = Return w1" "world_closing p w w1" "uw_data w1 = d" by blast
  then have "driver_inv (uw_data w1)" "uring_open p w1" by (simp_all add: world_closing_def closing_def)
  from Cons.IH [OF this] obtain w' where IH: "cancel_submissions E delivery ss w1 = Return w'" "world_closing p w1 w'"
    "data_load (uw_data w') = data_load (uw_data w1)" by blast
  with r n world_closing_trans [OF n(2) IH(2)] show ?case by (simp add: cancel_submission_def)
qed

end
