(* ===== verification/Uring_Shutdown.thy ===== *)
theory Uring_Shutdown
  imports Uring_Load
begin

text \<open>
  How a pass of the ring driver of \<open>src/io_uring.rs\<close> works off what is left: a pass makes \<open>world_load\<close>, the
  \<open>data_load\<close> of the tables with the length of the queue, smaller or leaves nothing to do. This holds
  before and after a shutdown request, also when a stream that nobody reads overflows.
\<close>

section \<open>Staging\<close>

lemma stage_cancels_load:
  assumes L: "alloc_ok L" "prompt_ring L cap sq flight"
  shows "ring_agrees sq flight d q \<Longrightarrow> dd_cancel_queue d = ks
    \<Longrightarrow> oom (stage_cancels L ks (d, q)) \<or> (\<exists>d' q'. stage_cancels L ks (d, q) = Return (d', q')
        \<and> ring_agrees sq flight d' q' \<and> data_load d' + length (dd_staged d') = data_load d + length (dd_staged d)
        \<and> length (dd_staged d) \<le> length (dd_staged d') \<and> (ks \<noteq> [] \<longrightarrow> 0 < length (dd_staged d')))"
proof (induction ks arbitrary: d q)
  case Nil
  then have same: "d\<lparr>dd_cancel_queue := []\<rparr> = d" by (cases d) simp
  from Nil show ?case by (simp add: same)
next
  case (Cons k ks)
  show ?case
  proof (cases "rl_alloc L (live_pointers d)")
    case (Some p)
    with L(1) have fresh: "p \<notin> set (live_pointers d)" by (rule alloc_fresh)
    then have f: "hm_get (dd_contexts d) p = None" "hm_get (dd_owned_contexts d) p = None"
      "hm_get (dd_owned_cancel_contexts d) p = None" by (simp_all add: live_pointers_iff)
    let ?e = "\<lparr>sq_user_data = p, sq_body = rl_async_cancel L (cc_target k)\<rparr>"
    show ?thesis
    proof (cases "rl_push L ?e q")
      case None
      from prompt_push(1) [OF L(2) None] Cons.prems(1) L(2) have "0 < length (dd_staged d)"
        by (auto simp: ring_agrees_def prompt_ring_def)
      moreover have same: "d\<lparr>dd_cancel_queue := k # ks\<rparr> = d" using Cons.prems(2) by (cases d) simp
      ultimately show ?thesis using None Some f Cons.prems by (simp add: hm_contains_def same)
    next
      case pushed: (Some q1)
      let ?c = "\<lparr>cx_kind = CtxCancel, cx_phase = CtxStaged, cx_index = cc_index k, cx_user_data = cc_user_data k,
          cx_state = cc_state k, cx_target = Some (cc_target k), cx_cancel_queued = False, cx_cancel_seen = False\<rparr>"
      let ?d = "d\<lparr>dd_cancel_queue := ks, dd_contexts := hm_insert p ?c (dd_contexts d),
          dd_staged := dd_staged d @ [StagedRaw p]\<rparr>"
      have sub: "submitted ?d = submitted d" using f by (auto simp: submitted_def)
      have agree: "ring_agrees sq flight ?d q1"
        using prompt_push(2) [OF L(2) pushed] Cons.prems(1) by (simp add: ring_agrees_def sub)
      have load: "data_load ?d + length (dd_staged ?d) = data_load d + length (dd_staged d)"
        using Cons.prems(2) by (simp add: data_load_def live_raw_def unasked_def hm_count_insert_fresh [OF f(1)])
      have eq: "stage_cancels L (k # ks) (d, q) = stage_cancels L ks (?d, q1)"
        using Some pushed f by (simp add: hm_contains_def)
      from Cons.IH [OF agree] load show ?thesis
        unfolding eq by fastforce
    qed
  qed (simp add: stops_with_def)
qed

lemma stage_owned_cancels_load:
  assumes L: "alloc_ok L" "prompt_ring L cap sq flight"
  shows "ring_agrees sq flight d q \<Longrightarrow> dd_owned_cancel_queue d = ts
    \<Longrightarrow> oom (stage_owned_cancels L ts (d, q)) \<or> (\<exists>d' q'. stage_owned_cancels L ts (d, q) = Return (d', q')
        \<and> ring_agrees sq flight d' q' \<and> data_load d' + length (dd_staged d') = data_load d + length (dd_staged d)
        \<and> length (dd_staged d) \<le> length (dd_staged d') \<and> (ts \<noteq> [] \<longrightarrow> 0 < length (dd_staged d')))"
proof (induction ts arbitrary: d q)
  case Nil
  then have same: "d\<lparr>dd_owned_cancel_queue := []\<rparr> = d" by (cases d) simp
  from Nil show ?case by (simp add: same)
next
  case (Cons t ts)
  show ?case
  proof (cases "rl_alloc L (live_pointers d)")
    case (Some p)
    with L(1) have fresh: "p \<notin> set (live_pointers d)" by (rule alloc_fresh)
    then have f: "hm_get (dd_contexts d) p = None" "hm_get (dd_owned_contexts d) p = None"
      "hm_get (dd_owned_cancel_contexts d) p = None" by (simp_all add: live_pointers_iff)
    let ?e = "\<lparr>sq_user_data = p, sq_body = rl_async_cancel L t\<rparr>"
    show ?thesis
    proof (cases "rl_push L ?e q")
      case None
      from prompt_push(1) [OF L(2) None] Cons.prems(1) L(2) have "0 < length (dd_staged d)"
        by (auto simp: ring_agrees_def prompt_ring_def)
      moreover have same: "d\<lparr>dd_owned_cancel_queue := t # ts\<rparr> = d" using Cons.prems(2) by (cases d) simp
      ultimately show ?thesis using None Some fresh Cons.prems by (simp add: in_use_iff same)
    next
      case pushed: (Some q1)
      let ?d = "d\<lparr>dd_owned_cancel_queue := ts,
          dd_owned_cancel_contexts := hm_insert p \<lparr>on_phase = CtxStaged, on_target = t\<rparr> (dd_owned_cancel_contexts d),
          dd_staged := dd_staged d @ [StagedOwnedCancel p]\<rparr>"
      have sub: "submitted ?d = submitted d" using f by (auto simp: submitted_def)
      have agree: "ring_agrees sq flight ?d q1"
        using prompt_push(2) [OF L(2) pushed] Cons.prems(1) by (simp add: ring_agrees_def sub)
      have load: "data_load ?d + length (dd_staged ?d) = data_load d + length (dd_staged d)"
        using Cons.prems(2) by (simp add: data_load_def hm_count_insert_fresh [OF f(3)])
      have eq: "stage_owned_cancels L (t # ts) (d, q) = stage_owned_cancels L ts (?d, q1)"
        using Some pushed fresh by (simp add: in_use_iff)
      from Cons.IH [OF agree] load show ?thesis unfolding eq by fastforce
    qed
  qed (simp add: stops_with_def)
qed

text \<open>
  A waiting operation is refused, which takes it off the load, or staged, which keeps it there. With
  nothing refused and nothing staged, nothing waits.
\<close>

lemma stage_owned_load:
  assumes L: "alloc_ok L" "prompt_ring L cap sq flight" "ubq_fifo Q \<alpha>"
  shows "ring_agrees sq flight d q \<Longrightarrow> oom (stage_owned L Q W supported m n failed ((d, u), q))
    \<or> (\<exists>failed' d' u' q'. stage_owned L Q W supported m n failed ((d, u), q) = Return (failed', (d', u'), q')
        \<and> ring_agrees sq flight d' q' \<and> dd_owned_cancel_queue d' = dd_owned_cancel_queue d
        \<and> length failed \<le> length failed' \<and> length (dd_staged d) \<le> length (dd_staged d')
        \<and> data_load d' + length (\<alpha> u') + length failed' = data_load d + length (\<alpha> u) + length failed
        \<and> (0 < n \<and> dd_staged d' = [] \<and> length failed' = length failed \<longrightarrow> dd_owned_pending d' = [] \<and> \<alpha> u' = []))"
proof (induction n arbitrary: failed d u q)
  case (Suc n)
  obtain op d1 u1 where nx: "next_owned Q (d, u) = (op, d1, u1)" by (metis prod.exhaust)
  from next_owned_fifo [OF L(3) nx] obtain rest where d1: "d1 = d\<lparr>dd_owned_pending := rest\<rparr>"
    and wait: "dd_owned_pending d @ \<alpha> u = (case op of None \<Rightarrow> [] | Some x \<Rightarrow> [x]) @ rest @ \<alpha> u1"
    and none: "op = None \<longrightarrow> rest = [] \<and> \<alpha> u1 = []" by blast
  have len: "length (dd_owned_pending d) + length (\<alpha> u) = (case op of None \<Rightarrow> 0 | Some x \<Rightarrow> 1) + length rest + length (\<alpha> u1)"
    using arg_cong [OF wait, of length] by (simp split: option.splits)
  have load1: "data_load d1 + length (\<alpha> u1) + (case op of None \<Rightarrow> 0 | Some x \<Rightarrow> 1) = data_load d + length (\<alpha> u)"
    using len by (simp add: data_load_def d1)
  have agree1: "ring_agrees sq flight d1 q" using Suc.prems by (simp add: ring_agrees_def submitted_def d1)
  show ?case
  proof (cases op)
    case None
    with nx none agree1 load1 show ?thesis by (simp add: d1)
  next
    case (Some x)
    let ?h = "qo_handler x" and ?run = "stage_owned L Q W supported m (Suc n) failed ((d, u), q)"
    show ?thesis
    proof (cases "owned_refusal W supported m (dd_shutdown d) x")
      case r: (Some why)
      then have "?run = stage_owned L Q W supported m n (failed @ [(?h, why)]) ((d1, u1), q)"
        using nx Some d1 by (auto simp: owned_refusal_def Let_def split: if_splits)
      with Suc.IH [OF agree1, of "failed @ [(?h, why)]" u1] load1 Some show ?thesis by (fastforce simp: d1)
    next
      case r: None
      show ?thesis
      proof (cases "rl_alloc L (live_pointers d1)")
        case (Some p)
        with L(1) have "p \<notin> set (live_pointers d1)" by (rule alloc_fresh)
        then have fresh: "\<not> context_pointer_in_use d1 p" "hm_get (dd_contexts d1) p = None" "hm_get (dd_owned_contexts d1) p = None"
          "hm_get (dd_owned_cancel_contexts d1) p = None"
          by (simp_all add: live_pointers_iff in_use_iff)
        have eq: "?run = (case rl_push L (staged_entry W p x) q of
             None \<Rightarrow> Return (failed, (d1\<lparr>dd_owned_pending := x # dd_owned_pending d1\<rparr>, u1), q)
           | Some q \<Rightarrow> stage_owned L Q W supported m n failed
               ((d1\<lparr>dd_owned_contexts := hm_insert p (staged_context x) (dd_owned_contexts d1),
                    dd_staged := dd_staged d1 @ [StagedOwned p]\<rparr>, u1), q))"
          using nx \<open>op = Some x\<close> Some fresh(1) r
          by (simp add: owned_refusal_def staged_entry_def staged_context_def d1 Let_def split: option.split if_splits)
        show ?thesis
        proof (cases "rl_push L (staged_entry W p x) q")
          case None
          from prompt_push(1) [OF L(2) None] L(2) agree1 have "0 < length (dd_staged d1)"
            by (auto simp: ring_agrees_def prompt_ring_def)
          with None eq agree1 load1 \<open>op = Some x\<close> show ?thesis
            by (simp add: d1 ring_agrees_def submitted_def data_load_def)
        next
          case pushed: (Some q1)
          let ?d2 = "d1\<lparr>dd_owned_contexts := hm_insert p (staged_context x) (dd_owned_contexts d1),
              dd_staged := dd_staged d1 @ [StagedOwned p]\<rparr>"
          have "submitted ?d2 = submitted d1" using fresh(3) by (auto simp: submitted_def staged_context_def)
          with prompt_push(2) [OF L(2) pushed] agree1 have agree2: "ring_agrees sq flight ?d2 q1"
            by (simp add: ring_agrees_def staged_entry_def)
          have "data_load ?d2 = data_load d1 + 1"
            using fresh(3) by (simp add: data_load_def live_owned_def hm_count_insert_fresh staged_context_def)
          with Suc.IH [OF agree2, of failed u1] load1 \<open>op = Some x\<close> show ?thesis
            unfolding eq pushed by (fastforce simp: d1)
        qed
      next
        case None
        with nx \<open>op = Some x\<close> r show ?thesis
          by (simp add: owned_refusal_def d1 Let_def stops_with_def split: if_splits)
      qed
    qed
  qed
qed simp

section \<open>Submission\<close>

lemma raw_counts_remove:
  assumes "hm_wf m" "hm_get m p = Some c"
  shows "live_raw m = of_bool (cx_phase c \<noteq> CtxTerminal) + live_raw (hm_remove p m)"
    and "unasked m = of_bool (cx_kind c = CtxOriginal \<and> cx_phase c \<noteq> CtxTerminal \<and> \<not> cx_cancel_queued c) + unasked (hm_remove p m)"
  using assms by (simp_all add: live_raw_def unasked_def hm_count_remove)

lemma raw_counts_update:
  assumes "hm_wf m" "hm_get m p = Some c"
  shows "cx_phase (f c) \<noteq> CtxTerminal \<longleftrightarrow> cx_phase c \<noteq> CtxTerminal \<Longrightarrow> live_raw (hm_update p f m) = live_raw m"
    and "cx_phase (f c) \<noteq> CtxTerminal \<longleftrightarrow> cx_phase c \<noteq> CtxTerminal \<Longrightarrow> cx_kind (f c) = cx_kind c
      \<Longrightarrow> cx_cancel_queued (f c) = cx_cancel_queued c \<Longrightarrow> unasked (hm_update p f m) = unasked m"
  unfolding live_raw_def unasked_def hm_count_update_eq [OF assms] hm_count_remove [OF assms] by simp_all

lemma accept_one_load:
  assumes inv: "driver_inv d" and st: "dd_staged d = e # rest"
    and acc: "accept_one e (d\<lparr>dd_staged := rest\<rparr>) wakes = Return (d', wakes')"
  shows "submitted d' = insert (staged_pointer e) (submitted d) \<and> data_load d' = data_load d
    \<and> dd_cancel_queue d' = dd_cancel_queue d
    \<and> dd_owned_cancel_queue d' = dd_owned_cancel_queue d"
proof -
  from inv have wf: "hm_wf (dd_contexts d)" "hm_wf (dd_owned_contexts d)" "hm_wf (dd_owned_cancel_contexts d)"
    by (auto simp: driver_inv_def raw_invD(1) owned_invD(1,2))
  show ?thesis
  proof (cases e)
    case (StagedRaw p)
    with acc obtain c where c: "hm_get (dd_contexts d) p = Some c" "cx_phase c = CtxStaged"
      by (auto simp: accept_one_def accept_raw_def Let_def split: option.splits if_splits)
    have n: "live_raw (hm_update p (\<lambda>c. c\<lparr>cx_phase := CtxSubmitted\<rparr>) (dd_contexts d)) = live_raw (dd_contexts d)"
      "unasked (hm_update p (\<lambda>c. c\<lparr>cx_phase := CtxSubmitted\<rparr>) (dd_contexts d)) = unasked (dd_contexts d)"
      using raw_counts_update [OF wf(1) c(1), of "\<lambda>c. c\<lparr>cx_phase := CtxSubmitted\<rparr>"] c(2) by simp_all
    from acc StagedRaw c have d': "dd_contexts d' = hm_update p (\<lambda>c. c\<lparr>cx_phase := CtxSubmitted\<rparr>) (dd_contexts d)"
      "dd_owned_contexts d' = dd_owned_contexts d" "dd_owned_cancel_contexts d' = dd_owned_cancel_contexts d"
      "dd_owned_pending d' = dd_owned_pending d" "dd_cancel_queue d' = dd_cancel_queue d"
      "dd_owned_cancel_queue d' = dd_owned_cancel_queue d"
      by (auto simp: accept_one_def accept_raw_def Let_def case_prod_beta split: if_splits)
    have "submitted d' = insert p (submitted d)" using c by (auto simp: submitted_def d')
    then show ?thesis using StagedRaw n by (simp add: data_load_def d')
  next
    case (StagedOwned p)
    with acc obtain c where c: "hm_get (dd_owned_contexts d) p = Some c" "oc_phase c = CtxStaged"
      by (auto simp: accept_one_def accept_owned_def split: option.splits if_splits)
    have n: "live_owned (hm_update p (\<lambda>c. c\<lparr>oc_phase := CtxSubmitted\<rparr>) (dd_owned_contexts d)) = live_owned (dd_owned_contexts d)"
      using hm_count_update [OF wf(2) c(1), of "\<lambda>_ c. oc_phase c \<noteq> CtxTerminal" "\<lambda>c. c\<lparr>oc_phase := CtxSubmitted\<rparr>"] c(2)
      by (simp add: live_owned_def)
    from acc StagedOwned c have d': "d' = d\<lparr>dd_staged := rest,
        dd_owned_contexts := hm_update p (\<lambda>c. c\<lparr>oc_phase := CtxSubmitted\<rparr>) (dd_owned_contexts d)\<rparr>"
      by (auto simp: accept_one_def accept_owned_def)
    have "submitted d' = insert p (submitted d)" using c by (auto simp: submitted_def d')
    then show ?thesis using StagedOwned n by (simp add: data_load_def d')
  next
    case (StagedOwnedCancel p)
    with acc obtain c where c: "hm_get (dd_owned_cancel_contexts d) p = Some c" "on_phase c = CtxStaged"
      by (auto simp: accept_one_def accept_owned_cancel_def split: option.splits if_splits)
    have n: "hm_count (\<lambda>_ _. True) (hm_update p (\<lambda>c. c\<lparr>on_phase := CtxSubmitted\<rparr>) (dd_owned_cancel_contexts d))
        = hm_count (\<lambda>_ _. True) (dd_owned_cancel_contexts d)"
      using hm_count_update [OF wf(3) c(1), of "\<lambda>_ _. True"] by simp
    from acc StagedOwnedCancel c have d': "d' = d\<lparr>dd_staged := rest,
        dd_owned_cancel_contexts := hm_update p (\<lambda>c. c\<lparr>on_phase := CtxSubmitted\<rparr>) (dd_owned_cancel_contexts d)\<rparr>"
      by (auto simp: accept_one_def accept_owned_cancel_def)
    have "submitted d' = insert p (submitted d)" using c by (auto simp: submitted_def d')
    then show ?thesis using StagedOwnedCancel n by (simp add: data_load_def d')
  qed
qed

lemma accept_all_load:
  "driver_inv d \<Longrightarrow> \<exists>d' wakes'. accept_prefix (length (dd_staged d)) d wakes = Return (d', wakes') \<and> driver_inv d'
    \<and> dd_staged d' = [] \<and> submitted d' = submitted d \<union> staged_pointer ` set (dd_staged d) \<and> data_load d' = data_load d
    \<and> dd_cancel_queue d' = dd_cancel_queue d
    \<and> dd_owned_cancel_queue d' = dd_owned_cancel_queue d \<and> dd_owned_pending d' = dd_owned_pending d
    \<and> dd_shutdown d' = dd_shutdown d"
proof (induction "dd_staged d" arbitrary: d wakes)
  case Nil
  then show ?case by (simp flip: Nil(1))
next
  case (Cons e rest)
  from Cons.hyps(2) have st: "dd_staged d = e # rest" by simp
  from accept_one_returns [OF Cons.prems st] obtain d1 w1
    where a: "accept_one e (d\<lparr>dd_staged := rest\<rparr>) wakes = Return (d1, w1)" by blast
  note i = accept_one_driver_inv [OF Cons.prems st a] and l = accept_one_load [OF Cons.prems st a]
  from accept_one_staged [OF _ st a] Cons.prems have s1: "dd_staged d1 = rest" by (simp add: driver_inv_def)
  from Cons.hyps(1) [of d1 w1] s1 i obtain d' w' where "accept_prefix (length rest) d1 w1 = Return (d', w')"
    "driver_inv d'" "dd_staged d' = []" "submitted d' = submitted d1 \<union> staged_pointer ` set rest" "data_load d' = data_load d1"
    "dd_cancel_queue d' = dd_cancel_queue d1"
    "dd_owned_cancel_queue d' = dd_owned_cancel_queue d1" "dd_owned_pending d' = dd_owned_pending d1"
    "dd_shutdown d' = dd_shutdown d1" by auto
  with st a l i show ?case by (intro exI [of _ d'] exI [of _ w']) auto
qed

section \<open>Completions\<close>

lemma dispatch_original_final:
  "\<exists>overflow st wakes'. dispatch_original cqe False p c (d\<lparr>dd_contexts := m\<rparr>) wakes
      = (overflow, d\<lparr>dd_states := (dd_states d)(cx_state c := st), dd_contexts := (if cx_cancel_queued c \<and> \<not> cx_cancel_seen c
          then hm_insert p (c\<lparr>cx_phase := CtxTerminal\<rparr>) m else m)\<rparr>, wakes')"
proof -
  let ?x = "if \<not> si_iterator_finished (dd_states d (cx_state c)) then take_admission_waker (dd_states d (cx_state c)) wakes
    else (dd_states d (cx_state c), wakes)"
  let ?y = "deliver_original \<lparr>cp_index = cx_index c, cp_cqe = cqe\<rparr> (fst ?x) (snd ?x)"
  let ?z = "finish_original (fst (snd ?y)) (snd (snd ?y))"
  show ?thesis
    by (intro exI [of _ "if fst ?y then Some (cx_state c) else None"] exI [of _ "fst ?z"] exI [of _ "snd ?z"])
      (simp add: dispatch_original_def Let_def case_prod_beta set_state_def)
qed

lemma dispatch_cancel_target:
  assumes "dispatch_cancel cqe False c (d\<lparr>dd_contexts := m\<rparr>) wakes = Return (d', wakes')"
  shows "\<exists>t o' st. hm_get m t = Some o' \<and> d' = d\<lparr>dd_states := (dd_states d)(cx_state c := st), dd_contexts := (if cx_phase o' = CtxTerminal
        then hm_remove t (hm_update t (\<lambda>c. c\<lparr>cx_cancel_seen := True\<rparr>) m) else hm_update t (\<lambda>c. c\<lparr>cx_cancel_seen := True\<rparr>) m)\<rparr>"
proof -
  from assms obtain t where t: "cx_target c = Some t" by (auto simp: dispatch_cancel_def split: option.splits)
  with assms obtain o' where o': "hm_get m t = Some o'"
    by (auto simp: dispatch_cancel_def Let_def case_prod_beta set_state_def split: option.splits)
  let ?x = "deliver_cancellation \<lparr>cp_index = cx_index c, cp_cqe = cqe\<rparr> (dd_states d (cx_state c)) wakes"
  from assms t o' show ?thesis
    by (intro exI [of _ t] exI [of _ o'] exI [of _ "fst ?x"])
      (simp add: dispatch_cancel_def Let_def case_prod_beta set_state_def split: if_splits)
qed

lemma live_owned_remove:
  "hm_wf m \<Longrightarrow> hm_get m p = Some c \<Longrightarrow> live_owned m = of_bool (oc_phase c \<noteq> CtxTerminal) + live_owned (hm_remove p m)"
  by (simp add: live_owned_def hm_count_remove)

lemma live_owned_update:
  "hm_wf m \<Longrightarrow> hm_get m p = Some c \<Longrightarrow> (\<And>x. oc_phase (f x) = oc_phase x) \<Longrightarrow> live_owned (hm_update p f m) = live_owned m"
  using hm_count_update [of m p c "\<lambda>_ c. oc_phase c \<noteq> CtxTerminal" f] by (simp add: live_owned_def)

lemma dispatch_raw_load:
  assumes inv: "driver_inv d" and again: "\<not> rl_more L (cq_flags cqe)"
    and c: "hm_get (dd_contexts d) (cq_user_data cqe) = Some c" "cx_phase c = CtxSubmitted"
  shows "\<exists>overflow d' wakes'. dispatch_raw L cqe d wakes = Return (overflow, d', wakes') \<and> data_load d' + 1 \<le> data_load d
    \<and> submitted d' = submitted d - {cq_user_data cqe} \<and> dd_staged d' = dd_staged d"
proof -
  let ?p = "cq_user_data cqe" and ?m = "hm_remove (cq_user_data cqe) (dd_contexts d)"
  from inv have raw: "raw_inv d" and wf: "hm_wf (dd_contexts d)" "hm_wf ?m" by (simp_all add: driver_inv_def raw_invD(1))
  from inv c(1) have other: "hm_get (dd_owned_contexts d) ?p = None" "hm_get (dd_owned_cancel_contexts d) ?p = None"
    by (auto simp: driver_inv_def ptr_inv_def dest: spec [of _ ?p])
  from raw_invD(4) [OF raw c(1)] have nz: "?p \<noteq> 0" by simp
  have load: "live_raw (dd_contexts d) = live_raw ?m + 1" "unasked ?m \<le> unasked (dd_contexts d)"
    using raw_counts_remove [OF wf(1) c(1)] c(2) by simp_all
  show ?thesis
  proof (cases "cx_kind c")
    case CtxOriginal
    let ?d' = "\<lambda>st. d\<lparr>dd_states := (dd_states d)(cx_state c := st), dd_contexts := (if cx_cancel_queued c \<and> \<not> cx_cancel_seen c
            then hm_insert ?p (c\<lparr>cx_phase := CtxTerminal\<rparr>) ?m else ?m)\<rparr>"
    from dispatch_original_final [where cqe = "cqe\<lparr>cq_user_data := cx_user_data c\<rparr>" and p = ?p and c = c and d = d and m = ?m and wakes = wakes] obtain overflow st wakes'
      where o: "dispatch_original (cqe\<lparr>cq_user_data := cx_user_data c\<rparr>) False ?p c (d\<lparr>dd_contexts := ?m\<rparr>) wakes
        = (overflow, ?d' st, wakes')" by blast
    have ins: "live_raw (hm_insert ?p (c\<lparr>cx_phase := CtxTerminal\<rparr>) ?m) = live_raw ?m"
      "unasked (hm_insert ?p (c\<lparr>cx_phase := CtxTerminal\<rparr>) ?m) = unasked ?m"
      by (simp_all add: live_raw_def unasked_def hm_count_insert_fresh)
    have "submitted (?d' st) = submitted d - {?p}" using other by (auto simp: submitted_def split: if_splits)
    moreover have "data_load (?d' st) + 1 \<le> data_load d" using load ins by (simp add: data_load_def)
    ultimately show ?thesis using c again nz CtxOriginal o
      by (intro exI [of _ overflow] exI [of _ "?d' st"] exI [of _ wakes']) (simp add: dispatch_raw_def Let_def)
  next
    case CtxCancel
    from dispatch_raw_returns [OF raw c, of L wakes] again CtxCancel obtain x where x: "dispatch_raw L cqe d wakes = Return x" by blast
    with c again nz CtxCancel obtain d' wakes' where
      k: "dispatch_cancel (cqe\<lparr>cq_user_data := cx_user_data c\<rparr>) False c (d\<lparr>dd_contexts := ?m\<rparr>) wakes = Return (d', wakes')"
      and r: "x = (None, d', wakes')" by (auto simp: dispatch_raw_def Let_def)
    from dispatch_cancel_target [OF k] obtain t o' st where t: "hm_get ?m t = Some o'"
      and d': "d' = d\<lparr>dd_states := (dd_states d)(cx_state c := st), dd_contexts := (if cx_phase o' = CtxTerminal
          then hm_remove t (hm_update t (\<lambda>c. c\<lparr>cx_cancel_seen := True\<rparr>) ?m) else hm_update t (\<lambda>c. c\<lparr>cx_cancel_seen := True\<rparr>) ?m)\<rparr>"
      by blast
    let ?u = "hm_update t (\<lambda>c. c\<lparr>cx_cancel_seen := True\<rparr>) ?m"
    have u: "live_raw ?u = live_raw ?m" "unasked ?u = unasked ?m" "hm_wf ?u" "hm_get ?u t = Some (o'\<lparr>cx_cancel_seen := True\<rparr>)"
      using raw_counts_update [OF wf(2) t] wf(2) t by simp_all
    have "live_raw (dd_contexts d') = live_raw ?m" "unasked (dd_contexts d') = unasked ?m"
      using raw_counts_remove [OF u(3,4)] u(1,2) by (simp_all add: d')
    then have "data_load d' + 1 \<le> data_load d" using load by (simp add: data_load_def d')
    moreover have "submitted d' = submitted d - {?p}"
      using other t by (auto simp: submitted_def d' split: if_splits)
    ultimately show ?thesis using x by (auto simp: r d')
  qed
qed

lemma retire_owned_load:
  assumes inv: "driver_inv d" and raw: "hm_get (dd_contexts d) p = None"
    and r: "retire_owned p False d = Return (h, d')"
  shows "data_load d' + 1 = data_load d \<and> submitted d' = submitted d - {p} \<and> dd_staged d' = dd_staged d
    \<and> dd_states d' = dd_states d \<and> dd_contexts d' = dd_contexts d \<and> dd_cancel_queue d' = dd_cancel_queue d
    \<and> dd_owned_cancel_queue d' = dd_owned_cancel_queue d"
proof -
  from inv have own: "owned_inv d" and wf: "hm_wf (dd_owned_contexts d)" "hm_wf (dd_owned_cancel_contexts d)"
    by (simp_all add: driver_inv_def owned_invD(1,2))
  show ?thesis
  proof (cases "hm_get (dd_owned_contexts d) p")
    case (Some c)
    with inv have other: "hm_get (dd_owned_cancel_contexts d) p = None"
      by (auto simp: driver_inv_def ptr_inv_def dest: spec [of _ p])
    from Some r have c: "oc_phase c = CtxSubmitted" and d': "d' = d\<lparr>dd_owned_contexts :=
        (if oc_awaits c then hm_insert p (c\<lparr>oc_phase := CtxTerminal, oc_handler := None\<rparr>)
           (hm_remove p (dd_owned_contexts d)) else hm_remove p (dd_owned_contexts d))\<rparr>"
      by (auto simp: retire_owned_def oc_awaits_def Let_def split: if_splits option.splits)
    have "live_owned (dd_owned_contexts d') + 1 = live_owned (dd_owned_contexts d)"
      using live_owned_remove [OF wf(1) Some] c by (simp add: d' live_owned_def hm_count_insert_fresh)
    moreover have "submitted d' = submitted d - {p}"
      using raw other by (auto simp: submitted_def d' split: if_splits)
    ultimately show ?thesis by (simp add: data_load_def d')
  next
    case None
    show ?thesis
    proof (rule retire_owned_cancelE [OF r None])
      fix k o'
      assume k: "hm_get (dd_owned_cancel_contexts d) p = Some k" "on_phase k = CtxSubmitted"
        and o': "hm_get (dd_owned_contexts d) (on_target k) = Some o'"
        and d': "d' = d\<lparr>dd_owned_cancel_contexts := hm_remove p (dd_owned_cancel_contexts d),
          dd_owned_contexts := (if oc_phase o' = CtxTerminal then hm_remove (on_target k) (dd_owned_contexts d)
            else hm_update (on_target k) (\<lambda>c. c\<lparr>oc_cancel_seen := True\<rparr>) (dd_owned_contexts d))\<rparr>"
      have "live_owned (dd_owned_contexts d') = live_owned (dd_owned_contexts d)"
        using live_owned_remove [OF wf(1) o'] live_owned_update [OF wf(1) o'] by (simp add: d')
      moreover have "hm_count (\<lambda>_ _. True) (dd_owned_cancel_contexts d)
          = 1 + hm_count (\<lambda>_ _. True) (dd_owned_cancel_contexts d')"
        using hm_count_remove [OF wf(2) k(1), of "\<lambda>_ _. True"] by (simp add: d')
      moreover have "submitted d' = submitted d - {p}"
        using raw None o' by (auto simp: submitted_def d' split: if_splits)
      ultimately show ?thesis by (simp add: data_load_def d')
    qed
  qed
qed

text \<open>A world as the driver leaves it between passes, ready for the next one.\<close>

definition serving ::
  "('q \<Rightarrow> u64 list) \<Rightarrow> ('q \<Rightarrow> u64 set) \<Rightarrow> ('x, 'w, 'q, 'u, 'r) UringWorld \<Rightarrow> bool" where
  "serving sq flight w \<longleftrightarrow> driver_inv (uw_data w)
     \<and> (\<exists>q. uw_ring w = Some q \<and> ring_agrees sq flight (uw_data w) q)"

definition world_load :: "('u \<Rightarrow> 'b list) \<Rightarrow> ('x, 'w, 'q, 'u, 'r) UringWorld \<Rightarrow> nat" where
  "world_load \<alpha> w = data_load (uw_data w) + length (\<alpha> (uw_queue w))"

definition gate_same :: "('x, 'w, 'q, 'u, 'r) UringWorld \<Rightarrow> ('x, 'w, 'q, 'u, 'r) UringWorld \<Rightarrow> bool" where
  "gate_same w w' \<longleftrightarrow> uw_gate w' = uw_gate w \<and> uw_log w' = uw_log w"

lemma submitted_legal:
  assumes inv: "driver_inv d" and p: "cq_user_data cqe \<in> submitted d" and "\<not> rl_more L (cq_flags cqe)"
  shows "kernel_legal L d cqe"
proof -
  let ?p = "cq_user_data cqe"
  from inv have "ptr_inv d" by (simp add: driver_inv_def)
  from spec [OF this [unfolded ptr_inv_def], of ?p]
  have one: "hm_get (dd_contexts d) ?p = None \<or> hm_get (dd_owned_contexts d) ?p = None"
    "hm_get (dd_contexts d) ?p = None \<or> hm_get (dd_owned_cancel_contexts d) ?p = None"
    "hm_get (dd_owned_contexts d) ?p = None \<or> hm_get (dd_owned_cancel_contexts d) ?p = None" by simp_all
  from p consider (raw) c where "hm_get (dd_contexts d) ?p = Some c" "cx_phase c = CtxSubmitted"
    | (own) c where "hm_get (dd_owned_contexts d) ?p = Some c" "oc_phase c = CtxSubmitted"
    | (cancel) k where "hm_get (dd_owned_cancel_contexts d) ?p = Some k" "on_phase k = CtxSubmitted"
    unfolding submitted_def by blast
  then show ?thesis using one assms(3) by cases (simp_all add: kernel_legal_def Let_def)
qed

lemma dispatch_load:
  assumes inv: "driver_inv (uw_data w)"
    and p: "cq_user_data cqe \<in> submitted (uw_data w)" and again: "\<not> rl_more (ue_ring E) (cq_flags cqe)"
  shows "\<exists>overflow wakes' m d'. dispatch E cqe wakes w = Return (overflow, wakes', w\<lparr>uw_data := d', uw_store := m\<rparr>)
    \<and> driver_inv d' \<and> data_load d' + 1 \<le> data_load (uw_data w)
    \<and> submitted d' = submitted (uw_data w) - {cq_user_data cqe} \<and> dd_staged d' = dd_staged (uw_data w)
    \<and> dd_shutdown d' = dd_shutdown (uw_data w)"
proof -
  let ?d = "uw_data w" and ?p = "cq_user_data cqe"
  note legal = submitted_legal [OF inv p again]
  show ?thesis
  proof (cases "hm_get (dd_contexts ?d) ?p")
    case (Some c)
    from legal Some have "cx_phase c = CtxSubmitted" by (simp add: kernel_legal_def Let_def)
    from dispatch_raw_load [where L = "ue_ring E" and cqe = cqe and wakes = wakes, OF inv again Some this] obtain overflow d' wakes'
      where r: "dispatch_raw (ue_ring E) cqe ?d wakes = Return (overflow, d', wakes')" "data_load d' + 1 \<le> data_load ?d"
        "submitted d' = submitted ?d - {?p}" "dd_staged d' = dd_staged ?d" by blast
    from dispatch_raw_frame [OF inv r(1)] r Some show ?thesis
      by (intro exI [of _ overflow] exI [of _ wakes'] exI [of _ "uw_store w"] exI [of _ d'])
        (simp add: dispatch_def hm_contains_def same_owned_def)
  next
    case None
    from dispatch_returns [OF inv legal, of wakes] None obtain x
      where "dispatch_owned (ue_ring E) (ue_work E) cqe (?d, uw_store w) wakes = Return x"
      by (auto simp: dispatch_def hm_contains_def)
    then obtain h d' where r: "retire_owned ?p False ?d = Return (h, d')" "?p \<noteq> 0"
      using again by (auto simp: dispatch_owned_def split: if_splits)
    note l = retire_owned_load [OF inv None r(1)] and i = retire_owned_inv [OF inv r(1)]
    show ?thesis
    proof (cases h)
      case None
      with \<open>hm_get (dd_contexts ?d) ?p = None\<close> r again l i show ?thesis
        by (intro exI [of _ None] exI [of _ wakes] exI [of _ "uw_store w"] exI [of _ d'])
          (simp add: dispatch_def hm_contains_def dispatch_owned_def same_raw_def)
    next
      case (Some t)
      obtain k m where c: "handler_complete (ue_work E) t (cq_result cqe) (uw_store w) = (k, m)" by (rule prod.exhaust)
      with \<open>hm_get (dd_contexts ?d) ?p = None\<close> Some r again l i show ?thesis
        by (intro exI [of _ None] exI [of _ "push_waker k wakes"] exI [of _ m] exI [of _ d'])
          (simp add: dispatch_def hm_contains_def dispatch_owned_def same_raw_def)
    qed
  qed
qed

lemma dispatch_all_load:
  "driver_inv (uw_data w) \<Longrightarrow> distinct (map cq_user_data cqes)
    \<Longrightarrow> cq_user_data ` set cqes \<subseteq> submitted (uw_data w) \<Longrightarrow> \<forall>cqe \<in> set cqes. \<not> rl_more (ue_ring E) (cq_flags cqe)
    \<Longrightarrow> \<exists>overflow' wakes' m d'. dispatch_all E cqes overflow wakes w = Return (overflow', wakes', w\<lparr>uw_data := d', uw_store := m\<rparr>)
      \<and> driver_inv d' \<and> data_load d' + length cqes \<le> data_load (uw_data w)
      \<and> submitted d' = submitted (uw_data w) - cq_user_data ` set cqes \<and> dd_staged d' = dd_staged (uw_data w)
      \<and> dd_shutdown d' = dd_shutdown (uw_data w) \<and> (cqes = [] \<longrightarrow> d' = uw_data w \<and> overflow' = overflow)"
proof (induction cqes arbitrary: overflow w wakes)
  case Nil
  then show ?case by (intro exI [of _ overflow] exI [of _ wakes] exI [of _ "uw_store w"] exI [of _ "uw_data w"]) simp
next
  case (Cons cqe cqes)
  from Cons.prems(3,4) have p: "cq_user_data cqe \<in> submitted (uw_data w)" "\<not> rl_more (ue_ring E) (cq_flags cqe)" by simp_all
  from dispatch_load [where wakes = wakes, OF Cons.prems(1) p] obtain o1 wakes1 m1 d1
    where d: "dispatch E cqe wakes w = Return (o1, wakes1, w\<lparr>uw_data := d1, uw_store := m1\<rparr>)"
      and i: "driver_inv d1" "data_load d1 + 1 \<le> data_load (uw_data w)"
      "submitted d1 = submitted (uw_data w) - {cq_user_data cqe}" "dd_staged d1 = dd_staged (uw_data w)"
      "dd_shutdown d1 = dd_shutdown (uw_data w)" by blast
  let ?w = "w\<lparr>uw_data := d1, uw_store := m1\<rparr>" and ?o = "case o1 of None \<Rightarrow> overflow | Some s \<Rightarrow> overflow @ [s]"
  have w: "driver_inv (uw_data ?w)" "distinct (map cq_user_data cqes)"
    "cq_user_data ` set cqes \<subseteq> submitted (uw_data ?w)" "\<forall>cqe \<in> set cqes. \<not> rl_more (ue_ring E) (cq_flags cqe)"
    using Cons.prems(2-4) i by (simp_all add: subset_iff image_iff) metis
  from Cons.IH [where wakes = wakes1 and overflow = ?o, OF w] obtain o' wakes' m d'
    where r: "dispatch_all E cqes ?o wakes1 ?w = Return (o', wakes', ?w\<lparr>uw_data := d', uw_store := m\<rparr>)"
      and j: "driver_inv d'" "data_load d' + length cqes \<le> data_load (uw_data ?w)"
      "submitted d' = submitted (uw_data ?w) - cq_user_data ` set cqes" "dd_staged d' = dd_staged (uw_data ?w)"
      "dd_shutdown d' = dd_shutdown (uw_data ?w)" by blast
  have "submitted d' = submitted (uw_data w) - cq_user_data ` set (cqe # cqes)" using i(3) j(3) by auto
  with d i r j show ?case
    by (intro exI [of _ o'] exI [of _ wakes'] exI [of _ m] exI [of _ d']) simp
qed

section \<open>A pass\<close>

lemma hm_empty: "(\<And>p. hm_get m p = None) \<Longrightarrow> m = []"
proof (cases m)
  case (Cons a m')
  obtain k v where "a = (k, v)" by (cases a)
  moreover assume "\<And>p. hm_get m p = None"
  then have "hm_get m k = None" .
  ultimately show ?thesis using Cons by simp
qed simp

text \<open>Nothing queued, staged or with the kernel: nothing at all, for a terminal context waits for its cancellation.\<close>

lemma quiet_idle:
  assumes inv: "driver_inv d" and st: "dd_staged d = []" and sub: "submitted d = {}"
    and q: "dd_cancel_queue d = []" "dd_owned_cancel_queue d = []" "dd_owned_pending d = []"
  shows "idle_data d"
proof -
  from inv have raw: "raw_inv d" and own: "owned_inv d" by (simp_all add: driver_inv_def)
  note R = raw_invD [OF raw] and O = owned_invD [OF own]
  have rt: "cx_phase c = CtxTerminal" if c: "hm_get (dd_contexts d) p = Some c" for p c
  proof -
    from R(2) [of p] st c have "cx_phase c \<noteq> CtxStaged" by (auto simp: of_bool_def split: if_splits)
    moreover from sub c have "cx_phase c \<noteq> CtxSubmitted" by (auto simp: submitted_def)
    ultimately show ?thesis by (cases "cx_phase c") simp_all
  qed
  have ot: "oc_phase c = CtxTerminal" if c: "hm_get (dd_owned_contexts d) p = Some c" for p c
  proof -
    from O(3) [of p] st c have "oc_phase c \<noteq> CtxStaged" by (auto simp: of_bool_def split: if_splits)
    moreover from sub c have "oc_phase c \<noteq> CtxSubmitted" by (auto simp: submitted_def)
    ultimately show ?thesis by (cases "oc_phase c") simp_all
  qed
  have none: "hm_get (dd_owned_cancel_contexts d) p = None" for p
  proof (rule ccontr)
    assume "hm_get (dd_owned_cancel_contexts d) p \<noteq> None"
    then obtain k where k: "hm_get (dd_owned_cancel_contexts d) p = Some k" by blast
    from O(4) [of p] st k have "on_phase k \<noteq> CtxStaged" by (auto simp: of_bool_def split: if_splits)
    moreover from sub k have "on_phase k \<noteq> CtxSubmitted" by (auto simp: submitted_def)
    ultimately show False using O(7) [OF k] by (cases "on_phase k") simp_all
  qed
  then have cancels: "dd_owned_cancel_contexts d = []" by (rule hm_empty)
  have "hm_get (dd_contexts d) p = None" for p
  proof (rule ccontr)
    assume "hm_get (dd_contexts d) p \<noteq> None"
    then obtain c where c: "hm_get (dd_contexts d) p = Some c" by blast
    from R(4) [OF c] rt [OF c] have "awaits_cancel c" by (simp add: shape_ok_def)
    with R(3) [of p] c q have "cancels_for p (dd_contexts d) \<noteq> 0" by (simp add: commands_for_def)
    with R(1) obtain r k where k: "hm_get (dd_contexts d) r = Some k" "cx_kind k = CtxCancel"
      by (auto simp: cancels_for_def hm_count_zero_iff)
    from R(4) [OF k(1)] rt [OF k(1)] k(2) show False by (simp add: shape_ok_def)
  qed
  then have "dd_contexts d = []" by (rule hm_empty)
  moreover have "hm_get (dd_owned_contexts d) p = None" for p
  proof (rule ccontr)
    assume "hm_get (dd_owned_contexts d) p \<noteq> None"
    then obtain c where c: "hm_get (dd_owned_contexts d) p = Some c" by blast
    from O(6) [OF c] ot [OF c] have "oc_awaits c" by (simp add: oc_shape_def)
    with O(5) [of p] c q cancels show False by (simp add: owned_cancels_for_def)
  qed
  then have "dd_owned_contexts d = []" by (rule hm_empty)
  ultimately show ?thesis using st q cancels by (simp add: idle_data_def)
qed

lemma wake_admissions_states: "\<exists>st. fst (wake_admissions ss d wakes) = d\<lparr>dd_states := st\<rparr>"
proof (induction ss arbitrary: d wakes)
  case Nil
  show ?case by (intro exI [of _ "dd_states d"]) simp
next
  case (Cons s ss)
  let ?x = "take_admission_waker (dd_states d s) wakes"
  from Cons.IH [of d wakes] Cons.IH [of "set_state s (fst ?x) d" "snd ?x"] show ?case
    by (auto simp: case_prod_beta set_state_def)
qed

lemma cancellations_load:
  assumes L: "alloc_ok L" "prompt_ring L cap sq flight" and agree: "ring_agrees sq flight d q"
    and inv: "driver_inv d"
  shows "oom (exec_bind (stage_cancellations L (d, q)) (stage_owned_cancellations L))
    \<or> (\<exists>d' q'. exec_bind (stage_cancellations L (d, q)) (stage_owned_cancellations L) = Return (d', q')
      \<and> ring_agrees sq flight d' q' \<and> driver_inv d' \<and> dd_shutdown d' = dd_shutdown d
      \<and> dd_owned_pending d' = dd_owned_pending d \<and> length (dd_staged d) \<le> length (dd_staged d')
      \<and> data_load d' + length (dd_staged d') = data_load d + length (dd_staged d)
      \<and> (dd_staged d' = [] \<longrightarrow> dd_cancel_queue d' = [] \<and> dd_owned_cancel_queue d' = []))"
  using stage_cancels_load [OF L agree refl]
proof
  assume "oom (stage_cancels L (dd_cancel_queue d) (d, q))"
  then show ?thesis by (simp add: stage_cancellations_def)
next
  assume "\<exists>d' q'. stage_cancels L (dd_cancel_queue d) (d, q) = Return (d', q') \<and> ring_agrees sq flight d' q'
      \<and> data_load d' + length (dd_staged d') = data_load d + length (dd_staged d)
      \<and> length (dd_staged d) \<le> length (dd_staged d') \<and> (dd_cancel_queue d \<noteq> [] \<longrightarrow> 0 < length (dd_staged d'))"
  then obtain d1 q1 where s1: "stage_cancellations L (d, q) = Return (d1, q1)" and a1: "ring_agrees sq flight d1 q1"
    and l1: "data_load d1 + length (dd_staged d1) = data_load d + length (dd_staged d)"
      "length (dd_staged d) \<le> length (dd_staged d1)" "dd_cancel_queue d \<noteq> [] \<longrightarrow> 0 < length (dd_staged d1)"
    by (auto simp: stage_cancellations_def)
  note i1 = stage_cancellations_inv [OF L(1) inv s1]
  have e1: "dd_cancel_queue d1 = []" if "dd_cancel_queue d = []"
    using s1 that by (auto simp: stage_cancellations_def)
  from stage_owned_cancels_load [OF L a1 refl] show ?thesis
  proof
    assume "oom (stage_owned_cancels L (dd_owned_cancel_queue d1) (d1, q1))"
    then show ?thesis by (simp add: s1 stage_owned_cancellations_def)
  next
    assume "\<exists>d' q'. stage_owned_cancels L (dd_owned_cancel_queue d1) (d1, q1) = Return (d', q')
      \<and> ring_agrees sq flight d' q' \<and> data_load d' + length (dd_staged d') = data_load d1 + length (dd_staged d1)
      \<and> length (dd_staged d1) \<le> length (dd_staged d') \<and> (dd_owned_cancel_queue d1 \<noteq> [] \<longrightarrow> 0 < length (dd_staged d'))"
    then obtain d2 q2 where s2: "stage_owned_cancels L (dd_owned_cancel_queue d1) (d1, q1) = Return (d2, q2)"
      and a2: "ring_agrees sq flight d2 q2" and l2: "data_load d2 + length (dd_staged d2) = data_load d1 + length (dd_staged d1)"
      "length (dd_staged d1) \<le> length (dd_staged d2)" "dd_owned_cancel_queue d1 \<noteq> [] \<longrightarrow> 0 < length (dd_staged d2)" by blast
    from i1 have "driver_inv d1" by simp
    note i2 = stage_owned_cancels_inv [OF L(1) this refl s2]
    have "dd_owned_cancel_queue d2 = []" if "dd_owned_cancel_queue d1 = []" using s2 that by auto
    then have "dd_staged d2 = [] \<longrightarrow> dd_cancel_queue d2 = [] \<and> dd_owned_cancel_queue d2 = []"
      using l1(3) l2(2,3) e1 i2 by (auto simp: same_raw_def)
    moreover have "dd_shutdown d2 = dd_shutdown d" "dd_owned_pending d2 = dd_owned_pending d"
      using i1 i2 by (simp_all add: same_owned_def same_raw_def)
    moreover have "exec_bind (stage_cancellations L (d, q)) (stage_owned_cancellations L) = Return (d2, q2)"
      by (simp add: s1 stage_owned_cancellations_def s2)
    ultimately show ?thesis using a2 i2 l1(1,2) l2(1,2) by auto
  qed
qed

text \<open>What the kernel took is submitted; nothing stays staged.\<close>

lemma submit_staged_load:
  assumes P: "prompt_ring L cap sq flight" and agree: "ring_agrees sq flight d q" and inv: "driver_inv d"
  obtains d' q' wakes where "submit_staged C L (d, q) [] = Return ((d', q'), wakes)" "driver_inv d'" "dd_staged d' = []"
    and "submitted d' = submitted d \<union> staged_pointer ` set (dd_staged d)" "data_load d' = data_load d"
    and "dd_cancel_queue d' = dd_cancel_queue d" "dd_owned_cancel_queue d' = dd_owned_cancel_queue d"
    and "dd_owned_pending d' = dd_owned_pending d" "dd_shutdown d' = dd_shutdown d" "ring_agrees sq flight d' q'"
proof -
  from prompt_submit [OF P, of q] obtain q'
    where sub: "rl_submit L q = (Ok (length (sq q)), q')" "sq q' = []" "flight q' = flight q \<union> set (sq q)" .
  have len: "length (sq q) = length (dd_staged d)" using agree by (simp add: ring_agrees_def)
  from accept_all_load [OF inv, of "[]"] obtain d' wakes
    where s: "accept_prefix (length (dd_staged d)) d [] = Return (d', wakes)" and i: "driver_inv d'"
      and st: "dd_staged d' = []" and sb: "submitted d' = submitted d \<union> staged_pointer ` set (dd_staged d)"
      and l: "data_load d' = data_load d"
      and e: "dd_cancel_queue d' = dd_cancel_queue d" "dd_owned_cancel_queue d' = dd_owned_cancel_queue d"
        "dd_owned_pending d' = dd_owned_pending d" and sd: "dd_shutdown d' = dd_shutdown d"
    by blast
  have "submit_staged C L (d, q) [] = Return ((d', q'), wakes)"
    using sub(1) s by (simp add: submit_staged_def len)
  moreover have "ring_agrees sq flight d' q'"
    using sub(2,3) st sb agree by (simp add: ring_agrees_def)
  ultimately show ?thesis using that i st sb l e sd by blast
qed

lemma stage_section_load:
  assumes L: "alloc_ok (ue_ring E)" "prompt_ring (ue_ring E) cap sq flight" "ubq_fifo (ue_queue E) \<alpha>"
    and budget: "0 < unat (cf_entries (ue_config E))" and dr: "serving sq flight w"
  shows "oom (stage_section E live w) \<or> (\<exists>failed wakes w'. stage_section E live w = Return (failed, wakes, w')
    \<and> serving sq flight w' \<and> dd_shutdown (uw_data w') = dd_shutdown (uw_data w) \<and> gate_same w w'
    \<and> dd_staged (uw_data w') = [] \<and> world_load \<alpha> w' \<le> world_load \<alpha> w
    \<and> (world_load \<alpha> w' = world_load \<alpha> w \<longrightarrow> submitted (uw_data w') \<noteq> {} \<or> idle_data (uw_data w') \<and> \<alpha> (uw_queue w') = []))"
proof -
  let ?L = "ue_ring E" and ?d = "uw_data w" and ?u = "uw_queue w" and ?n = "unat (cf_entries (ue_config E))"
  let ?cancels = "\<lambda>dq. exec_bind (stage_cancellations ?L dq) (stage_owned_cancellations ?L)"
  let ?stage = "\<lambda>d q. stage_owned ?L (ue_queue E) (ue_work E) (ue_supported E) (uw_store w) ?n [] ((d, ?u), q)"
  from dr obtain q where q: "uw_ring w = Some q" and agree: "ring_agrees sq flight ?d q"
    and inv: "driver_inv ?d" by (auto simp: serving_def)
  from cancellations_load [OF L(1,2) agree inv] show ?thesis
  proof
    assume "oom (?cancels (?d, q))"
    then show ?thesis by (auto simp: stage_section_def q)
  next
    assume "\<exists>d' q'. ?cancels (?d, q) = Return (d', q')
      \<and> ring_agrees sq flight d' q' \<and> driver_inv d' \<and> dd_shutdown d' = dd_shutdown ?d
      \<and> dd_owned_pending d' = dd_owned_pending ?d \<and> length (dd_staged ?d) \<le> length (dd_staged d')
      \<and> data_load d' + length (dd_staged d') = data_load ?d + length (dd_staged ?d)
      \<and> (dd_staged d' = [] \<longrightarrow> dd_cancel_queue d' = [] \<and> dd_owned_cancel_queue d' = [])"
    then obtain d2 q2 where s2: "?cancels (?d, q) = Return (d2, q2)"
      and a2: "ring_agrees sq flight d2 q2" and i2: "driver_inv d2"
      and sd2: "dd_shutdown d2 = dd_shutdown ?d"
      and l2: "length (dd_staged ?d) \<le> length (dd_staged d2)"
        "data_load d2 + length (dd_staged d2) = data_load ?d + length (dd_staged ?d)"
        "dd_staged d2 = [] \<Longrightarrow> dd_cancel_queue d2 = [] \<and> dd_owned_cancel_queue d2 = []" by blast
    from s2 obtain dq where s1: "stage_cancellations ?L (?d, q) = Return dq" "stage_owned_cancellations ?L dq = Return (d2, q2)"
      by auto
    from stage_owned_load [OF L, OF a2, of "ue_work E" "ue_supported E" "uw_store w" ?n "[]" ?u] show ?thesis
    proof
      assume "oom (?stage d2 q2)"
      then show ?thesis using s1 by (auto simp: stage_section_def q)
    next
      assume "\<exists>failed' d' u' q'. ?stage d2 q2 = Return (failed', (d', u'), q')
        \<and> ring_agrees sq flight d' q' \<and> dd_owned_cancel_queue d' = dd_owned_cancel_queue d2
        \<and> length [] \<le> length failed' \<and> length (dd_staged d2) \<le> length (dd_staged d')
        \<and> data_load d' + length (\<alpha> u') + length failed' = data_load d2 + length (\<alpha> ?u) + length []
        \<and> (0 < ?n \<and> dd_staged d' = [] \<and> length failed' = length [] \<longrightarrow> dd_owned_pending d' = [] \<and> \<alpha> u' = [])"
      then obtain failed d3 u' q3 where s3: "?stage d2 q2 = Return (failed, (d3, u'), q3)" and a3: "ring_agrees sq flight d3 q3"
        and oc3: "dd_owned_cancel_queue d3 = dd_owned_cancel_queue d2"
        and l3: "length (dd_staged d2) \<le> length (dd_staged d3)"
          "data_load d3 + length (\<alpha> u') + length failed = data_load d2 + length (\<alpha> ?u)"
        and none3: "dd_staged d3 = [] \<Longrightarrow> failed = [] \<Longrightarrow> dd_owned_pending d3 = [] \<and> \<alpha> u' = []" using budget by auto
      from stage_owned_inv [OF L(1,3) i2 s3] have i3: "driver_inv d3" and raw3: "same_raw d2 d3" by blast+
      from submit_staged_load [OF L(2) a3 i3, of "ue_libc E"] obtain d4 q4 wakes4
        where s4: "submit_staged (ue_libc E) ?L (d3, q3) [] = Return ((d4, q4), wakes4)" and i4: "driver_inv d4"
          and st4: "dd_staged d4 = []" and sub4: "submitted d4 = submitted d3 \<union> staged_pointer ` set (dd_staged d3)"
          and l4: "data_load d4 = data_load d3"
          and e4: "dd_cancel_queue d4 = dd_cancel_queue d3" "dd_owned_cancel_queue d4 = dd_owned_cancel_queue d3"
            "dd_owned_pending d4 = dd_owned_pending d3" and sd4: "dd_shutdown d4 = dd_shutdown d3"
          and a4: "ring_agrees sq flight d4 q4" .
      define woken where "woken = (if dd_owned_pending d4 = [] \<and> dd_owned_cancel_queue d4 = [] \<and> ubq_is_empty (ue_queue E) u'
          then wake_admissions (filter live (dd_submissions d4)) d4 wakes4 else (d4, wakes4))"
      have "\<exists>st. fst woken = d4\<lparr>dd_states := st\<rparr>"
        using wake_admissions_states [of "filter live (dd_submissions d4)" d4 wakes4]
        by (auto simp: woken_def intro!: exI [of _ "dd_states d4"])
      then obtain st5 where d5: "fst woken = d4\<lparr>dd_states := st5\<rparr>" by blast
      have i5: "driver_inv (fst woken)"
        using wake_admissions_inv [OF i4, of "filter live (dd_submissions d4)" wakes4] i4 by (simp add: woken_def)
      let ?w' = "w\<lparr>uw_data := fst woken, uw_queue := u', uw_ring := Some q4\<rparr>"
      have run: "stage_section E live w = Return (failed, snd woken, ?w')"
        by (simp add: stage_section_def q s1 s3 s4 woken_def case_prod_beta del: exec_bind_Return_iff)
      have "serving sq flight ?w'"
        using i5 a4 by (simp add: serving_def d5 ring_agrees_def submitted_def)
      moreover have "dd_shutdown (uw_data ?w') = dd_shutdown ?d"
        using sd2 sd4 raw3 by (simp add: d5 same_raw_def)
      moreover have load: "world_load \<alpha> ?w' + length failed + length (dd_staged d2) = world_load \<alpha> w + length (dd_staged ?d)"
        using l2(2) l3(2) l4 by (simp add: world_load_def d5 data_load_def)
      moreover have "submitted (uw_data ?w') \<noteq> {} \<or> idle_data (uw_data ?w') \<and> \<alpha> (uw_queue ?w') = []"
        if same: "world_load \<alpha> ?w' = world_load \<alpha> w"
      proof (cases "submitted (uw_data ?w') = {}")
        case True
        then have none: "submitted d4 = {}" by (simp add: d5 submitted_def)
        then have "dd_staged d3 = []" using sub4 by simp
        moreover have "length failed = 0" using load same l2(1) by linarith
        ultimately have w3: "dd_owned_pending d3 = []" "\<alpha> u' = []" and "dd_staged d2 = []" using none3 l3(1) by simp_all
        then have "dd_cancel_queue d4 = []" "dd_owned_cancel_queue d4 = []"
          using l2(3) e4 oc3 raw3 by (simp_all add: same_raw_def)
        with quiet_idle [OF i4 st4 none] e4 w3 show ?thesis by (simp add: d5 idle_data_def)
      qed simp
      moreover have "world_load \<alpha> ?w' \<le> world_load \<alpha> w" using load l2(1) by linarith
      moreover have "dd_staged (uw_data ?w') = []" by (simp add: d5 st4)
      ultimately show ?thesis using run by (auto simp: gate_same_def)
    qed
  qed
qed

lemma driver_pass_load:
  assumes L: "alloc_ok (ue_ring E)" "prompt_ring (ue_ring E) cap sq flight" "ubq_fifo (ue_queue E) \<alpha>"
    and budget: "0 < unat (cf_entries (ue_config E))" "0 < cf_reap_size (ue_config E)"
    and N: "driver_contract (ue_nosv E) p" and dr: "serving sq flight w" "uring_open p w"
  shows "oom (driver_pass E live w) \<or> (\<exists>wakes backlog w'. driver_pass E live w = Return (wakes, backlog, w')
    \<and> serving sq flight w' \<and> dd_shutdown (uw_data w') = dd_shutdown (uw_data w)
    \<and> uring_open p w' \<and> (uring_parked w' \<longrightarrow> uring_parked w)
    \<and> (world_load \<alpha> w' < world_load \<alpha> w \<or> idle_data (uw_data w') \<and> \<alpha> (uw_queue w') = []))"
  using stage_section_load [OF L budget(1) dr(1), of live]
proof
  assume "oom (stage_section E live w)"
  then show ?thesis by (simp add: driver_pass_def)
next
  assume "\<exists>failed wakes w'. stage_section E live w = Return (failed, wakes, w')
    \<and> serving sq flight w' \<and> dd_shutdown (uw_data w') = dd_shutdown (uw_data w) \<and> gate_same w w'
    \<and> dd_staged (uw_data w') = [] \<and> world_load \<alpha> w' \<le> world_load \<alpha> w
    \<and> (world_load \<alpha> w' = world_load \<alpha> w \<longrightarrow> submitted (uw_data w') \<noteq> {} \<or> idle_data (uw_data w') \<and> \<alpha> (uw_queue w') = [])"
  then obtain failed wakes1 w1 where s: "stage_section E live w = Return (failed, wakes1, w1)" and dr1: "serving sq flight w1"
    and sd1: "dd_shutdown (uw_data w1) = dd_shutdown (uw_data w)"
    and g1: "gate_same w w1" and st: "dd_staged (uw_data w1) = []" and le: "world_load \<alpha> w1 \<le> world_load \<alpha> w"
    and eq: "world_load \<alpha> w1 = world_load \<alpha> w \<Longrightarrow> submitted (uw_data w1) \<noteq> {} \<or> idle_data (uw_data w1) \<and> \<alpha> (uw_queue w1) = []"
    by blast
  obtain wakes2 w2 where f: "fail_section E failed wakes1 w1 = (wakes2, w2)" by (rule prod.exhaust)
  then have w2: "uw_data w2 = uw_data w1" "uw_queue w2 = uw_queue w1" "uw_ring w2 = uw_ring w1" "uw_gate w2 = uw_gate w1"
    "uw_log w2 = uw_log w1"
    by (auto simp: fail_section_def split: prod.splits)
  from dr1 obtain q where q: "uw_ring w2 = Some q" and agree: "ring_agrees sq flight (uw_data w2) q"
    and inv: "driver_inv (uw_data w2)"
    by (auto simp: serving_def w2)
  obtain cqes b q3 where r: "rl_reap (ue_ring E) (cf_reap_size (ue_config E)) q = (cqes, b, q3)" by (metis prod.exhaust)
  note reap = prompt_reap [OF L(2) r]
  let ?backlog = "length cqes = cf_reap_size (ue_config E) \<or> \<not> b" and ?w3 = "w2\<lparr>uw_ring := Some q3\<rparr>"
  have reaped: "reap_section E w2 = Return (cqes, ?backlog, ?w3)" by (simp add: reap_section_def q r)
  have sub: "cq_user_data ` set cqes \<subseteq> submitted (uw_data ?w3)" using reap(3) agree by (simp add: ring_agrees_def)
  have inv3: "driver_inv (uw_data ?w3)" using inv by simp
  from dispatch_all_load [where wakes = wakes2 and overflow = "[]" and E = E, OF inv3 reap(2) sub] reap(5) obtain overflow wakes' m d'
    where d: "dispatch_all E cqes [] wakes2 ?w3 = Return (overflow, wakes', ?w3\<lparr>uw_data := d', uw_store := m\<rparr>)"
      and i: "driver_inv d'" "data_load d' + length cqes \<le> data_load (uw_data ?w3)"
      "submitted d' = submitted (uw_data ?w3) - cq_user_data ` set cqes" "dd_staged d' = dd_staged (uw_data ?w3)"
      "dd_shutdown d' = dd_shutdown (uw_data ?w3)" "cqes = [] \<longrightarrow> d' = uw_data ?w3 \<and> overflow = []" by blast
  let ?w4 = "?w3\<lparr>uw_data := d', uw_store := m\<rparr>"
  have o4: "driver_inv (uw_data ?w4)" "uring_open p ?w4" "uring_parked ?w4 = uring_parked w"
    using i(1) dr(2) g1 w2 by (simp_all add: gate_same_def uring_open_def uring_parked_def)
  have "DeliveryOverflow \<noteq> DeliveryOpen" by simp
  from cancel_submissions_closing [OF N this o4(1,2), of overflow] obtain w'
    where c: "cancel_submissions E DeliveryOverflow overflow ?w4 = Return w'" "world_closing p ?w4 w'"
      and l: "data_load (uw_data w') = data_load d'" by auto
  from c(2) have w': "driver_inv (uw_data w')" "dd_staged (uw_data w') = dd_staged d'" "submitted (uw_data w') = submitted d'"
    "dd_shutdown (uw_data w') = dd_shutdown d'" "uw_ring w' = Some q3" "uw_queue w' = uw_queue w1" "uring_open p w'"
    "uring_parked w' \<longrightarrow> uring_parked w"
    using o4(3) w2 by (simp_all add: world_closing_def closing_def)
  have run: "driver_pass E live w = Return (wakes', ?backlog, w')"
    using s f reaped d c(1) by (simp add: driver_pass_def)
  moreover have "serving sq flight w'"
    using w' i reap(1,4) agree st by (simp add: serving_def ring_agrees_def w2)
  moreover have "dd_shutdown (uw_data w') = dd_shutdown (uw_data w)" using w' i(5) sd1 by (simp add: w2)
  moreover have "world_load \<alpha> w' < world_load \<alpha> w \<or> idle_data (uw_data w') \<and> \<alpha> (uw_queue w') = []"
  proof (cases "cqes = []")
    case True
    with reap(6) budget(2) agree have "submitted (uw_data w1) = {}" by (auto simp: ring_agrees_def w2)
    moreover have "uw_data w' = uw_data w1" using c(1) i(6) True by (auto simp: w2)
    ultimately show ?thesis using eq le by (cases "world_load \<alpha> w1 = world_load \<alpha> w") (auto simp: w2 w' world_load_def)
  next
    case False
    then have "0 < length cqes" by simp
    moreover have "world_load \<alpha> w' + length cqes \<le> world_load \<alpha> w1" using i(2) l w' by (simp add: world_load_def w2)
    ultimately show ?thesis using le by linarith
  qed
  ultimately show ?thesis using w' by blast
qed

end
