(* ===== verification/Uring_Life.thy ===== *)
theory Uring_Life
  imports Uring_Shutdown
begin

text \<open>
  The life of the ring driver of \<open>src/io_uring.rs\<close>: from the shutdown request through the passes that
  drain it (\<open>Uring_Shutdown\<close>) to the end of \<open>run\<close> and the completion callback that retires it.
\<close>

section \<open>The gate of the driver\<close>

text \<open>The loop leaves the descriptor behind, in the terminal phase, and drops the ring.\<close>

definition uring_ended :: "nosv_ptr \<Rightarrow> ('x, 'w, 'q, 'u, 'r) UringWorld \<Rightarrow> bool" where
  "uring_ended p w \<longleftrightarrow> dg_phase (uw_gate w) = Park_Terminal \<and> dg_raw (uw_gate w) = Some (RawTask p)
     \<and> destroys p (uw_log w) = 0 \<and> uw_ring w = None"

text \<open>nOS-V promises that the driver can set and flush its submit window, yield and park.\<close>

definition run_contract :: "'z nosv_scheme \<Rightarrow> bool" where
  "run_contract N \<longleftrightarrow> park_contract N \<and> (\<forall>h. from_code N (nosv_yield N h) = Ok ()
     \<and> from_code N (nosv_flush_submit_window N h) = Ok () \<and> (\<forall>n. from_code N (nosv_set_submit_window_size N h n) = Ok ()))"

lemma run_park_returns:
  assumes "run_contract N"
  shows "\<exists>h'. driver_park N f mode h = Return h' \<and> destroys p h' = destroys p h"
proof (cases "mode = ParkYield")
  case True
  with assms show ?thesis by (simp add: driver_park_def ffi_yield_now_def run_contract_def is_destroy_of_def)
next
  case False
  with assms driver_park_returns [of N mode f h] obtain h' where h': "driver_park N f mode h = Return h'"
    by (auto simp: run_contract_def)
  with driver_park_log show ?thesis by blast
qed

section \<open>An environment without new work\<close>

definition draining ::
  "('q \<Rightarrow> u64 list) \<Rightarrow> ('q \<Rightarrow> u64 set) \<Rightarrow> ('x, 'w, 'q, 'u, 'r) UringWorld \<Rightarrow> bool" where
  "draining sq flight w \<longleftrightarrow> serving sq flight w \<and> dd_shutdown (uw_data w)"

text \<open>
  Once shutdown is requested every other thread is refused new work; what it may still do is notify the
  driver, poll, or cancel what is already cancelled. Of that the proof needs only that it succeeds,
  keeps what the passes rely on, and adds nothing that is left to do.
\<close>

definition adds_no_work ::
  "('q \<Rightarrow> u64 list) \<Rightarrow> ('q \<Rightarrow> u64 set) \<Rightarrow> ('u \<Rightarrow> 'b list) \<Rightarrow> nosv_ptr
    \<Rightarrow> (('x, 'w, 'q, 'u, 'r) UringWorld \<Rightarrow> ('x, 'w, 'q, 'u, 'r) UringWorld exec) \<Rightarrow> bool" where
  "adds_no_work sq flight \<alpha> p f \<longleftrightarrow> (\<forall>w. draining sq flight w \<longrightarrow> uring_open p w \<longrightarrow> (\<exists>w'. f w = Return w'
     \<and> draining sq flight w' \<and> uring_open p w' \<and> (uring_parked w' \<longrightarrow> uring_parked w)
     \<and> world_load \<alpha> w' \<le> world_load \<alpha> w
     \<and> (idle_data (uw_data w) \<longrightarrow> \<alpha> (uw_queue w) = [] \<longrightarrow> idle_data (uw_data w') \<and> \<alpha> (uw_queue w') = [])))"

lemma adds_no_workD:
  assumes "adds_no_work sq flight \<alpha> p f" "draining sq flight w" "uring_open p w"
  obtains w' where "f w = Return w'" "draining sq flight w'" "uring_open p w'" "uring_parked w' \<Longrightarrow> uring_parked w"
    and "world_load \<alpha> w' \<le> world_load \<alpha> w"
    and "idle_data (uw_data w) \<Longrightarrow> \<alpha> (uw_queue w) = [] \<Longrightarrow> idle_data (uw_data w') \<and> \<alpha> (uw_queue w') = []"
  using assms unfolding adds_no_work_def by blast

lemma nothing_adds_no_work: "adds_no_work sq flight \<alpha> p Return"
  by (simp add: adds_no_work_def)

lemma notify_adds_no_work:
  "driver_contract (ue_nosv E) p \<Longrightarrow> adds_no_work sq flight \<alpha> p (driver_notify_world E)"
  unfolding adds_no_work_def
  using driver_notify_world_open [of E p]
  by (fastforce simp: draining_def serving_def uring_open_def uring_parked_def world_load_def)

lemma draining_log [simp]:
  "draining sq flight (w\<lparr>uw_log := h\<rparr>) \<longleftrightarrow> draining sq flight w"
  "draining sq flight (w\<lparr>uw_gate := g\<rparr>) \<longleftrightarrow> draining sq flight w"
  by (simp_all add: draining_def serving_def)

lemma world_load_log [simp]:
  "world_load \<alpha> (w\<lparr>uw_log := h\<rparr>) = world_load \<alpha> w" "world_load \<alpha> (w\<lparr>uw_gate := g\<rparr>) = world_load \<alpha> w"
  by (simp_all add: world_load_def)

lemma uring_open_log:
  "uring_open p w \<Longrightarrow> destroys p h = 0 \<Longrightarrow> uring_open p (w\<lparr>uw_log := h\<rparr>)"
  "uring_parked (w\<lparr>uw_log := h\<rparr>) \<longleftrightarrow> uring_parked w"
  by (simp_all add: uring_open_def uring_parked_def gate_open_def gate_parked_def)

section \<open>One iteration\<close>

lemma wake_batch_load:
  assumes c: "run_contract (ue_nosv E)" "adds_no_work sq flight \<alpha> p during"
    and w: "draining sq flight w" "uring_open p w" "\<not> uring_parked w"
  obtains w' where "wake_batch E wakes during w = Return w'" "draining sq flight w'" "uring_open p w'" "\<not> uring_parked w'"
    and "world_load \<alpha> w' \<le> world_load \<alpha> w"
    and "idle_data (uw_data w) \<Longrightarrow> \<alpha> (uw_queue w) = [] \<Longrightarrow> idle_data (uw_data w') \<and> \<alpha> (uw_queue w') = []"
proof (cases "wakes = []")
  case True
  from adds_no_workD [OF c(2) w(1,2)] w(3) that True show ?thesis by (auto simp: wake_batch_def)
next
  case False
  let ?h = "uw_log w @ [CSetWindow (word_of_nat (length wakes))]" and ?N = "ue_nosv E"
  have o: "uring_open p (w\<lparr>uw_log := ?h\<rparr>)"
    using w(2) uring_open_log(1) [OF w(2)] by (simp add: uring_open_def is_destroy_of_def)
  have "draining sq flight (w\<lparr>uw_log := ?h\<rparr>)" using w(1) by simp
  from adds_no_workD [OF c(2) this o] obtain w1
    where d: "during (w\<lparr>uw_log := ?h\<rparr>) = Return w1" "draining sq flight w1" "uring_open p w1"
      "uring_parked w1 \<Longrightarrow> uring_parked (w\<lparr>uw_log := ?h\<rparr>)" "world_load \<alpha> w1 \<le> world_load \<alpha> (w\<lparr>uw_log := ?h\<rparr>)"
      "idle_data (uw_data (w\<lparr>uw_log := ?h\<rparr>)) \<Longrightarrow> \<alpha> (uw_queue (w\<lparr>uw_log := ?h\<rparr>)) = []
        \<Longrightarrow> idle_data (uw_data w1) \<and> \<alpha> (uw_queue w1) = []"
    by blast
  let ?w' = "w1\<lparr>uw_log := uw_log w1 @ [CFlushWindow]\<rparr>"
  have "uring_open p ?w'" using d(3) uring_open_log(1) [OF d(3)] by (simp add: uring_open_def is_destroy_of_def)
  moreover have "wake_batch E wakes during w = Return ?w'"
    using False c(1) d(1)
    by (simp add: wake_batch_def ffi_set_submit_window_size_def ffi_flush_submit_window_def run_contract_def)
  ultimately show ?thesis using that d w(3) by (auto simp: uring_open_log(2))
qed

lemma uring_iteration_load:
  assumes L: "alloc_ok (ue_ring E)" "prompt_ring (ue_ring E) cap sq flight" "ubq_fifo (ue_queue E) \<alpha>"
    and budget: "0 < unat (cf_entries (ue_config E))" "0 < cf_reap_size (ue_config E)"
    and c: "run_contract (ue_nosv E)" and N: "driver_contract (ue_nosv E) p" and env: "\<And>f. f \<in> {during, before, parked} \<Longrightarrow> adds_no_work sq flight \<alpha> p f"
    and w: "draining sq flight w" "uring_open p w" "\<not> uring_parked w"
  shows "oom (uring_iteration E live during before parked w)
    \<or> (\<exists>go w'. uring_iteration E live during before parked w = Return (go, w')
        \<and> (if go then draining sq flight w' \<and> uring_open p w' \<and> \<not> uring_parked w' \<and> world_load \<alpha> w' < world_load \<alpha> w
           else uring_ended p w' \<and> idle_data (uw_data w') \<and> \<alpha> (uw_queue w') = []))"
  using driver_pass_load [OF L budget N w(1) [unfolded draining_def, THEN conjunct1] w(2), of live]
proof
  assume "oom (driver_pass E live w)"
  then show ?thesis by (simp add: uring_iteration_def)
next
  assume "\<exists>wakes backlog w'. driver_pass E live w = Return (wakes, backlog, w') \<and> serving sq flight w'
    \<and> dd_shutdown (uw_data w') = dd_shutdown (uw_data w) \<and> uring_open p w' \<and> (uring_parked w' \<longrightarrow> uring_parked w)
    \<and> (world_load \<alpha> w' < world_load \<alpha> w \<or> idle_data (uw_data w') \<and> \<alpha> (uw_queue w') = [])"
  then obtain wakes backlog w1 where pass: "driver_pass E live w = Return (wakes, backlog, w1)"
    and d1': "serving sq flight w1" "dd_shutdown (uw_data w1) = dd_shutdown (uw_data w)"
    and o1: "uring_open p w1" "\<not> uring_parked w1"
    and l1: "world_load \<alpha> w1 < world_load \<alpha> w \<or> idle_data (uw_data w1) \<and> \<alpha> (uw_queue w1) = []" using w(3) by blast
  then have d1: "draining sq flight w1" using w(1) by (simp add: draining_def)
  from wake_batch_load [OF c env d1 o1, of during wakes] obtain w2
    where wake: "wake_batch E wakes during w1 = Return w2" and d2: "draining sq flight w2" and o2: "uring_open p w2" "\<not> uring_parked w2"
      and l2: "world_load \<alpha> w2 \<le> world_load \<alpha> w1"
      and idle2: "idle_data (uw_data w1) \<Longrightarrow> \<alpha> (uw_queue w1) = [] \<Longrightarrow> idle_data (uw_data w2) \<and> \<alpha> (uw_queue w2) = []"
    by blast
  let ?decision = "decide (uw_data w2) backlog (ubq_is_empty (ue_queue E) (uw_queue w2))"
  have stop: "?decision = RunStop \<longleftrightarrow> idle_data (uw_data w2) \<and> \<alpha> (uw_queue w2) = []"
    using d2 L(3) by (auto simp: decide_stop_iff draining_def serving_def ubq_fifo_def)
  show ?thesis
  proof (cases "?decision = RunStop")
    case True
    with pass wake have "uring_iteration E live during before parked w
        = Return (False, w2\<lparr>uw_ring := None, uw_gate := (uw_gate w2)\<lparr>dg_phase := Park_Terminal\<rparr>\<rparr>)"
      by (simp add: uring_iteration_def Let_def)
    with True stop o2(1) show ?thesis by (auto simp: uring_ended_def uring_open_def gate_open_def)
  next
    case False
    with stop l1 l2 idle2 have less: "world_load \<alpha> w2 < world_load \<alpha> w" by auto
    from adds_no_workD [OF env d2 o2(1), of before] obtain w3
      where b: "before w2 = Return w3" and d3: "draining sq flight w3" and o3: "uring_open p w3"
        and p3: "uring_parked w3 \<Longrightarrow> uring_parked w2" and l3: "world_load \<alpha> w3 \<le> world_load \<alpha> w2" by blast
    let ?mode = "decision_mode (ue_config E) ?decision"
    obtain should g where arm: "driver_arm ?mode (uw_gate w3) = (should, g)" by (rule prod.exhaust)
    let ?w4 = "w3\<lparr>uw_gate := g\<rparr>"
    have o4: "uring_open p ?w4" "\<not> should \<Longrightarrow> \<not> uring_parked ?w4"
      using o3 arm by (auto simp: driver_arm_def uring_open_def uring_parked_def gate_open_def gate_parked_def
          split: if_splits park_mode.splits)
    show ?thesis
    proof (cases should)
      case no: False
      with pass wake False b arm have "uring_iteration E live during before parked w = Return (True, ?w4)"
        by (simp add: uring_iteration_def Let_def)
      with d3 o4 no less l3 show ?thesis by simp
    next
      case yes: True
      from run_park_returns [OF c] obtain h
        where h: "driver_park (ue_nosv E) ''driver could not yield or park'' ?mode (uw_log w3) = Return h"
          "destroys p h = destroys p (uw_log w3)" by blast
      have "uring_open p (?w4\<lparr>uw_log := h\<rparr>)" using o4(1) h(2) o3 by (intro uring_open_log) (simp_all add: uring_open_def)
      from adds_no_workD [OF env _ this, of parked] d3 obtain w5
        where k: "parked (?w4\<lparr>uw_log := h\<rparr>) = Return w5" and d5: "draining sq flight w5" and o5: "uring_open p w5"
          and l5: "world_load \<alpha> w5 \<le> world_load \<alpha> w3" by auto
      let ?w6 = "w5\<lparr>uw_gate := driver_resume (uw_gate w5)\<rparr>"
      have "uring_iteration E live during before parked w = Return (True, ?w6)"
        using pass wake False b arm yes h(1) k by (simp add: uring_iteration_def Let_def)
      moreover have "uring_open p ?w6" "\<not> uring_parked ?w6"
        using o5 by (simp_all add: uring_open_def uring_parked_def gate_open_def gate_parked_def driver_resume_def)
      ultimately show ?thesis using d5 less l3 l5 by simp
    qed
  qed
qed

section \<open>The loop ends\<close>

definition quiet_env ::
  "('q \<Rightarrow> u64 list) \<Rightarrow> ('q \<Rightarrow> u64 set) \<Rightarrow> ('u \<Rightarrow> 'b list) \<Rightarrow> nosv_ptr
    \<Rightarrow> (nat \<Rightarrow> (nat \<Rightarrow> bool) \<times> (('x, 'w, 'q, 'u, 'r) UringWorld \<Rightarrow> ('x, 'w, 'q, 'u, 'r) UringWorld exec)
         \<times> (('x, 'w, 'q, 'u, 'r) UringWorld \<Rightarrow> ('x, 'w, 'q, 'u, 'r) UringWorld exec)
         \<times> (('x, 'w, 'q, 'u, 'r) UringWorld \<Rightarrow> ('x, 'w, 'q, 'u, 'r) UringWorld exec)) \<Rightarrow> bool" where
  "quiet_env sq flight \<alpha> p env \<longleftrightarrow> (\<forall>n. case env n of (live, during, before, parked) \<Rightarrow>
     adds_no_work sq flight \<alpha> p during \<and> adds_no_work sq flight \<alpha> p before \<and> adds_no_work sq flight \<alpha> p parked)"

lemma quiet_envD:
  "quiet_env sq flight \<alpha> p env \<Longrightarrow> env n = (live, during, before, parked) \<Longrightarrow> f \<in> {during, before, parked}
    \<Longrightarrow> adds_no_work sq flight \<alpha> p f"
  unfolding quiet_env_def by (drule spec [of _ n]) auto

lemma uring_run_load:
  assumes L: "alloc_ok (ue_ring E)" "prompt_ring (ue_ring E) cap sq flight" "ubq_fifo (ue_queue E) \<alpha>"
    and budget: "0 < unat (cf_entries (ue_config E))" "0 < cf_reap_size (ue_config E)" and c: "run_contract (ue_nosv E)"
    and N: "driver_contract (ue_nosv E) p" and env: "quiet_env sq flight \<alpha> p env"
  shows "draining sq flight w \<Longrightarrow> uring_open p w \<Longrightarrow> \<not> uring_parked w \<Longrightarrow> world_load \<alpha> w < fuel
    \<Longrightarrow> \<exists>x. uring_run E env fuel w = Some x
      \<and> (oom x \<or> (\<exists>w'. x = Return w' \<and> uring_ended p w' \<and> idle_data (uw_data w') \<and> \<alpha> (uw_queue w') = []))"
proof (induction fuel arbitrary: w)
  case (Suc fuel)
  obtain live during before parked where e: "env fuel = (live, during, before, parked)" by (metis prod.exhaust)
  let ?it = "uring_iteration E live during before parked w"
  from uring_iteration_load [OF L budget c N quiet_envD [OF env e] Suc.prems(1-3), where live = live] show ?case
  proof
    assume "oom ?it"
    with e show ?thesis by (auto simp: stops_with_def)
  next
    assume "\<exists>go w'. ?it = Return (go, w')
        \<and> (if go then draining sq flight w' \<and> uring_open p w' \<and> \<not> uring_parked w' \<and> world_load \<alpha> w' < world_load \<alpha> w
           else uring_ended p w' \<and> idle_data (uw_data w') \<and> \<alpha> (uw_queue w') = [])"
    then obtain go w' where it: "?it = Return (go, w')"
      and go: "if go then draining sq flight w' \<and> uring_open p w' \<and> \<not> uring_parked w' \<and> world_load \<alpha> w' < world_load \<alpha> w
           else uring_ended p w' \<and> idle_data (uw_data w') \<and> \<alpha> (uw_queue w') = []" by blast
    show ?thesis
    proof (cases go)
      case True
      with go Suc.IH [of w'] Suc.prems(4) it e show ?thesis by simp
    next
      case False
      with go it e show ?thesis by simp
    qed
  qed
qed simp

section \<open>The request\<close>

lemma request_owned_cancel_closing:
  assumes "driver_inv d"
  shows "closing d (request_owned_cancel c d)"
proof -
  have "submitted (request_owned_cancel c d) = submitted d"
    by (auto simp: submitted_def request_owned_cancel_def split: option.split prod.split if_splits)
  then show ?thesis
    using request_owned_cancel_inv [OF assms, of c]
    by (auto simp: closing_def request_owned_cancel_def split: option.split prod.split)
qed

lemma cancel_all_owned_closing:
  assumes "driver_contract (ue_nosv E) p"
  shows "driver_inv (uw_data w) \<Longrightarrow> uring_open p w \<Longrightarrow> \<exists>w'. cancel_all_owned E cs w = Return w' \<and> world_closing p w w'"
proof (induction cs arbitrary: w)
  case Nil
  then show ?case by (simp add: world_closing_def closing_refl)
next
  case (Cons c cs)
  from notify_closing [OF assms Cons.prems(2) request_owned_cancel_closing [OF Cons.prems(1)]] obtain w1
    where n: "driver_notify_world E (w\<lparr>uw_data := request_owned_cancel c (uw_data w)\<rparr>) = Return w1" "world_closing p w w1"
    by blast
  then have "driver_inv (uw_data w1)" "uring_open p w1" by (simp_all add: world_closing_def closing_def)
  from Cons.IH [OF this] obtain w' where IH: "cancel_all_owned E cs w1 = Return w'" "world_closing p w1 w'" by blast
  with n world_closing_trans [OF n(2) IH(2)] show ?case by (simp add: cancel_owned_def)
qed

lemma uring_request_shutdown_drains:
  assumes "driver_contract (ue_nosv E) p" "driver_inv (uw_data w)" "uring_open p w"
    and "uw_ring w = Some q" "ring_agrees sq flight (uw_data w) q"
  obtains w' where "uring_request_shutdown E live w = Return w'" "draining sq flight w'" "uring_open p w'" "\<not> uring_parked w'"
proof -
  let ?d = "(uw_data w)\<lparr>dd_accepting := False, dd_shutdown := True\<rparr>"
  let ?w = "w\<lparr>uw_admission := False, uw_data := ?d\<rparr>"
  have i: "driver_inv (uw_data ?w)" using driver_inv_flags [OF assms(2)] by simp
  have o: "uring_open p ?w" using assms(3) by (simp add: uring_open_def)
  have "DeliveryDetached \<noteq> DeliveryOpen" by simp
  from cancel_submissions_closing [OF assms(1) this i o, of "filter live (dd_submissions ?d)"] obtain w1
    where s1: "cancel_submissions E DeliveryDetached (filter live (dd_submissions ?d)) ?w = Return w1"
      and c1: "world_closing p ?w w1" by blast
  from c1 have "driver_inv (uw_data w1)" "uring_open p w1" by (simp_all add: world_closing_def closing_def)
  from cancel_all_owned_closing [OF assms(1) this, of "owned_in_flight ?d"] obtain w2
    where s2: "cancel_all_owned E (owned_in_flight ?d) w1 = Return w2" and c2: "world_closing p w1 w2" by blast
  from c2 have i2: "driver_inv (uw_data w2)" and o2: "uring_open p w2" by (simp_all add: world_closing_def closing_def)
  from notify_closing [OF assms(1) o2 closing_refl [OF i2]] obtain w3
    where s3: "driver_notify_world E w2 = Return w3" and c3: "world_closing p w2 w3" and p3: "\<not> uring_parked w3" by auto
  note c = world_closing_trans [OF world_closing_trans [OF c1 c2] c3]
  have run: "uring_request_shutdown E live w = Return w3" using s1 s2 s3 by (simp add: uring_request_shutdown_def Let_def)
  have "ring_agrees sq flight (uw_data w3) q"
    using c assms(5) by (simp add: ring_agrees_def world_closing_def closing_def submitted_def)
  then have "draining sq flight w3"
    using c assms(4) by (simp add: draining_def serving_def world_closing_def closing_def)
  with that run p3 c show ?thesis by (simp add: world_closing_def)
qed

section \<open>The end\<close>

lemma uring_completed_after_end:
  assumes "driver_contract (ue_nosv E) p" "owner_installed (ue_nosv E) p i own" "uring_ended p w1"
  shows "\<exists>own' w2. uring_completed_callback E p own w1 = Return (own', w2) \<and> uw_completed w2
    \<and> destroys p (uw_log w2) = 1 \<and> ow_strong own' = remove1 i (ow_strong own)"
proof -
  let ?w1 = "w1\<lparr>uw_log := uw_log w1 @ [CMetadata p]\<rparr>"
  have e: "destroys p (uw_log w1 @ [CMetadata p]) = 0" using assms(3) by (simp add: uring_ended_def)
  have "fst (ffi_destroy (ue_nosv E) (RawTask p) (uw_log ?w1)) = Ok ()"
    using assms(1) e by (simp add: driver_contract_def ffi_destroy_def)
  with assms(3) have "driver_retire (ue_nosv E) a b c (uw_gate ?w1, uw_log ?w1)
      = Return ((uw_gate ?w1)\<lparr>dg_raw := None, dg_phase := Park_Destroyed\<rparr>, uw_log ?w1 @ [CDestroy p])" for a b c
    by (simp add: driver_retire_Return_iff uring_ended_def ffi_destroy_log)
  with e show ?thesis
    by (simp add: uring_completed_callback_def callback_entry_installed [OF assms(2)] uring_retire_def uring_gate_retire_def)
qed

lemma uring_shutdown_life:
  assumes "alloc_ok (ue_ring E)" "prompt_ring (ue_ring E) cap sq flight" "ubq_fifo (ue_queue E) \<alpha>"
    and "0 < unat (cf_entries (ue_config E))" "0 < cf_reap_size (ue_config E)"
    and "run_contract (ue_nosv E)" "driver_contract (ue_nosv E) p" "owner_installed (ue_nosv E) p i own"
    and "driver_inv (uw_data w)" "uring_open p w"
    and "uw_ring w = Some q" "ring_agrees sq flight (uw_data w) q" "quiet_env sq flight \<alpha> p env"
  shows "\<exists>w0. uring_request_shutdown E live w = Return w0
    \<and> (\<forall>fuel > world_load \<alpha> w0. uring_run E env fuel w0 = Some (Abort ''memory allocation failed'')
      \<or> (\<exists>w1 own' w2. uring_run E env fuel w0 = Some (Return w1)
          \<and> idle_data (uw_data w1) \<and> \<alpha> (uw_queue w1) = [] \<and> uring_ended p w1
          \<and> uring_completed_callback E p own w1 = Return (own', w2) \<and> uw_completed w2
          \<and> destroys p (uw_log w2) = 1 \<and> ow_strong own' = remove1 i (ow_strong own)))"
proof -
  obtain w0 where w0: "uring_request_shutdown E live w = Return w0"
    and d: "draining sq flight w0" "uring_open p w0" "\<not> uring_parked w0"
    by (rule uring_request_shutdown_drains [OF assms(7,9-12)])
  have "uring_run E env fuel w0 = Some (Abort ''memory allocation failed'')
      \<or> (\<exists>w1 own' w2. uring_run E env fuel w0 = Some (Return w1)
          \<and> idle_data (uw_data w1) \<and> \<alpha> (uw_queue w1) = [] \<and> uring_ended p w1
          \<and> uring_completed_callback E p own w1 = Return (own', w2) \<and> uw_completed w2
          \<and> destroys p (uw_log w2) = 1 \<and> ow_strong own' = remove1 i (ow_strong own))"
    if "world_load \<alpha> w0 < fuel" for fuel
  proof -
    from uring_run_load [OF assms(1-7,13) d that] obtain x where x: "uring_run E env fuel w0 = Some x"
      "oom x \<or> (\<exists>w'. x = Return w' \<and> uring_ended p w' \<and> idle_data (uw_data w') \<and> \<alpha> (uw_queue w') = [])" by blast
    from x(2) show ?thesis
    proof
      assume "oom x"
      with x(1) show ?thesis by (simp add: stops_with_def)
    next
      assume "\<exists>w'. x = Return w' \<and> uring_ended p w' \<and> idle_data (uw_data w') \<and> \<alpha> (uw_queue w') = []"
      then obtain w1 where w1: "x = Return w1" "uring_ended p w1" "idle_data (uw_data w1)" "\<alpha> (uw_queue w1) = []" by blast
      with x(1) uring_completed_after_end [OF assms(7,8) w1(2)] show ?thesis by auto
    qed
  qed
  with w0 show ?thesis by blast
qed

section \<open>Property\<close>

text \<open>
  C28: the life of the ring driver closes. Whatever the driver has reached, a shutdown request succeeds,
  and from then on, on a kernel that completes what it is given and with no new work from other
  threads, the loop of \<open>run\<close> returns within as many iterations as there is work left, unless memory
  runs out. It has then forgotten every operation, cancellation and queued request and dropped the ring;
  the completion callback succeeds, marks the driver completed, has destroyed its descriptor exactly
  once and gives up the strong count of the metadata.
\<close>

theorem uring_driver_life:
  assumes "alloc_ok (ue_ring E)" "prompt_ring (ue_ring E) cap sq flight" "ubq_fifo (ue_queue E) \<alpha>"
    and "0 < unat (cf_entries (ue_config E))" "0 < cf_reap_size (ue_config E)"
    and "run_contract (ue_nosv E)" "driver_contract (ue_nosv E) p" "owner_installed (ue_nosv E) p i own"
    and "uring_init s \<alpha>" "uring_steps E s t" "uring_open p (us_world t)"
    and "uw_ring (us_world t) = Some q" "ring_agrees sq flight (us_data t) q" "quiet_env sq flight \<alpha> p env"
  shows "\<exists>w0. uring_request_shutdown E live (us_world t) = Return w0
    \<and> (\<forall>fuel > world_load \<alpha> w0. uring_run E env fuel w0 = Some (Abort ''memory allocation failed'')
      \<or> (\<exists>w1 own' w2. uring_run E env fuel w0 = Some (Return w1)
          \<and> idle_data (uw_data w1) \<and> \<alpha> (uw_queue w1) = [] \<and> uw_ring w1 = None
          \<and> uring_completed_callback E p own w1 = Return (own', w2) \<and> uw_completed w2
          \<and> destroys p (uw_log w2) = 1 \<and> ow_strong own' = remove1 i (ow_strong own)))"
proof -
  from uring_inv_steps [OF assms(1,3,10,9)] have inv: "driver_inv (us_data t)" by (simp add: uring_inv_def)
  from uring_shutdown_life [OF assms(1-8) inv assms(11-14), where live = live] show ?thesis
    unfolding uring_ended_def by blast
qed

text \<open>A kernel that completes, with a queue of four entries.\<close>

definition prompt_lib :: "(u64 list \<times> u64 list, unit, unit) ring_lib" where
  "prompt_lib = \<lparr>rl_push = (\<lambda>e (s, f). if length s < 4 then Some (s @ [sq_user_data e], f) else None),
     rl_submit = (\<lambda>(s, f). (Ok (length s), [], f @ s)),
     rl_reap = (\<lambda>n (s, f). let ps = take n (remdups f) in (map (\<lambda>p. \<lparr>cq_user_data = p, cq_result = - 125, cq_flags = 0,
       cq_extra = ()\<rparr>) ps, True, s, filter (\<lambda>p. p \<notin> set ps) f)),
     rl_more = (\<lambda>f. f = 2), rl_async_cancel = (\<lambda>_. ()), rl_alloc = (\<lambda>ps. find (\<lambda>p. p \<notin> set ps) [64, 128, 192, 256])\<rparr>"

definition prompt_env :: "(u64 list \<times> u64 list, unit, unit, sample_queue, nat, i32) uring_env" where
  "prompt_env = \<lparr>ue_libc = \<lparr>EINTR = 4, EAGAIN = 11, EBUSY = 16, ECANCELED = 125\<rparr>, ue_ring = prompt_lib,
     ue_queue = list_ubq, ue_work = sample_work, ue_supported = [True],
     ue_config = io_uring_config_default\<lparr>cf_entries := 4, cf_max_buffered := 1\<rparr>, ue_nosv = sample_nosv\<rparr>"

lemma prompt_env_simps [simp]:
  "ue_ring prompt_env = prompt_lib" "ue_queue prompt_env = list_ubq" "ue_work prompt_env = sample_work"
  "ue_supported prompt_env = [True]" "unat (cf_entries (ue_config prompt_env)) = 4" "ue_nosv prompt_env = sample_nosv"
  "cf_reap_size (ue_config prompt_env) = 256" "cf_max_buffered (ue_config prompt_env) = 1"
  by (simp_all add: prompt_env_def io_uring_config_default_def)

lemma prompt_lib_simps [simp]:
  "rl_submit prompt_lib ([], f) = (Ok 0, [], f)" "rl_reap prompt_lib n (s, []) = ([], True, s, [])"
  by (simp_all add: prompt_lib_def)

lemma sample_nosv_run [simp]:
  "nosv_yield sample_nosv h = 0" "nosv_flush_submit_window sample_nosv h = 0" "nosv_set_submit_window_size sample_nosv h n = 0"
  by (simp_all add: sample_nosv_def sample_consts_def nosv_consts.defs)

lemma prompt_laws:
  "alloc_ok (ue_ring prompt_env)" "prompt_ring (ue_ring prompt_env) 4 fst (set \<circ> snd)"
  "ubq_fifo (ue_queue prompt_env) (\<lambda>u. u)" "run_contract (ue_nosv prompt_env)"
proof -
  show "alloc_ok (ue_ring prompt_env)" by (auto simp: alloc_ok_def prompt_lib_def split: if_splits)
  show "prompt_ring (ue_ring prompt_env) 4 fst (set \<circ> snd)"
    by (auto simp: prompt_ring_def prompt_lib_def Let_def comp_def distinct_map inj_on_def image_image dest: in_set_takeD)
  show "ubq_fifo (ue_queue prompt_env) (\<lambda>u. u)" by (simp add: ubq_fifo_list)
  show "run_contract (ue_nosv prompt_env)"
    by (simp add: run_contract_def park_contract_def)
qed

definition prompt_start :: "(unit, nat, u64 list \<times> u64 list, sample_queue, i32) UringSys" where
  "prompt_start = \<lparr>us_world = \<lparr>uw_data = driver_data_new, uw_queue = [], uw_ring = Some ([], []), uw_admission = True,
       uw_store = (\<lambda>_. owned_state_new), uw_gate = \<lparr>dg_raw = Some (RawTask 64), dg_phase = Park_Paused, dg_notified = False\<rparr>,
       uw_log = [], uw_completed = False\<rparr>,
     us_failed = [], us_decided = False, us_admitted = {#}, us_finished = {#}\<rparr>"

text \<open>The shutdown finds the driver parked, with one operation queued that it has not yet staged.\<close>

definition prompt_queued :: "(unit, nat, u64 list \<times> u64 list, sample_queue, i32) UringSys" where
  "prompt_queued = prompt_start\<lparr>us_world := (us_world prompt_start)\<lparr>uw_queue := [sample_op]\<rparr>,
     us_admitted := {#qo_handler sample_op#}\<rparr>"

lemma prompt_reached:
  "uring_init prompt_start (\<lambda>u. u)" "uring_steps prompt_env prompt_start prompt_queued"
  "uw_ring (us_world prompt_queued) = Some ([], [])" "ring_agrees fst (set \<circ> snd) (us_data prompt_queued) ([], [])"
proof -
  show "uring_init prompt_start (\<lambda>u. u)" by (simp add: uring_init_def prompt_start_def)
  have "uring_step prompt_env prompt_start prompt_queued"
    using us_enqueue [of prompt_env prompt_start sample_op "[sample_op]"]
    by (simp add: enqueue_def prompt_start_def prompt_queued_def)
  then show "uring_steps prompt_env prompt_start prompt_queued" by (rule r_into_rtranclp)
qed (simp_all add: ring_agrees_def submitted_def prompt_queued_def prompt_start_def driver_data_new_def)

definition prompt_closed :: "(unit, nat, u64 list \<times> u64 list, sample_queue, i32) UringWorld" where
  "prompt_closed = (us_world prompt_queued)\<lparr>uw_data := driver_data_new\<lparr>dd_accepting := False, dd_shutdown := True\<rparr>,
     uw_admission := False, uw_gate := \<lparr>dg_raw = Some (RawTask 64), dg_phase = Park_WakePending, dg_notified = True\<rparr>,
     uw_log := [CSubmit 64 0]\<rparr>"

lemma prompt_request: "uring_request_shutdown prompt_env (\<lambda>_. True) (us_world prompt_queued) = Return prompt_closed"
  by (simp add: uring_request_shutdown_def prompt_queued_def prompt_start_def prompt_closed_def owned_in_flight_def
      driver_data_new_def driver_notify_world_def uring_notify_def driver_notify_def ffi_submit_def ffi_submit_with_def
      hm_values_def Let_def)

lemma prompt_stage:
  "stage_owned prompt_lib list_ubq sample_work [True] m 4 [] ((uw_data prompt_closed, [sample_op]), q)
    = Return ([(qo_handler sample_op, OwnedClosed)], (uw_data prompt_closed, []), q)"
  by (simp add: eval_nat_numeral next_owned_def prompt_closed_def prompt_queued_def prompt_start_def driver_data_new_def Let_def)

lemma prompt_stage_section:
  "stage_section prompt_env live prompt_closed
    = Return ([(qo_handler sample_op, OwnedClosed)], [], prompt_closed\<lparr>uw_queue := []\<rparr>)"
proof -
  have d: "uw_data prompt_closed = driver_data_new\<lparr>dd_accepting := False, dd_shutdown := True\<rparr>"
    "uw_queue prompt_closed = [sample_op]" "uw_ring prompt_closed = Some ([], [])"
    by (simp_all add: prompt_closed_def prompt_queued_def prompt_start_def)
  then show ?thesis
    using prompt_stage [of "uw_store prompt_closed" "([], [])"]
    by (simp add: stage_section_def stage_cancellations_def stage_owned_cancellations_def submit_staged_def driver_data_new_def
      del: exec_bind_Return_iff)
qed

lemma prompt_run: "\<exists>w. uring_run prompt_env (\<lambda>_. (\<lambda>_. True, Return, Return, Return)) 2 prompt_closed = Some (Return w)"
proof -
  obtain wakes w where f: "fail_section prompt_env [(qo_handler sample_op, OwnedClosed)] [] (prompt_closed\<lparr>uw_queue := []\<rparr>) = (wakes, w)"
    by (rule prod.exhaust)
  then have w: "uw_data w = driver_data_new\<lparr>dd_accepting := False, dd_shutdown := True\<rparr>" "uw_queue w = []" "uw_ring w = Some ([], [])"
    by (auto simp: fail_section_def prompt_closed_def prompt_queued_def prompt_start_def split: prod.splits)
  have pass: "driver_pass prompt_env (\<lambda>_. True) prompt_closed = Return (wakes, False, w\<lparr>uw_ring := Some ([], [])\<rparr>)"
    using f w by (simp add: driver_pass_def prompt_stage_section reap_section_def)
  obtain h where wake: "wake_batch prompt_env wakes Return (w\<lparr>uw_ring := Some ([], [])\<rparr>) = Return (w\<lparr>uw_ring := Some ([], []), uw_log := h\<rparr>)"
  proof (cases "wakes = []")
    case True
    with that [of "uw_log w"] show ?thesis by (simp add: wake_batch_def)
  next
    case False
    with that show ?thesis by (simp add: wake_batch_def ffi_set_submit_window_size_def ffi_flush_submit_window_def)
  qed
  have "decide (uw_data w) False True = RunStop"
    by (simp add: w decide_stop_iff idle_data_def driver_data_new_def)
  with pass wake w show ?thesis
    by (simp add: numeral_2_eq_2 uring_iteration_def Let_def del: exec_bind_Return_iff)
qed

theorem uring_driver_life_witness:
  "\<exists>w0 w1 own' w2. uring_request_shutdown prompt_env (\<lambda>_. True) (us_world prompt_queued) = Return w0
    \<and> uring_run prompt_env (\<lambda>_. (\<lambda>_. True, Return, Return, Return)) 2 w0 = Some (Return w1) \<and> uw_queue w1 = []
    \<and> uring_completed_callback prompt_env 64 \<lparr>ow_meta = [(72, 0)], ow_strong = [0]\<rparr> w1 = Return (own', w2)
    \<and> uw_completed w2 \<and> destroys 64 (uw_log w2) = 1 \<and> ow_strong own' = []"
proof -
  let ?own = "\<lparr>ow_meta = [(72, 0)], ow_strong = [0]\<rparr>" and ?env = "\<lambda>_. (\<lambda>_. True, Return, Return, Return)"
  have o: "uring_open 64 (us_world prompt_queued)"
    by (simp add: uring_open_def gate_open_def prompt_queued_def prompt_start_def)
  have own: "owner_installed (ue_nosv prompt_env) 64 0 ?own" by (simp add: owner_installed_def)
  have quiet: "quiet_env fst (set \<circ> snd) (\<lambda>u. u) 64 ?env" by (simp add: quiet_env_def nothing_adds_no_work)
  have "world_load (\<lambda>u. u) prompt_closed < 2"
    by (simp add: world_load_def data_load_def prompt_closed_def prompt_queued_def prompt_start_def driver_data_new_def
        live_raw_def unasked_def live_owned_def)
  with uring_driver_life [OF prompt_laws(1-3) _ _ prompt_laws(4) _ own prompt_reached(1,2) o prompt_reached(3,4) quiet,
    where live = "\<lambda>_. True"] prompt_request prompt_run
  obtain w1 own' w2 where "uring_run prompt_env ?env 2 prompt_closed = Some (Return w1)" "uw_queue w1 = []"
    "uring_completed_callback prompt_env 64 ?own w1 = Return (own', w2)" "uw_completed w2" "destroys 64 (uw_log w2) = 1"
    "ow_strong own' = []"
    by (auto simp: driver_contract_sample)
  with prompt_request show ?thesis by blast
qed

end
