(* ===== verification/Uring_Results.thy ===== *)
theory Uring_Results
  imports Uring_Properties
begin

text \<open>
  The results of completion-native operations over all interleavings of \<open>Uring_System\<close>: which cells
  are published when, and whose result they hold. The file and socket operations over it are in
  \<open>Io_Works\<close>.
\<close>

section \<open>Cells and their handlers\<close>

text \<open>
  A value that the work of \<open>h\<close> made: of a completion's result, or of one of the three errors with which
  the driver ends an operation that never reached the kernel.
\<close>

definition driver_errors :: "'y libc_scheme \<Rightarrow> io_error set" where
  "driver_errors C = {runtime_closed_error, OsError (ECANCELED C), unsupported_opcode_error}"

definition own_result :: "'y libc_scheme \<Rightarrow> ('w, 's, 'r, 'z) op_work_scheme \<Rightarrow> 'w TypedHandler \<Rightarrow> 'r \<Rightarrow> bool" where
  "own_result C W h v \<longleftrightarrow>
     (\<exists>result. v = ow_complete W (th_work h) result) \<or> (\<exists>e \<in> driver_errors C. v = ow_fail W (th_work h) e)"

text \<open>Every operation has a shared state of its own, as a new \<open>Arc\<close> is.\<close>

definition own_cells :: "'w TypedHandler multiset \<Rightarrow> bool" where
  "own_cells A \<longleftrightarrow> (\<forall>i. count (image_mset th_state A) i \<le> 1)"

text \<open>
  A cell is published exactly when the handler that refers to it has ended, and what it holds is a
  result of that handler; a cell without a handler is new.
\<close>

definition cell_ok ::
  "'y libc_scheme \<Rightarrow> ('w, 's, 'r, 'z) op_work_scheme \<Rightarrow> 'w TypedHandler multiset \<Rightarrow> 'w TypedHandler multiset \<Rightarrow> nat \<Rightarrow> 'r OwnedState \<Rightarrow> bool"
  where
  "cell_ok C W A F i st \<longleftrightarrow>
     (\<forall>h. h \<in># A \<longrightarrow> th_state h = i \<longrightarrow> (os_completed st \<longleftrightarrow> h \<in># F)
        \<and> (\<forall>v. os_result st = Some v \<longrightarrow> h \<in># F \<and> own_result C W h v))
   \<and> (i \<notin> th_state ` set_mset A \<longrightarrow> \<not> os_completed st \<and> os_result st = None)"

definition cells_ok ::
  "'y libc_scheme \<Rightarrow> ('w, 's, 'r, 'z) op_work_scheme \<Rightarrow> 'w TypedHandler multiset \<Rightarrow> 'w TypedHandler multiset \<Rightarrow> 'r owned_store \<Rightarrow> bool"
  where "cells_ok C W A F m \<longleftrightarrow> (\<forall>i. cell_ok C W A F i (m i))"

lemma own_cells_same:
  assumes "own_cells A" "h \<in># A" "h' \<in># A" "th_state h = th_state h'"
  shows "h = h'"
proof (rule ccontr)
  assume "h \<noteq> h'"
  with assms(2,3) obtain B where "A = add_mset h (add_mset h' B)"
    by (metis insert_DiffM insert_noteq_member)
  with assms(1) have "count (image_mset th_state (add_mset h (add_mset h' B))) (th_state h) \<le> 1"
    unfolding own_cells_def by blast
  with assms(4) show False by simp
qed

lemma own_cells_fresh:
  "own_cells (A + B) \<Longrightarrow> h \<in># B \<Longrightarrow> th_state h \<notin> th_state ` set_mset A"
proof
  assume a: "own_cells (A + B)" "h \<in># B" "th_state h \<in> th_state ` set_mset A"
  then obtain h' where "h' \<in># A" "th_state h' = th_state h" by auto
  then have "count (image_mset th_state A) (th_state h) \<ge> 1" "count (image_mset th_state B) (th_state h) \<ge> 1"
    using a(2) by (metis count_greater_eq_one_iff imageI set_image_mset)+
  moreover have "count (image_mset th_state (A + B)) (th_state h) \<le> 1" using a(1) unfolding own_cells_def by blast
  ultimately show False by (simp only: image_mset_union count_union)
qed

lemma own_cells_mono: "own_cells (A + B) \<Longrightarrow> own_cells A"
proof -
  assume "own_cells (A + B)"
  then have "count (image_mset th_state A) i + count (image_mset th_state B) i \<le> 1" for i
    by (simp add: own_cells_def)
  then show ?thesis unfolding own_cells_def by (metis add_leD1)
qed

text \<open>What a poll, a cancellation request or any other section does to a cell.\<close>

lemma cells_ok_frame:
  assumes "cells_ok C W A F m" "\<And>i. os_completed (m' i) = os_completed (m i)"
    "\<And>i. os_result (m' i) = os_result (m i) \<or> os_result (m' i) = None"
  shows "cells_ok C W A F m'"
  unfolding cells_ok_def
proof
  fix i
  from assms(1) have "cell_ok C W A F i (m i)" by (simp add: cells_ok_def)
  with assms(2,3) [of i] show "cell_ok C W A F i (m' i)" by (auto simp: cell_ok_def)
qed

lemma cells_ok_admit:
  assumes ok: "cells_ok C W A F m" and own: "own_cells (A + B)" and fin: "F \<subseteq># A"
  shows "cells_ok C W (A + B) F m"
  unfolding cells_ok_def
proof
  fix i
  from ok have c: "cell_ok C W A F i (m i)" by (simp add: cells_ok_def)
  show "cell_ok C W (A + B) F i (m i)"
  proof (cases "i \<in> th_state ` set_mset B")
    case True
    then have new: "i \<notin> th_state ` set_mset A" using own_cells_fresh [OF own] by auto
    with c have "\<not> os_completed (m i)" "os_result (m i) = None" by (auto simp: cell_ok_def)
    moreover have "h \<notin># F" if "th_state h = i" for h
      using new that fin by (meson image_eqI mset_subset_eqD)
    ultimately show ?thesis using True by (auto simp: cell_ok_def)
  next
    case False
    then have "(h \<in># A + B \<longrightarrow> th_state h = i \<longrightarrow> P) \<longleftrightarrow> (h \<in># A \<longrightarrow> th_state h = i \<longrightarrow> P)" for h P by auto
    moreover from False have "i \<in> th_state ` set_mset (A + B) \<longleftrightarrow> i \<in> th_state ` set_mset A" by auto
    ultimately show ?thesis using c by (simp only: cell_ok_def)
  qed
qed

lemma cells_ok_publish:
  assumes ok: "cells_ok C W A F m" and own: "own_cells A" and h: "h \<in># A" and v: "own_result C W h v"
  shows "cells_ok C W A (add_mset h F) (m(th_state h := snd (store_and_publish v (m (th_state h)))))"
  unfolding cells_ok_def
proof
  fix i
  from ok have c: "cell_ok C W A F i (m i)" by (simp add: cells_ok_def)
  show "cell_ok C W A (add_mset h F) i ((m(th_state h := snd (store_and_publish v (m (th_state h))))) i)"
  proof (cases "i = th_state h")
    case True
    with own_cells_same [OF own _ h] h v show ?thesis by (auto simp: cell_ok_def)
  next
    case False
    with c show ?thesis by (auto simp: cell_ok_def)
  qed
qed

lemma handler_complete_ok:
  assumes "handler_complete W h result m = (k, m')" "cells_ok C W A F m" "own_cells A" "h \<in># A"
  shows "cells_ok C W A (add_mset h F) m'"
proof -
  have "own_result C W h (ow_complete W (th_work h) result)" by (auto simp: own_result_def)
  from cells_ok_publish [OF assms(2-4) this] assms(1) show ?thesis by (auto simp: handler_complete_def split: prod.splits)
qed

lemma handler_fail_ok:
  assumes "handler_fail W h e m = (k, m')" "e \<in> driver_errors C" "cells_ok C W A F m" "own_cells A" "h \<in># A"
  shows "cells_ok C W A (add_mset h F) m'"
proof -
  have "own_result C W h (ow_fail W (th_work h) e)" by (use assms(2) in \<open>auto simp: own_result_def\<close>)
  from cells_ok_publish [OF assms(3-5) this] assms(1) show ?thesis by (auto simp: handler_fail_def split: prod.splits)
qed

lemma owned_failure_errors: "owned_failure_error C reason \<in> driver_errors C"
  by (cases reason) (simp_all add: driver_errors_def)

lemma fail_owned_ok:
  assumes "own_cells A"
  shows "fail_owned C W fs m wakes = (m', wakes') \<Longrightarrow> cells_ok C W A F m \<Longrightarrow> mset (map fst fs) \<subseteq># A
    \<Longrightarrow> cells_ok C W A (F + mset (map fst fs)) m'"
proof (induction C W fs m wakes arbitrary: F rule: fail_owned.induct)
  case (2 C W h reason rest m wakes)
  obtain k m1 where k: "handler_fail W h (owned_failure_error C reason) m = (k, m1)" by (rule prod.exhaust)
  from "2.prems"(3) have "h \<in># A" "mset (map fst rest) \<subseteq># A"
    by (auto dest: mset_subset_eq_insertD subset_mset.less_imp_le)
  with "2.IH" [OF k [symmetric], of "add_mset h F"] handler_fail_ok [OF k owned_failure_errors "2.prems"(2) assms] "2.prems"(1) k
  show ?case by simp
qed simp

section \<open>The sections that leave the cells alone\<close>

lemma store_frames:
  "submit_entries E rt getpid live i entries w = (se, w') \<Longrightarrow> uw_store w' = uw_store w"
  "admit_world E i a w = Return (a', wakes, w') \<Longrightarrow> uw_store w' = uw_store w"
  "cancel_submission E i delivery w = Return w' \<Longrightarrow> uw_store w' = uw_store w"
  "stream_poll k i w = (p, w') \<Longrightarrow> uw_store w' = uw_store w"
  "cancellation_poll k i w = (p, w') \<Longrightarrow> uw_store w' = uw_store w"
  "drain_poll k i w = (p', w') \<Longrightarrow> uw_store w' = uw_store w"
  "uw_store (cancellation_drop c w) = uw_store w"
  "stage_section E live w = Return (failed, wakes, w') \<Longrightarrow> uw_store w' = uw_store w"
  "reap_section E w = Return (cqes, backlog, w') \<Longrightarrow> uw_store w' = uw_store w"
  by (auto simp: submit_entries_def admit_world_def cancel_submission_def stream_poll_def cancellation_poll_def
      drain_poll_def cancellation_drop_def stage_section_def reap_section_def Let_def case_prod_beta
      dest!: driver_notify_world_frame split: option.splits if_splits prod.splits)

lemma submit_settle_store: "submit_settle E k se w = Return (p, se', w') \<Longrightarrow> uw_store w' = uw_store w"
  by (auto simp: submit_settle_def Let_def dest!: driver_notify_world_frame store_frames(3) split: if_splits)

lemma owned_drop_store:
  "owned_drop E op w = Return w' \<Longrightarrow> os_completed (uw_store w' i) = os_completed (uw_store w i)
    \<and> os_result (uw_store w' i) = os_result (uw_store w i)"
  by (auto simp: owned_drop_def cancel_owned_def control_cancel_def dest!: driver_notify_world_frame split: if_splits)

lemma owned_cell_poll_keeps:
  assumes "owned_cell_poll (\<lambda>x. x) (\<lambda>x. x) k s = Return (r, s')"
  shows "os_completed s' = os_completed s" "os_result s' = os_result s \<or> os_result s' = None"
    "r = Pending \<longleftrightarrow> \<not> os_completed s" "r = Ready v \<Longrightarrow> os_result s = Some v"
  using assms
  by (cases "os_completed s"; cases "os_result s";
      auto simp: owned_cell_poll_def owned_check_def option_take_def)+

section \<open>Every step keeps the cells in order\<close>

definition results_inv ::
  "('q, 's, 'x, 'u, 'w, 'r) uring_env \<Rightarrow> ('x, 'w, 'q, 'u, 'r) UringSys \<Rightarrow> bool" where
  "results_inv E s \<longleftrightarrow> cells_ok (ue_libc E) (ue_work E) (us_admitted s) (us_finished s) (uw_store (us_world s))"

text \<open>Sections that neither admit nor end an operation.\<close>

lemma results_inv_frame:
  assumes "results_inv E s" "us_admitted t = us_admitted s" "us_finished t = us_finished s"
    "\<And>i. os_completed (uw_store (us_world t) i) = os_completed (uw_store (us_world s) i)"
    "\<And>i. os_result (uw_store (us_world t) i) = os_result (uw_store (us_world s) i) \<or> os_result (uw_store (us_world t) i) = None"
  shows "results_inv E t"
  using cells_ok_frame [OF _ assms(4,5)] assms(1-3) by (simp add: results_inv_def)

lemma results_inv_store:
  "results_inv E s \<Longrightarrow> us_admitted t = us_admitted s \<Longrightarrow> us_finished t = us_finished s
    \<Longrightarrow> uw_store (us_world t) = uw_store (us_world s) \<Longrightarrow> results_inv E t"
  by (simp add: results_inv_def)

lemma admitted_split:
  "uring_inv \<alpha> s \<Longrightarrow> us_finished s \<subseteq># us_admitted s"
  "uring_inv \<alpha> s \<Longrightarrow> mset (map fst (us_failed s)) \<subseteq># us_admitted s"
  by (simp_all add: uring_inv_def)

lemma ended_by_admitted:
  assumes inv: "uring_inv \<alpha> s"
  shows "ended_by cqe (us_data s) \<subseteq># us_admitted s"
proof -
  have "ended_by cqe (us_data s) \<subseteq># held (dd_owned_contexts (us_data s))"
  proof (cases "hm_get (dd_owned_contexts (us_data s)) (cq_user_data cqe)")
    case (Some c)
    from inv have "hm_wf (dd_owned_contexts (us_data s))" by (auto simp: uring_inv_def driver_inv_def dest: owned_invD(1))
    from held_remove [OF this Some] Some show ?thesis by (simp add: ended_by_def)
  qed (simp add: ended_by_def)
  with inv show ?thesis
    by (auto simp: uring_inv_def owned_handlers_def intro: subset_mset.order_trans)
qed

lemma dispatch_results:
  assumes inv: "uring_inv \<alpha> s" and ok: "results_inv E s" and own: "own_cells (us_admitted s)"
    and c: "dispatch E cqe wakes (us_world s) = Return (overflow, wakes', w)"
  shows "cells_ok (ue_libc E) (ue_work E) (us_admitted s) (us_finished s + ended_by cqe (us_data s)) (uw_store w)"
proof (cases "hm_contains (cq_user_data cqe) (dd_contexts (us_data s))")
  case True
  with c have "uw_store w = uw_store (us_world s)" by (auto simp: dispatch_def)
  with True ok show ?thesis by (simp add: ended_by_def results_inv_def)
next
  case False
  let ?p = "cq_user_data cqe"
  from False c obtain h d' where r: "retire_owned ?p (rl_more (ue_ring E) (cq_flags cqe)) (us_data s) = Return (h, d')"
    by (auto simp: dispatch_def dispatch_owned_def split: if_splits)
  have e: "(case h of None \<Rightarrow> {#} | Some h \<Rightarrow> {#h#}) = ended_by cqe (us_data s)"
    using r False by (auto simp: retire_owned_def ended_by_def Let_def split: if_splits option.splits)
  show ?thesis
  proof (cases h)
    case None
    with False c r have "uw_store w = uw_store (us_world s)" by (auto simp: dispatch_def dispatch_owned_def split: if_splits)
    with ok None e show ?thesis by (simp add: results_inv_def flip: e)
  next
    case (Some g)
    obtain k m where m: "handler_complete (ue_work E) g (cq_result cqe) (uw_store (us_world s)) = (k, m)" by (rule prod.exhaust)
    with False c r Some have "uw_store w = m" by (auto simp: dispatch_def dispatch_owned_def split: if_splits)
    moreover have "g \<in># us_admitted s" using ended_by_admitted [OF inv, of cqe] Some by (simp flip: e)
    ultimately show ?thesis
      using handler_complete_ok [OF m _ own] ok Some by (simp add: results_inv_def flip: e)
  qed
qed

lemma admitted_grows:
  assumes "uring_step E s t"
  shows "\<exists>B. us_admitted t = us_admitted s + B"
  using assms by cases (simp_all add: exI [of _ "{#}"])

lemma results_inv_step:
  assumes step: "uring_step E s t" and inv: "uring_inv \<alpha> s" and ok: "results_inv E s" and own: "own_cells (us_admitted t)"
  shows "results_inv E t"
proof -
  from admitted_grows [OF step] own own_cells_mono have own_s: "own_cells (us_admitted s)" by metis
  note frame = results_inv_store [OF ok]
  from step show ?thesis
  proof cases
    case (us_enqueue operation u)
    with cells_ok_admit [of "ue_libc E" "ue_work E" "us_admitted s" "us_finished s" "uw_store (us_world s)" "{#qo_handler operation#}"]
      ok own admitted_split(1) [OF inv] show ?thesis by (simp add: results_inv_def)
  next
    case (us_enqueue_batch operations u)
    with cells_ok_admit [of "ue_libc E" "ue_work E" "us_admitted s" "us_finished s" "uw_store (us_world s)" "mset (map qo_handler operations)"]
      ok own admitted_split(1) [OF inv] show ?thesis by (simp add: results_inv_def)
  next
    case (us_refuse h k m)
    with cells_ok_admit [of "ue_libc E" "ue_work E" "us_admitted s" "us_finished s" "uw_store (us_world s)" "{#h#}"] ok own
      admitted_split(1) [OF inv]
      handler_fail_ok [of "ue_work E" h runtime_closed_error "uw_store (us_world s)" k m "ue_libc E" "us_admitted t" "us_finished s"]
    show ?thesis by (simp add: results_inv_def driver_errors_def)
  next
    case (us_fail wakes wakes' w)
    with fail_owned_ok [OF own_s, of "ue_libc E" "ue_work E" "us_failed s" "uw_store (us_world s)" wakes "uw_store w" wakes'
        "us_finished s"] ok admitted_split(2) [OF inv]
    show ?thesis by (auto simp: results_inv_def fail_section_def split: prod.splits)
  next
    case (us_dispatch cqe wakes overflow wakes' w)
    with dispatch_results [OF inv ok own_s us_dispatch(2)] show ?thesis by (simp add: results_inv_def)
  next
    case (us_owned_drop op w)
    with owned_drop_store [OF us_owned_drop(2)] show ?thesis by (intro results_inv_frame [OF ok]) simp_all
  next
    case (us_owned_poll k i r st)
    with owned_cell_poll_keeps(1,2) [OF us_owned_poll(2)] show ?thesis by (intro results_inv_frame [OF ok]) simp_all
  qed (auto intro!: frame intro: store_frames submit_settle_store)
qed

lemma results_inv_steps:
  assumes L: "alloc_ok (ue_ring E)" "ubq_fifo (ue_queue E) \<alpha>" and init: "uring_init s \<alpha>"
    and new: "\<And>i. \<not> os_completed (uw_store (us_world s) i) \<and> os_result (uw_store (us_world s) i) = None"
    and run: "uring_steps E s t"
  shows "own_cells (us_admitted t) \<Longrightarrow> results_inv E t"
  using run
proof induction
  case base
  from init new show ?case by (simp add: uring_init_def results_inv_def cells_ok_def cell_ok_def)
next
  case (step t u)
  from admitted_grows [OF step.hyps(2)] step.prems own_cells_mono have "own_cells (us_admitted t)" by metis
  with step results_inv_step [OF step.hyps(2) uring_inv_steps [OF L step.hyps(1) init]] show ?case by blast
qed

section \<open>The value of an awaited operation\<close>

text \<open>
  Awaiting a completion-native operation gives the result of that operation: in every interleaving
  of clients, driver and kernel, a poll of its cell is pending exactly while its handler has neither
  completed nor failed, and a value it returns is what the operation's own work made of a completion
  or of one of the errors of \<open>driver_errors\<close>, never the result of another operation.
\<close>

theorem awaited_result_is_own:
  assumes "alloc_ok (ue_ring E)" "ubq_fifo (ue_queue E) \<alpha>" "uring_init s \<alpha>"
    and "\<And>i. uw_store (us_world s) i = owned_state_new" and "uring_steps E s t"
    and "own_cells (us_admitted t)" "h \<in># us_admitted t"
    and poll: "owned_cell_poll (\<lambda>c. c) (\<lambda>c. c) k (uw_store (us_world t) (th_state h)) = Return (r, st)"
  shows "(r = Pending \<longleftrightarrow> h \<notin># us_finished t) \<and> (\<forall>v. r = Ready v \<longrightarrow> own_result (ue_libc E) (ue_work E) h v)"
proof -
  have "results_inv E t"
    using results_inv_steps [OF assms(1-3) _ assms(5,6)] assms(4) by (simp add: owned_state_new_def)
  with assms(7) have "os_completed (uw_store (us_world t) (th_state h)) \<longleftrightarrow> h \<in># us_finished t"
    "os_result (uw_store (us_world t) (th_state h)) = Some v \<Longrightarrow> own_result (ue_libc E) (ue_work E) h v" for v
    by (auto simp: results_inv_def cells_ok_def cell_ok_def)
  with owned_cell_poll_keeps(3,4) [OF poll] show ?thesis by blast
qed

theorem awaited_result_is_own_witness:
  "\<exists>st. owned_cell_poll (\<lambda>c. c) (\<lambda>c. c) 8 (uw_store (us_world sample_dropped) 3) = Return (Ready 5, st)
    \<and> own_result (ue_libc sample_env) sample_work (qo_handler sample_op) 5"
proof -
  let ?h = "qo_handler sample_op" and ?m = "uw_store (us_world sample_dropped)"
  have h: "th_state ?h = 3" "us_admitted sample_dropped = {#?h#}"
    by (simp_all add: sample_op_def sample_dropped_def sample_submitted_def)
  have "os_completed (?m 3)" "os_result (?m 3) = Some 5"
    by (auto simp: sample_dropped_def handler_complete_def sample_op_def sample_work_def split: prod.splits)
       (metis snd_conv store_and_publish_simps(2,3))+
  then have p: "owned_cell_poll (\<lambda>c. c) (\<lambda>c. c) 8 (?m 3) = Return (Ready 5, (?m 3)\<lparr>os_result := None\<rparr>)"
    by (simp add: owned_cell_poll_def)
  have "uw_store (us_world sample_start) i = owned_state_new" for i by (simp add: sample_start_def sample_ring_world_def)
  from awaited_result_is_own [OF sample_laws sample_init this sample_run_dropped, of ?h 8] h p show ?thesis
    by (auto simp: own_cells_def)
qed

end
