(* ===== verification/Uring_Service.thy ===== *)
theory Uring_Service
  imports Uring_Life Uring_Results
begin

text \<open>
  The driver of \<open>src/io_uring.rs\<close> serves what it admits: on a kernel that completes what it is given,
  passes take the work left to nothing, and every operation that was under way has its own result. This
  puts together the decreasing load of \<open>Uring_Shutdown\<close>, the refinement and the invariant of
  \<open>Uring_System\<close>, and the cells of \<open>Uring_Results\<close>.
\<close>

section \<open>Passes\<close>

fun driver_passes ::
  "('q, 's, 'x, 'u, 'w, 'r) uring_env \<Rightarrow> (nat \<Rightarrow> bool) \<Rightarrow> nat \<Rightarrow> ('x, 'w, 'q, 'u, 'r) UringWorld
    \<Rightarrow> ('x, 'w, 'q, 'u, 'r) UringWorld exec" where
  "driver_passes E live 0 w = Return w"
| "driver_passes E live (Suc n) w = exec_bind (driver_pass E live w) (\<lambda>(_, _, w). driver_passes E live n w)"

lemma driver_passes_load:
  assumes L: "alloc_ok (ue_ring E)" "prompt_ring (ue_ring E) cap sq flight" "ubq_fifo (ue_queue E) \<alpha>"
    and budget: "0 < unat (cf_entries (ue_config E))" "0 < cf_reap_size (ue_config E)"
    and N: "driver_contract (ue_nosv E) p"
  shows "serving sq flight w \<Longrightarrow> uring_open p w \<Longrightarrow> \<exists>n \<le> world_load \<alpha> w + 1. oom (driver_passes E live n w)
    \<or> (\<exists>w'. driver_passes E live n w = Return w' \<and> idle_data (uw_data w') \<and> \<alpha> (uw_queue w') = [])"
proof (induction "world_load \<alpha> w" arbitrary: w rule: less_induct)
  case less
  from driver_pass_load [OF L budget N less.prems, of live] show ?case
  proof
    assume "oom (driver_pass E live w)"
    then have "oom (driver_passes E live 1 w)" by simp
    then show ?thesis by (intro exI [of _ 1]) simp
  next
    assume "\<exists>wakes backlog w'. driver_pass E live w = Return (wakes, backlog, w') \<and> serving sq flight w'
      \<and> dd_shutdown (uw_data w') = dd_shutdown (uw_data w)
      \<and> uring_open p w' \<and> (uring_parked w' \<longrightarrow> uring_parked w)
      \<and> (world_load \<alpha> w' < world_load \<alpha> w \<or> idle_data (uw_data w') \<and> \<alpha> (uw_queue w') = [])"
    then obtain wakes backlog w1 where pass: "driver_pass E live w = Return (wakes, backlog, w1)" and s1: "serving sq flight w1" "uring_open p w1"
      and l1: "world_load \<alpha> w1 < world_load \<alpha> w \<or> idle_data (uw_data w1) \<and> \<alpha> (uw_queue w1) = []" by blast
    from l1 show ?thesis
    proof
      assume "idle_data (uw_data w1) \<and> \<alpha> (uw_queue w1) = []"
      then show ?thesis using pass by (intro exI [of _ 1]) simp
    next
      assume l: "world_load \<alpha> w1 < world_load \<alpha> w"
      from less.hyps [OF l s1] obtain n where n: "n \<le> world_load \<alpha> w1 + 1" "oom (driver_passes E live n w1)
        \<or> (\<exists>w'. driver_passes E live n w1 = Return w' \<and> idle_data (uw_data w') \<and> \<alpha> (uw_queue w') = [])" by blast
      then show ?thesis using pass l by (intro exI [of _ "Suc n"]) simp
    qed
  qed
qed

lemma driver_passes_steps:
  "\<not> us_decided s \<Longrightarrow> us_failed s = [] \<Longrightarrow> driver_passes E live n (us_world s) = Return w
    \<Longrightarrow> \<exists>m. uring_steps E s (s\<lparr>us_world := w, us_finished := m\<rparr>)"
proof (induction n arbitrary: s)
  case 0
  then have "s = s\<lparr>us_world := w, us_finished := us_finished s\<rparr>" by simp
  then show ?case by (metis rtranclp.rtrancl_refl)
next
  case (Suc n)
  then obtain wakes backlog w1 where pass: "driver_pass E live (us_world s) = Return (wakes, backlog, w1)"
    and rest: "driver_passes E live n w1 = Return w" by auto
  from driver_pass_steps [OF Suc.prems(1,2) pass] obtain m where m: "uring_steps E s (s\<lparr>us_world := w1, us_finished := m\<rparr>)" by blast
  from Suc.IH [of "s\<lparr>us_world := w1, us_finished := m\<rparr>"] Suc.prems rest obtain m'
    where "uring_steps E (s\<lparr>us_world := w1, us_finished := m\<rparr>) (s\<lparr>us_world := w, us_finished := m'\<rparr>)" by auto
  with m show ?case by (meson rtranclp_trans)
qed

section \<open>A result that is published is kept\<close>

definition kept :: "nat \<Rightarrow> 'r owned_store \<Rightarrow> bool" where
  "kept i m \<longleftrightarrow> (os_completed (m i) \<longrightarrow> os_result (m i) \<noteq> None)"

lemma handler_kept:
  "handler_complete W h result m = (k, m') \<Longrightarrow> kept i m \<Longrightarrow> kept i m'"
  "handler_fail W h e m = (k, m') \<Longrightarrow> kept i m \<Longrightarrow> kept i m'"
  by (auto simp: handler_complete_def handler_fail_def kept_def case_prod_beta)

lemma fail_owned_kept: "fail_owned C W fs m wakes = (m', wakes') \<Longrightarrow> kept i m \<Longrightarrow> kept i m'"
  by (induction C W fs m wakes rule: fail_owned.induct) (auto dest: handler_kept(2) split: prod.splits)

lemma dispatch_kept: "dispatch E cqe wakes w = Return (overflow, wakes', w') \<Longrightarrow> kept i (uw_store w) \<Longrightarrow> kept i (uw_store w')"
  by (auto simp: dispatch_def dispatch_owned_def case_prod_beta split: if_splits option.splits
      intro: handler_kept(1) [OF surjective_pairing])

lemma dispatch_all_kept:
  "dispatch_all E cqes overflow wakes w = Return (overflow', wakes', w') \<Longrightarrow> kept i (uw_store w) \<Longrightarrow> kept i (uw_store w')"
  by (induction cqes arbitrary: overflow wakes w) (auto dest: dispatch_kept)

lemma cancel_submissions_store: "cancel_submissions E delivery ss w = Return w' \<Longrightarrow> uw_store w' = uw_store w"
  by (induction ss arbitrary: w) (auto dest!: store_frames(3))

lemma driver_pass_kept:
  assumes "driver_pass E live w = Return (wakes, backlog, w')" "kept i (uw_store w)"
  shows "kept i (uw_store w')"
proof -
  from assms(1) obtain failed wakes1 w1 where 1: "stage_section E live w = Return (failed, wakes1, w1)"
    by (auto simp: driver_pass_def)
  obtain wakes2 w2 where 2: "fail_section E failed wakes1 w1 = (wakes2, w2)" by (rule prod.exhaust)
  from assms(1) 1 2 obtain cqes w3 overflow w4 where 3: "reap_section E w2 = Return (cqes, backlog, w3)"
      and 4: "dispatch_all E cqes [] wakes2 w3 = Return (overflow, wakes, w4)"
      and 5: "cancel_submissions E DeliveryOverflow overflow w4 = Return w'"
    by (auto simp: driver_pass_def)
  have "kept i (uw_store w1)" using store_frames(8) [OF 1] assms(2) by simp
  then have "kept i (uw_store w2)" using 2 by (auto simp: fail_section_def split: prod.splits dest: fail_owned_kept)
  then have "kept i (uw_store w3)" using store_frames(9) [OF 3] by simp
  then show ?thesis using dispatch_all_kept [OF 4] cancel_submissions_store [OF 5] by simp
qed

lemma driver_passes_kept:
  "driver_passes E live n w = Return w' \<Longrightarrow> kept i (uw_store w) \<Longrightarrow> kept i (uw_store w')"
  by (induction n arbitrary: w) (auto dest: driver_pass_kept)

section \<open>Property\<close>

text \<open>
  C30: the driver serves everything it has admitted. From any reachable state before shutdown, with no new
  work from other threads, on a kernel that completes what it is given, at most one more pass than there
  is work left empties every table and queue, unless memory runs out: a stream that overflows its buffer
  is cancelled by the pass and drained with the rest. The future of every operation that was still under
  way then resolves at its next poll, to a value that the work of this very operation made.
\<close>

theorem driver_serves_all:
  assumes "alloc_ok (ue_ring E)" "prompt_ring (ue_ring E) cap sq flight" "ubq_fifo (ue_queue E) \<alpha>"
    and "0 < unat (cf_entries (ue_config E))" "0 < cf_reap_size (ue_config E)"
    and "uring_init s \<alpha>" "\<And>i. uw_store (us_world s) i = owned_state_new" "uring_steps E s t"
    and "\<not> us_decided t" "us_failed t = []" "own_cells (us_admitted t)" "driver_contract (ue_nosv E) p" "uring_open p (us_world t)"
    and "uw_ring (us_world t) = Some q" "ring_agrees sq flight (us_data t) q"
  shows "\<exists>n \<le> world_load \<alpha> (us_world t) + 1. driver_passes E live n (us_world t) = Abort ''memory allocation failed''
    \<or> (\<exists>w. driver_passes E live n (us_world t) = Return w \<and> idle_data (uw_data w) \<and> \<alpha> (uw_queue w) = []
        \<and> (\<forall>h k. h \<in># us_admitted t \<longrightarrow> h \<notin># us_finished t
             \<longrightarrow> (\<exists>v st. owned_cell_poll (\<lambda>c. c) (\<lambda>c. c) k (uw_store w (th_state h)) = Return (Ready v, st)
                  \<and> own_result (ue_libc E) (ue_work E) h v)))"
proof -
  have new: "\<not> os_completed (uw_store (us_world s) i) \<and> os_result (uw_store (us_world s) i) = None" for i
    using assms(7) by (simp add: owned_state_new_def)
  have inv: "uring_inv \<alpha> t" by (rule uring_inv_steps [OF assms(1,3,8,6)])
  then have "serving sq flight (us_world t)" using assms(14,15) by (simp add: serving_def uring_inv_def)
  from driver_passes_load [OF assms(1-5,12) this assms(13), of live] obtain n where n: "n \<le> world_load \<alpha> (us_world t) + 1"
    "oom (driver_passes E live n (us_world t)) \<or> (\<exists>w. driver_passes E live n (us_world t) = Return w
       \<and> idle_data (uw_data w) \<and> \<alpha> (uw_queue w) = [])" by blast
  from n(2) show ?thesis
  proof
    assume "oom (driver_passes E live n (us_world t))"
    with n(1) show ?thesis by (auto simp: stops_with_def)
  next
    assume "\<exists>w. driver_passes E live n (us_world t) = Return w \<and> idle_data (uw_data w) \<and> \<alpha> (uw_queue w) = []"
    then obtain w where w: "driver_passes E live n (us_world t) = Return w" "idle_data (uw_data w)" "\<alpha> (uw_queue w) = []" by blast
    from driver_passes_steps [OF assms(9,10) w(1)] obtain m
      where m: "uring_steps E t (t\<lparr>us_world := w, us_finished := m\<rparr>)" by blast
    let ?t = "t\<lparr>us_world := w, us_finished := m\<rparr>"
    from assms(8) m have steps: "uring_steps E s ?t" by (rule rtranclp_trans)
    from uring_inv_steps [OF assms(1,3) steps assms(6)] w(2,3) assms(10) have fin: "m = us_admitted t"
      by (simp add: uring_inv_def owned_handlers_def idle_data_def held_def)
    have "results_inv E ?t" by (rule results_inv_steps [OF assms(1,3,6) new steps]) (simp add: assms(11))
    then have cells: "cell_ok (ue_libc E) (ue_work E) (us_admitted t) (us_admitted t) i (uw_store w i)" for i
      using fin by (simp add: results_inv_def cells_ok_def)
    have start: "results_inv E t" by (rule results_inv_steps [OF assms(1,3,6) new assms(8,11)])
    have "\<exists>v st. owned_cell_poll (\<lambda>c. c) (\<lambda>c. c) k (uw_store w (th_state h)) = Return (Ready v, st) \<and> own_result (ue_libc E) (ue_work E) h v"
      if h: "h \<in># us_admitted t" "h \<notin># us_finished t" for h k
    proof -
      from start h have "\<not> os_completed (uw_store (us_world t) (th_state h))"
        by (auto simp: results_inv_def cells_ok_def cell_ok_def)
      then have "kept (th_state h) (uw_store (us_world t))" by (simp add: kept_def)
      from driver_passes_kept [OF w(1) this] cells [of "th_state h"] h(1) obtain v
        where "os_completed (uw_store w (th_state h))" "os_result (uw_store w (th_state h)) = Some v" "own_result (ue_libc E) (ue_work E) h v"
        by (auto simp: kept_def cell_ok_def)
      then show ?thesis by (simp add: owned_cell_poll_def)
    qed
    with n(1) w show ?thesis by blast
  qed
qed

text \<open>One operation is queued and the driver idle.\<close>

theorem driver_serves_all_witness:
  "\<exists>n \<le> 2. driver_passes prompt_env (\<lambda>_. True) n (us_world prompt_queued) = Abort ''memory allocation failed''
    \<or> (\<exists>w v st. driver_passes prompt_env (\<lambda>_. True) n (us_world prompt_queued) = Return w \<and> uw_queue w = []
        \<and> owned_cell_poll (\<lambda>c. c) (\<lambda>c. c) 8 (uw_store w 3) = Return (Ready v, st))"
proof -
  have own: "own_cells (us_admitted prompt_queued)" and h: "us_admitted prompt_queued = {#qo_handler sample_op#}"
    "us_finished prompt_queued = {#}" "th_state (qo_handler sample_op) = 3"
    by (simp_all add: own_cells_def prompt_queued_def prompt_start_def sample_op_def)
  have open0: "\<not> us_decided prompt_queued" "us_failed prompt_queued = []" "uring_open 64 (us_world prompt_queued)"
    "\<And>i. uw_store (us_world prompt_start) i = owned_state_new"
    by (simp_all add: uring_open_def gate_open_def prompt_queued_def prompt_start_def)
  have "world_load (\<lambda>u. u) (us_world prompt_queued) = 1"
    by (simp add: world_load_def data_load_def prompt_queued_def prompt_start_def driver_data_new_def live_raw_def
        unasked_def live_owned_def)
  then have load: "world_load (\<lambda>u. u) (us_world prompt_queued) + 1 = 2" by simp
  have drv: "driver_contract (ue_nosv prompt_env) 64" by (simp add: driver_contract_sample)
  have budget: "0 < unat (cf_entries (ue_config prompt_env))" "0 < cf_reap_size (ue_config prompt_env)" by simp_all
  from driver_serves_all [OF prompt_laws(1-3) budget prompt_reached(1) open0(4) prompt_reached(2) open0(1,2) own drv open0(3)
    prompt_reached(3,4), of "\<lambda>_. True"]
  obtain n where n: "n \<le> 2" "driver_passes prompt_env (\<lambda>_. True) n (us_world prompt_queued) = Abort ''memory allocation failed''
    \<or> (\<exists>w. driver_passes prompt_env (\<lambda>_. True) n (us_world prompt_queued) = Return w
        \<and> idle_data (uw_data w) \<and> uw_queue w = []
        \<and> (\<forall>h k. h \<in># us_admitted prompt_queued \<longrightarrow> h \<notin># us_finished prompt_queued
             \<longrightarrow> (\<exists>v st. owned_cell_poll (\<lambda>c. c) (\<lambda>c. c) k (uw_store w (th_state h)) = Return (Ready v, st)
                  \<and> own_result (ue_libc prompt_env) (ue_work prompt_env) h v)))"
    unfolding load by blast
  from n(2) show ?thesis
  proof
    assume "driver_passes prompt_env (\<lambda>_. True) n (us_world prompt_queued) = Abort ''memory allocation failed''"
    with n(1) show ?thesis by blast
  next
    assume "\<exists>w. driver_passes prompt_env (\<lambda>_. True) n (us_world prompt_queued) = Return w
        \<and> idle_data (uw_data w) \<and> uw_queue w = []
        \<and> (\<forall>h k. h \<in># us_admitted prompt_queued \<longrightarrow> h \<notin># us_finished prompt_queued
             \<longrightarrow> (\<exists>v st. owned_cell_poll (\<lambda>c. c) (\<lambda>c. c) k (uw_store w (th_state h)) = Return (Ready v, st)
                  \<and> own_result (ue_libc prompt_env) (ue_work prompt_env) h v))"
    then obtain w where w: "driver_passes prompt_env (\<lambda>_. True) n (us_world prompt_queued) = Return w" "uw_queue w = []"
      "\<forall>h k. h \<in># us_admitted prompt_queued \<longrightarrow> h \<notin># us_finished prompt_queued
             \<longrightarrow> (\<exists>v st. owned_cell_poll (\<lambda>c. c) (\<lambda>c. c) k (uw_store w (th_state h)) = Return (Ready v, st)
                  \<and> own_result (ue_libc prompt_env) (ue_work prompt_env) h v)" by blast
    from w(3) [rule_format, of "qo_handler sample_op" 8] h n(1) w(1,2) show ?thesis by auto
  qed
qed

end
