(* ===== verification/Topology.thy ===== *)
theory Topology
  imports Runtime_Core
begin

text \<open>
  \<open>src/topology.rs\<close>: checked identifiers and the read-only topology queries. The native queries and
  their constants are the fields of \<open>nosv_topo\<close>. A \<open>malloc\<close>-owned array is \<open>None\<close> for a null
  pointer and \<open>Some\<close> of the integers it holds otherwise; every query also returns how many times
  the array it received was released with \<open>free\<close>.
\<close>

section \<open>The native queries\<close>

record nosv_topo = nosv_consts +
  NOSV_TOPO_LEVEL_NODE :: u32
  NOSV_TOPO_LEVEL_NUMA :: u32
  NOSV_TOPO_LEVEL_COMPLEX_SET :: u32
  NOSV_TOPO_LEVEL_CORE :: u32
  NOSV_TOPO_LEVEL_CPU :: u32
  nosv_get_num_cpus :: i32
  nosv_get_available_cpus :: "i32 list option"
  nosv_get_num_numa_nodes :: i32
  nosv_get_available_numa_nodes :: "i32 list option"
  nosv_get_num_domains :: "u32 \<Rightarrow> i32"
  nosv_get_available_domains :: "u32 \<Rightarrow> i32 list option"
  nosv_get_num_cpus_in_domain :: "u32 \<Rightarrow> i32 \<Rightarrow> i32"
  nosv_get_available_cpus_in_domain :: "u32 \<Rightarrow> i32 \<Rightarrow> i32 list option"

type_synonym 'a query = "('a, NativeError) rust_result \<times> nat"

section \<open>Identifiers\<close>

datatype CpuId = CpuId u32

datatype NumaNodeId = NumaNodeId u32

text \<open>\<open>i32::MAX as u32\<close>.\<close>

definition i32_max :: u32 where
  "i32_max = 2147483647"

definition cpu_id_new :: "u32 \<Rightarrow> (CpuId, NativeError) rust_result" where
  "cpu_id_new v = (if v > i32_max then Err InvalidParameter else Ok (CpuId v))"

fun cpu_id_get :: "CpuId \<Rightarrow> u32" where
  "cpu_id_get (CpuId v) = v"

definition cpu_id_from_native :: "i32 \<Rightarrow> (CpuId, NativeError) rust_result" where
  "cpu_id_from_native v = (if v <s 0 then Err InvalidParameter else Ok (CpuId v))"

definition numa_id_new :: "u32 \<Rightarrow> (NumaNodeId, NativeError) rust_result" where
  "numa_id_new v = (if v > i32_max then Err InvalidParameter else Ok (NumaNodeId v))"

fun numa_id_get :: "NumaNodeId \<Rightarrow> u32" where
  "numa_id_get (NumaNodeId v) = v"

definition numa_id_from_native :: "i32 \<Rightarrow> (NumaNodeId, NativeError) rust_result" where
  "numa_id_from_native v = (if v <s 0 then Err InvalidParameter else Ok (NumaNodeId v))"

datatype TopologyLevel = Level_Node | Level_Numa | Level_ComplexSet | Level_Core | Level_Cpu

fun level_raw :: "'z nosv_topo_scheme \<Rightarrow> TopologyLevel \<Rightarrow> u32" where
  "level_raw T Level_Node = NOSV_TOPO_LEVEL_NODE T"
| "level_raw T Level_Numa = NOSV_TOPO_LEVEL_NUMA T"
| "level_raw T Level_ComplexSet = NOSV_TOPO_LEVEL_COMPLEX_SET T"
| "level_raw T Level_Core = NOSV_TOPO_LEVEL_CORE T"
| "level_raw T Level_Cpu = NOSV_TOPO_LEVEL_CPU T"

record DomainId =
  dom_level :: TopologyLevel
  dom_system_id :: i32

definition domain_id_new :: "TopologyLevel \<Rightarrow> i32 \<Rightarrow> (DomainId, NativeError) rust_result" where
  "domain_id_new level system_id =
    (if system_id <s 0 then Err InvalidParameter
     else Ok \<lparr>dom_level = level, dom_system_id = system_id\<rparr>)"

section \<open>Queries\<close>

definition with_live :: "'tc RuntimeCore option \<Rightarrow> int \<Rightarrow> 'a query \<Rightarrow> 'a query" where
  "with_live weak getpid query =
    (case weak of
       None \<Rightarrow> (Err NotInitialized, 0)
     | Some runtime \<Rightarrow>
         if \<not> process_matches runtime getpid then (Err NotInitialized, 0)
         else if lifecycle (rc_state runtime) \<noteq> Running then (Err NotInitialized, 0)
         else query)"

definition native_count_error :: "'z nosv_consts_scheme \<Rightarrow> i32 \<Rightarrow> ('a, NativeError) rust_result" where
  "native_count_error N cnt =
    (case from_code N cnt of Inl e \<Rightarrow> Err e | Inr _ \<Rightarrow> Err InvalidOperation)"

text \<open>\<open>free\<close> releases a non-null array; the number counts the calls.\<close>

definition free_array :: "i32 list option \<Rightarrow> nat" where
  "free_array values = (case values of None \<Rightarrow> 0 | Some _ \<Rightarrow> 1)"

definition copy_ids :: "'z nosv_consts_scheme \<Rightarrow> i32 \<Rightarrow> i32 list option \<Rightarrow> i32 list query" where
  "copy_ids N cnt values =
    (if cnt <s 0 then
       (case from_code N cnt of Inl e \<Rightarrow> Err e | Inr _ \<Rightarrow> Err InvalidOperation, free_array values)
     else if cnt = 0 then (Ok [], free_array values)
     else case values of
       None \<Rightarrow> (Err OutOfMemory, 0)
     | Some mem \<Rightarrow>
         let len = unat cnt in
         if len > (2 ^ 63 - 1) div 4 then (Err InvalidParameter, free_array values)
         else (Ok (take len mem), free_array values))"

text \<open>\<open>collect\<close> into a \<open>Result\<close> stops at the first error.\<close>

fun collect_results :: "('a, 'e) rust_result list \<Rightarrow> ('a list, 'e) rust_result" where
  "collect_results [] = Ok []"
| "collect_results (r # rs) =
    (case r of
       Inl e \<Rightarrow> Err e
     | Inr x \<Rightarrow> (case collect_results rs of Inl e \<Rightarrow> Err e | Inr xs \<Rightarrow> Ok (x # xs)))"

text \<open>The common tail of the four queries: copy, release, and convert each identifier.\<close>

definition map_ids :: "('x, NativeError) rust_result list \<Rightarrow> nat \<Rightarrow> 'x list query" where
  "map_ids rs frees = (collect_results rs, frees)"

definition copy_and_map ::
  "'z nosv_consts_scheme \<Rightarrow> i32 \<Rightarrow> i32 list option
    \<Rightarrow> (i32 \<Rightarrow> ('x, NativeError) rust_result) \<Rightarrow> 'x list query" where
  "copy_and_map N cnt values conv =
    (case copy_ids N cnt values of
       (Inl e, frees) \<Rightarrow> (Err e, frees)
     | (Inr ids, frees) \<Rightarrow> map_ids (map conv ids) frees)"

definition topology_cpus ::
  "'z nosv_topo_scheme \<Rightarrow> 'tc RuntimeCore option \<Rightarrow> int \<Rightarrow> CpuId list query" where
  "topology_cpus T weak getpid =
    with_live weak getpid
      (let cnt = nosv_get_num_cpus T in
       if cnt <s 0 then (native_count_error T cnt, 0)
       else copy_and_map T cnt (nosv_get_available_cpus T) cpu_id_from_native)"

definition topology_numa_nodes ::
  "'z nosv_topo_scheme \<Rightarrow> 'tc RuntimeCore option \<Rightarrow> int \<Rightarrow> NumaNodeId list query" where
  "topology_numa_nodes T weak getpid =
    with_live weak getpid
      (let cnt = nosv_get_num_numa_nodes T in
       if cnt <s 0 then (native_count_error T cnt, 0)
       else copy_and_map T cnt (nosv_get_available_numa_nodes T) numa_id_from_native)"

definition topology_domains ::
  "'z nosv_topo_scheme \<Rightarrow> 'tc RuntimeCore option \<Rightarrow> int \<Rightarrow> TopologyLevel \<Rightarrow> DomainId list query" where
  "topology_domains T weak getpid level =
    with_live weak getpid
      (let cnt = nosv_get_num_domains T (level_raw T level) in
       if cnt <s 0 then (native_count_error T cnt, 0)
       else copy_and_map T cnt (nosv_get_available_domains T (level_raw T level))
              (domain_id_new level))"

definition topology_cpus_in ::
  "'z nosv_topo_scheme \<Rightarrow> 'tc RuntimeCore option \<Rightarrow> int \<Rightarrow> DomainId \<Rightarrow> CpuId list query" where
  "topology_cpus_in T weak getpid domain =
    with_live weak getpid
      (let cnt = nosv_get_num_cpus_in_domain T (level_raw T (dom_level domain)) (dom_system_id domain)
       in if cnt <s 0 then (native_count_error T cnt, 0)
          else copy_and_map T cnt
            (nosv_get_available_cpus_in_domain T (level_raw T (dom_level domain))
              (dom_system_id domain))
            cpu_id_from_native)"

section \<open>A running runtime, and what a query promises\<close>

definition live_runtime :: "'tc RuntimeCore option \<Rightarrow> int \<Rightarrow> bool" where
  "live_runtime weak getpid \<longleftrightarrow> weak_ensure_running weak getpid = Ok ()"

text \<open>
  The documented contract of a native query: a non-negative count comes with a null pointer or with
  that many initialised integers.
\<close>

definition array_matches :: "i32 \<Rightarrow> i32 list option \<Rightarrow> bool" where
  "array_matches cnt values \<longleftrightarrow>
    (\<not> cnt <s 0 \<longrightarrow> (case values of None \<Rightarrow> True | Some mem \<Rightarrow> unat cnt \<le> length mem))"

section \<open>Lemmas\<close>

lemma live_runtime_iff:
  "live_runtime weak getpid \<longleftrightarrow>
    (\<exists>core. weak = Some core \<and> rc_pid core = getpid \<and> lifecycle (rc_state core) = Running)"
  by (auto simp: live_runtime_def weak_ensure_running_def ensure_running_Ok_iff split: option.splits)

lemma with_live_dead: "\<not> live_runtime weak getpid \<Longrightarrow> with_live weak getpid q = (Err NotInitialized, 0)"
  by (auto simp: with_live_def live_runtime_iff process_matches_def split: option.splits)

lemma with_live_live: "live_runtime weak getpid \<Longrightarrow> with_live weak getpid q = q"
  by (auto simp: with_live_def live_runtime_iff process_matches_def split: option.splits)

lemma nonneg_i32_le: "\<not> (v :: i32) <s 0 \<longleftrightarrow> v \<le> i32_max"
proof -
  have "\<not> v <s 0 \<longleftrightarrow> 0 \<le> sint v" by (simp add: word_sless_alt not_less)
  also have "\<dots> \<longleftrightarrow> \<not> bit v 31"
    by (simp add: bit_last_iff [where w = v, simplified] not_less [symmetric])
  also have "\<dots> \<longleftrightarrow> v \<le> i32_max"
  proof -
    have bnd: "0 \<le> uint v" "uint v < 4294967296" using uint_bounded [of v] by simp_all
    have "bit v 31 \<longleftrightarrow> bit (uint v) 31" by (simp add: bit_uint_iff)
    also have "\<dots> \<longleftrightarrow> odd (uint v div 2147483648)" by (simp add: bit_iff_odd)
    also have "\<dots> \<longleftrightarrow> 2147483648 \<le> uint v"
    proof (cases "uint v < 2147483648")
      case True
      with bnd show ?thesis by simp
    next
      case False
      with bnd have "uint v div 2147483648 = 1"
        by (intro int_div_pos_eq [where r = "uint v - 2147483648"]) auto
      with False show ?thesis by simp
    qed
    finally show ?thesis by (simp add: i32_max_def word_le_def) linarith
  qed
  finally show ?thesis .
qed

lemma cpu_id_from_native_eq: "cpu_id_from_native v = cpu_id_new v"
  by (simp add: cpu_id_from_native_def cpu_id_new_def nonneg_i32_le [symmetric] not_le [symmetric])

lemma cpu_id_from_native_get: "cpu_id_from_native v = Ok c \<Longrightarrow> cpu_id_get c = v"
  by (auto simp: cpu_id_from_native_def split: if_splits)

lemma numa_id_from_native_eq: "numa_id_from_native v = numa_id_new v"
  by (simp add: numa_id_from_native_def numa_id_new_def nonneg_i32_le [symmetric] not_le [symmetric])

lemma collect_results_Ok: "collect_results rs = Ok xs \<longleftrightarrow> rs = map Inr xs"
proof (induction rs arbitrary: xs)
  case (Cons r rs)
  note IH = Cons.IH
  show ?case
  proof (cases xs)
    case Nil
    then show ?thesis by (auto split: sum.splits)
  next
    case (Cons y ys)
    with IH [of ys] show ?thesis by (auto split: sum.splits)
  qed
qed auto

lemma collect_results_Err: "collect_results rs = Err e \<Longrightarrow> \<exists>ok rest. rs = map Inr ok @ Err e # rest"
proof (induction rs)
  case (Cons r rs)
  show ?case
  proof (cases r)
    case (Inl d)
    with Cons.prems have "r # rs = map Inr [] @ Err e # rs" by simp
    then show ?thesis by blast
  next
    case (Inr x)
    with Cons.prems have "collect_results rs = Err e" by (auto split: sum.splits)
    with Cons.IH obtain ok rest where "rs = map Inr ok @ Err e # rest" by blast
    with Inr show ?thesis by (intro exI [of _ "x # ok"]) auto
  qed
qed simp

lemma snd_copy_and_map: "snd (copy_and_map N cnt values conv) = snd (copy_ids N cnt values)"
  by (auto simp: copy_and_map_def map_ids_def split: prod.splits sum.splits)

lemma copy_ids_frees_once: "snd (copy_ids N cnt values) = free_array values"
  by (auto simp: copy_ids_def free_array_def Let_def split: option.splits)

section \<open>Properties\<close>

text \<open>
  A CPU query answers only for a running runtime of this process, releases the native array it
  was given exactly once on every outcome (and nothing else), and when it succeeds returns the
  native identifiers in their order, each of them a non-negative identifier that \<open>CpuId::new\<close>
  accepts and that converts back to the native value unchanged.
\<close>

theorem topology_cpus_sound:
  assumes "array_matches (nosv_get_num_cpus T) (nosv_get_available_cpus T)"
    and "topology_cpus T weak getpid = (r, frees)"
  shows "(\<not> live_runtime weak getpid \<longrightarrow> r = Err NotInitialized \<and> frees = 0)
    \<and> (live_runtime weak getpid \<and> \<not> nosv_get_num_cpus T <s 0
        \<longrightarrow> frees = free_array (nosv_get_available_cpus T))
    \<and> (\<forall>ids. r = Ok ids \<longrightarrow> length ids = unat (nosv_get_num_cpus T)
        \<and> (\<forall>i < length ids. cpu_id_new (cpu_id_get (ids ! i)) = Ok (ids ! i)
             \<and> cpu_id_get (ids ! i) = the (nosv_get_available_cpus T) ! i))"
proof (cases "live_runtime weak getpid")
  case False
  with assms(2) show ?thesis by (auto simp: topology_cpus_def with_live_dead)
next
  case live: True
  show ?thesis
  proof (cases "nosv_get_num_cpus T <s 0")
    case True
    with live assms(2) show ?thesis
      by (auto simp: topology_cpus_def with_live_live native_count_error_def Let_def split: sum.splits)
  next
    case False
    with live assms(2) have q:
      "copy_and_map T (nosv_get_num_cpus T) (nosv_get_available_cpus T) cpu_id_from_native = (r, frees)"
      by (simp add: topology_cpus_def with_live_live Let_def)
    then have fr: "frees = free_array (nosv_get_available_cpus T)"
      using snd_copy_and_map copy_ids_frees_once by (metis snd_conv)
    have "length ids = unat (nosv_get_num_cpus T)
        \<and> (\<forall>i < length ids. cpu_id_new (cpu_id_get (ids ! i)) = Ok (ids ! i)
             \<and> cpu_id_get (ids ! i) = the (nosv_get_available_cpus T) ! i)" if "r = Ok ids" for ids
    proof -
      from q that obtain ns f where c: "copy_ids T (nosv_get_num_cpus T) (nosv_get_available_cpus T) = (Ok ns, f)"
        and m: "map cpu_id_from_native ns = map Inr ids"
        by (auto simp: copy_and_map_def map_ids_def collect_results_Ok split: prod.splits sum.splits)
      from c False assms(1) have ns: "length ns = unat (nosv_get_num_cpus T)"
        "\<forall>i < length ns. ns ! i = the (nosv_get_available_cpus T) ! i"
        by (auto simp: copy_ids_def array_matches_def Let_def split: if_splits option.splits)
      from m have len: "length ids = length ns" by (metis length_map)
      have el: "cpu_id_from_native (ns ! i) = Ok (ids ! i)" if "i < length ids" for i
        using m that len by (metis nth_map)
      have "cpu_id_get (ids ! i) = ns ! i" if "i < length ids" for i
        by (rule cpu_id_from_native_get [OF el [OF that]])
      with el ns len show ?thesis by (simp add: cpu_id_from_native_eq)
    qed
    with live fr False show ?thesis by blast
  qed
qed

definition sample_topo :: nosv_topo where
  "sample_topo = nosv_consts.extend sample_consts
    \<lparr>NOSV_TOPO_LEVEL_NODE = 0, NOSV_TOPO_LEVEL_NUMA = 1, NOSV_TOPO_LEVEL_COMPLEX_SET = 2,
     NOSV_TOPO_LEVEL_CORE = 3, NOSV_TOPO_LEVEL_CPU = 4,
     nosv_get_num_cpus = 2, nosv_get_available_cpus = Some [0, 5],
     nosv_get_num_numa_nodes = 1, nosv_get_available_numa_nodes = Some [0],
     nosv_get_num_domains = (\<lambda>_. 1), nosv_get_available_domains = (\<lambda>_. Some [0]),
     nosv_get_num_cpus_in_domain = (\<lambda>_ _. 1),
     nosv_get_available_cpus_in_domain = (\<lambda>_ _. Some [5])\<rparr>"

theorem topology_cpus_sound_witness:
  "topology_cpus sample_topo (Some sample_core) 42 = (Ok [CpuId 0, CpuId 5], 1)
   \<and> live_runtime (Some sample_core) 42
   \<and> array_matches (nosv_get_num_cpus sample_topo) (nosv_get_available_cpus sample_topo)
   \<and> cpu_id_new 5 = Ok (CpuId 5)"
proof -
  have m: "array_matches (nosv_get_num_cpus sample_topo) (nosv_get_available_cpus sample_topo)"
    by (simp add: array_matches_def sample_topo_def nosv_consts.defs)
  have live: "live_runtime (Some sample_core) 42"
    by (simp add: live_runtime_iff sample_core_def new_runtime_core_def)
  have q: "topology_cpus sample_topo (Some sample_core) 42 = (Ok [CpuId 0, CpuId 5], 1)"
    by (simp add: topology_cpus_def with_live_live [OF live] sample_topo_def nosv_consts.defs
        copy_and_map_def copy_ids_def map_ids_def free_array_def cpu_id_from_native_def
        word_sless_alt Let_def)
  from topology_cpus_sound [OF m q] have "cpu_id_new (cpu_id_get ([CpuId 0, CpuId 5] ! 1))
      = Ok ([CpuId 0, CpuId 5] ! 1)"
    by fastforce
  with m live q show ?thesis by simp
qed

end
