(* ===== verification/Affinity.thy ===== *)
theory Affinity
  imports Topology
begin

text \<open>
  \<open>src/affinity.rs\<close>: placement values and their encoding into the native bit-field structure. The
  generated setters, their default and the enumeration constants belong to \<open>nosv-sys\<close> and are the
  fields of \<open>affinity_abi\<close>.
\<close>

section \<open>The generated bit-field interface\<close>

record affinity_abi =
  NOSV_AFFINITY_LEVEL_NONE :: u32
  NOSV_AFFINITY_LEVEL_CPU :: u32
  NOSV_AFFINITY_LEVEL_NUMA :: u32
  NOSV_AFFINITY_LEVEL_USER_COMPLEX :: u32
  NOSV_AFFINITY_TYPE_PREFERRED :: u32
  NOSV_AFFINITY_TYPE_STRICT :: u32
  aff_default :: nosv_affinity_t
  aff_set_level :: "u32 \<Rightarrow> nosv_affinity_t \<Rightarrow> nosv_affinity_t"
  aff_set_type :: "u32 \<Rightarrow> nosv_affinity_t \<Rightarrow> nosv_affinity_t"
  aff_set_index :: "u32 \<Rightarrow> nosv_affinity_t \<Rightarrow> nosv_affinity_t"

section \<open>Placement values\<close>

definition MAX_INDEX :: u32 where
  "MAX_INDEX = push_bit 29 1 - 1"

datatype AffinityKind = Preferred | Strict

datatype AffinityTarget = Target_Cpu CpuId | Target_NumaNode NumaNodeId | Target_ComplexSet u32

datatype Affinity = Affinity_Any | Affinity_Target AffinityKind AffinityTarget

definition preferred_cpu :: "CpuId \<Rightarrow> Affinity" where
  "preferred_cpu cpu = Affinity_Target Preferred (Target_Cpu cpu)"

definition strict_cpu :: "CpuId \<Rightarrow> Affinity" where
  "strict_cpu cpu = Affinity_Target Strict (Target_Cpu cpu)"

definition preferred_numa_node :: "NumaNodeId \<Rightarrow> Affinity" where
  "preferred_numa_node node = Affinity_Target Preferred (Target_NumaNode node)"

definition strict_numa_node :: "NumaNodeId \<Rightarrow> Affinity" where
  "strict_numa_node node = Affinity_Target Strict (Target_NumaNode node)"

fun target_level_index :: "affinity_abi \<Rightarrow> AffinityTarget \<Rightarrow> u32 \<times> u32" where
  "target_level_index A (Target_Cpu i) = (NOSV_AFFINITY_LEVEL_CPU A, cpu_id_get i)"
| "target_level_index A (Target_NumaNode i) = (NOSV_AFFINITY_LEVEL_NUMA A, numa_id_get i)"
| "target_level_index A (Target_ComplexSet i) = (NOSV_AFFINITY_LEVEL_USER_COMPLEX A, i)"

fun kind_raw :: "affinity_abi \<Rightarrow> AffinityKind \<Rightarrow> u32" where
  "kind_raw A Preferred = NOSV_AFFINITY_TYPE_PREFERRED A"
| "kind_raw A Strict = NOSV_AFFINITY_TYPE_STRICT A"

fun affinity_to_raw ::
  "affinity_abi \<Rightarrow> Affinity \<Rightarrow> (nosv_affinity_t, NativeError) rust_result" where
  "affinity_to_raw A Affinity_Any =
    Ok (aff_set_index A 0
      (aff_set_type A (NOSV_AFFINITY_TYPE_PREFERRED A)
        (aff_set_level A (NOSV_AFFINITY_LEVEL_NONE A) (aff_default A))))"
| "affinity_to_raw A (Affinity_Target kind target) =
    (case target_level_index A target of (level, index) \<Rightarrow>
      if index > MAX_INDEX then Err InvalidParameter
      else Ok (aff_set_index A index
        (aff_set_type A (kind_raw A kind) (aff_set_level A level (aff_default A)))))"

section \<open>What generated bit-field accessors guarantee\<close>

text \<open>
  Each setter changes its own field, which keeps the low bits that fit its width: 29 bits for the
  index, as documented for \<open>nosv_affinity_t\<close>; the level and type constants fit their fields.
\<close>

definition bitfield_laws :: "affinity_abi \<Rightarrow> bool" where
  "bitfield_laws A \<longleftrightarrow>
    (\<forall>a i. aff_index (aff_set_index A i a) = take_bit 29 i
       \<and> aff_level (aff_set_index A i a) = aff_level a \<and> aff_type (aff_set_index A i a) = aff_type a)
    \<and> (\<forall>a. \<forall>t \<in> {NOSV_AFFINITY_TYPE_PREFERRED A, NOSV_AFFINITY_TYPE_STRICT A}.
         aff_type (aff_set_type A t a) = t \<and> aff_level (aff_set_type A t a) = aff_level a)
    \<and> (\<forall>a. \<forall>l \<in> {NOSV_AFFINITY_LEVEL_NONE A, NOSV_AFFINITY_LEVEL_CPU A,
                 NOSV_AFFINITY_LEVEL_NUMA A, NOSV_AFFINITY_LEVEL_USER_COMPLEX A}.
         aff_level (aff_set_level A l a) = l)"

definition sample_abi :: affinity_abi where
  "sample_abi = \<lparr>NOSV_AFFINITY_LEVEL_NONE = 0, NOSV_AFFINITY_LEVEL_CPU = 1,
     NOSV_AFFINITY_LEVEL_NUMA = 2, NOSV_AFFINITY_LEVEL_USER_COMPLEX = 3,
     NOSV_AFFINITY_TYPE_PREFERRED = 0, NOSV_AFFINITY_TYPE_STRICT = 1,
     aff_default = \<lparr>aff_level = 0, aff_type = 0, aff_index = 0\<rparr>,
     aff_set_level = (\<lambda>v a. a\<lparr>aff_level := take_bit 2 v\<rparr>),
     aff_set_type = (\<lambda>v a. a\<lparr>aff_type := take_bit 1 v\<rparr>),
     aff_set_index = (\<lambda>v a. a\<lparr>aff_index := take_bit 29 v\<rparr>)\<rparr>"

section \<open>Lemmas\<close>

lemma MAX_INDEX_eq: "MAX_INDEX = 536870911"
  by (simp add: MAX_INDEX_def)

lemma take_bit_29_fits: "(i :: u32) \<le> MAX_INDEX \<Longrightarrow> take_bit 29 i = i"
  by (simp add: word_unat_eq_iff MAX_INDEX_eq word_le_nat_alt unsigned_take_bit_eq take_bit_nat_eq_self)

lemma bitfield_laws_sample: "bitfield_laws sample_abi"
  by (simp add: bitfield_laws_def sample_abi_def)

section \<open>Properties\<close>

text \<open>
  C6: encoding a placement target either fails with \<open>InvalidParameter\<close>, exactly when its index
  needs more than 29 bits, or yields a structure whose level, type and index are those of the
  request, so that no index is silently truncated; leaving placement open never fails.
\<close>

theorem affinity_to_raw_exact:
  assumes "bitfield_laws A"
  shows "(case target_level_index A target of (level, index) \<Rightarrow>
      (if 2 ^ 29 \<le> unat index then affinity_to_raw A (Affinity_Target kind target) = Err InvalidParameter
       else \<exists>raw. affinity_to_raw A (Affinity_Target kind target) = Ok raw
          \<and> aff_level raw = level \<and> aff_type raw = kind_raw A kind \<and> aff_index raw = index))
    \<and> (\<exists>raw. affinity_to_raw A Affinity_Any = Ok raw
          \<and> aff_level raw = NOSV_AFFINITY_LEVEL_NONE A \<and> aff_index raw = 0)"
proof -
  obtain level index where li: "target_level_index A target = (level, index)"
    by (cases "target_level_index A target")
  have big: "index > MAX_INDEX \<longleftrightarrow> 2 ^ 29 \<le> unat index"
    by (simp add: MAX_INDEX_eq word_less_nat_alt) arith
  have lv: "level \<in> {NOSV_AFFINITY_LEVEL_NONE A, NOSV_AFFINITY_LEVEL_CPU A,
                 NOSV_AFFINITY_LEVEL_NUMA A, NOSV_AFFINITY_LEVEL_USER_COMPLEX A}"
    using li by (cases target) auto
  have kd: "kind_raw A kind \<in> {NOSV_AFFINITY_TYPE_PREFERRED A, NOSV_AFFINITY_TYPE_STRICT A}"
    by (cases kind) auto
  have "\<not> index > MAX_INDEX \<Longrightarrow> take_bit 29 index = index"
    by (simp add: take_bit_29_fits not_less)
  with assms li big lv kd show ?thesis
    unfolding bitfield_laws_def by (auto simp del: insert_iff)
qed

theorem affinity_to_raw_exact_witness:
  "bitfield_laws sample_abi
   \<and> affinity_to_raw sample_abi (Affinity_Target Strict (Target_ComplexSet 536870912)) = Err InvalidParameter
   \<and> (\<exists>raw. affinity_to_raw sample_abi (strict_cpu (CpuId 536870911)) = Ok raw
        \<and> aff_index raw = 536870911)"
proof -
  note ex = affinity_to_raw_exact [OF bitfield_laws_sample]
  have "affinity_to_raw sample_abi (Affinity_Target Strict (Target_ComplexSet 536870912))
      = Err InvalidParameter"
    using ex [where target = "Target_ComplexSet 536870912" and kind = Strict] by simp
  moreover have "\<exists>raw. affinity_to_raw sample_abi (strict_cpu (CpuId 536870911)) = Ok raw
        \<and> aff_index raw = 536870911"
    using ex [where target = "Target_Cpu (CpuId 536870911)" and kind = Strict] unfolding strict_cpu_def
    by (simp del: affinity_to_raw.simps) blast
  ultimately show ?thesis using bitfield_laws_sample by blast
qed

end
