(* ===== verification/Task_Spawn.thy ===== *)
theory Task_Spawn
  imports Task_Run Affinity
begin

text \<open>
  Creation and native callbacks of tasks in \<open>src/task.rs\<close>: \<open>TaskConfig\<close>, \<open>TaskBuilder\<close>, \<open>spawn_on\<close>,
  \<open>owner_pointer\<close>, \<open>run_callback\<close>, \<open>completed_callback\<close>, \<open>cost_callback\<close> and \<open>with_current\<close>. They
  work on a \<open>World\<close>: the runtime core with its registry, the log of native calls, the task objects
  by identifier, the metadata words of the descriptors and the \<open>NativeOwner\<close> boxes that are
  allocated. A \<open>NativeOwner\<close> belongs to exactly one task, so its address is that task's identifier.
\<close>

section \<open>State\<close>

record TaskConfig =
  cfg_name :: "string option"
  cfg_priority :: "i32 option"
  cfg_affinity :: "Affinity option"
  cfg_monitoring_cost :: "u64 option"

record ('f, 'a, 'p) World =
  w_core :: "TaskId RuntimeCore"
  w_log :: nlog
  w_tasks :: "(TaskId, ('f, 'a, 'p) Runnable) hashmap"
  w_meta :: "(nosv_ptr, TaskId) hashmap"
  w_owners :: "TaskId list"

section \<open>The builder\<close>

definition task_config_default :: TaskConfig where
  "task_config_default =
    \<lparr>cfg_name = None, cfg_priority = None, cfg_affinity = None, cfg_monitoring_cost = None\<rparr>"

definition task_builder_new :: TaskConfig where
  "task_builder_new = task_config_default"

definition rust_name :: "string \<Rightarrow> TaskConfig \<Rightarrow> TaskConfig" where
  "rust_name name b = b\<lparr>cfg_name := Some name\<rparr>"

definition builder_priority :: "i32 \<Rightarrow> TaskConfig \<Rightarrow> TaskConfig" where
  "builder_priority p b = b\<lparr>cfg_priority := Some p\<rparr>"

definition builder_affinity :: "Affinity \<Rightarrow> TaskConfig \<Rightarrow> TaskConfig" where
  "builder_affinity a b = b\<lparr>cfg_affinity := Some a\<rparr>"

definition builder_monitoring_cost :: "u64 \<Rightarrow> TaskConfig \<Rightarrow> TaskConfig" where
  "builder_monitoring_cost n b = b\<lparr>cfg_monitoring_cost := Some n\<rparr>"

section \<open>Spawning\<close>

text \<open>The task object as \<open>spawn_on\<close> first builds it, before it has a descriptor.\<close>

definition new_runnable :: "TaskId \<Rightarrow> TaskConfig \<Rightarrow> 'f \<Rightarrow> ('f, 'a, 'p) Runnable" where
  "new_runnable i config f =
    \<lparr>rn_core = \<lparr>tc_native = \<lparr>ng_task = None, ng_phase = Building, wake_submitted = False,
        polling = False, cancel_requested = False\<rparr>,
       tc_id = i, tc_name = cfg_name config,
       tc_monitoring_cost = (case cfg_monitoring_cost config of Some n \<Rightarrow> n | None \<Rightarrow> 1)\<rparr>,
     rn_future = Some f, rn_join = join_new\<rparr>"

text \<open>Size of the metadata: one pointer.\<close>

definition owner_pointer_size :: usize where
  "owner_pointer_size = 8"

text \<open>\<open>state.tasks.insert\<close> and \<open>state.tasks.remove\<close>, together with the task object itself.\<close>

definition registry_insert :: "TaskId \<Rightarrow> TaskId RuntimeCore \<Rightarrow> TaskId RuntimeCore" where
  "registry_insert i core =
    core\<lparr>rc_state := (rc_state core)\<lparr>tasks := hm_insert i i (tasks (rc_state core))\<rparr>\<rparr>"

definition registry_remove :: "TaskId \<Rightarrow> TaskId RuntimeCore \<Rightarrow> TaskId RuntimeCore" where
  "registry_remove i core =
    core\<lparr>rc_state := (rc_state core)\<lparr>tasks := hm_remove i (tasks (rc_state core))\<rparr>\<rparr>"

text \<open>The attributes fixed before the first submission.\<close>

definition apply_attributes ::
  "RawTask \<Rightarrow> i32 option \<Rightarrow> nosv_affinity_t option \<Rightarrow> nlog \<Rightarrow> nlog" where
  "apply_attributes raw priority raw_affinity h =
    (let h = (case priority of Some p \<Rightarrow> ffi_set_priority raw p h | None \<Rightarrow> h) in
     (case raw_affinity of Some a \<Rightarrow> ffi_set_affinity raw a h | None \<Rightarrow> h))"

text \<open>From the leaked owner to the end: publish in the registry, submit, or take everything back.\<close>

definition spawn_submit ::
  "'z nosv_scheme \<Rightarrow> TaskId \<Rightarrow> RawTask \<Rightarrow> ('f, 'a, 'p) Runnable \<Rightarrow> ('f, 'a, 'p) World
    \<Rightarrow> (TaskId, SpawnError) rust_result \<times> ('f, 'a, 'p) World" where
  "spawn_submit N i raw c w =
    (let c = set_gate ((rn_gate c)\<lparr>ng_task := Some raw, ng_phase := Live, wake_submitted := True\<rparr>) c;
         w = w\<lparr>w_core := registry_insert i (w_core w), w_tasks := hm_insert i c (w_tasks w)\<rparr>
     in case ffi_submit N raw (w_log w) of
          (Inl e, h) \<Rightarrow>
            (Err (SpawnNative e),
             w\<lparr>w_core := registry_remove i (w_core w), w_log := snd (ffi_destroy N raw h),
               w_tasks := hm_remove i (w_tasks w), w_owners := remove1 i (w_owners w)\<rparr>)
        | (Inr _, h) \<Rightarrow> (Ok i, w\<lparr>w_log := h\<rparr>))"

definition spawn_on ::
  "'z nosv_scheme \<Rightarrow> affinity_abi \<Rightarrow> int \<Rightarrow> TaskConfig \<Rightarrow> 'f \<Rightarrow> ('f, 'a, 'p) World
    \<Rightarrow> ((TaskId, SpawnError) rust_result \<times> ('f, 'a, 'p) World) exec" where
  "spawn_on N A getpid config f w =
    (if \<not> process_matches (w_core w) getpid then Return (Err SpawnForkedProcess, w)
     else
       case (case cfg_affinity config of
               None \<Rightarrow> Ok None | Some a \<Rightarrow> map_sum id Some (affinity_to_raw A a)) of
         Inl e \<Rightarrow> Return (Err (SpawnNative e), w)
       | Inr raw_affinity \<Rightarrow>
           if lifecycle (rc_state (w_core w)) \<noteq> Running then Return (Err SpawnRuntimeClosed, w)
           else exec_bind (next_task_id (w_core w)) (\<lambda>(i, core).
             let w = w\<lparr>w_core := core\<rparr>; c = new_runnable i config f in
             case ffi_create N (task_type core) owner_pointer_size (w_log w) of
               (Inl e, h) \<Rightarrow> Return (Err (SpawnNative e), w\<lparr>w_log := h\<rparr>)
             | (Inr raw, h) \<Rightarrow>
                 (case ffi_metadata N raw h of
                    (Inl e, h) \<Rightarrow>
                      Return (Err (SpawnNative e), w\<lparr>w_log := snd (ffi_destroy N raw h)\<rparr>)
                  | (Inr metadata, h) \<Rightarrow>
                      let h = apply_attributes raw (cfg_priority config) raw_affinity h;
                          w = w\<lparr>w_log := h, w_meta := hm_insert metadata i (w_meta w),
                                w_owners := i # w_owners w\<rparr>
                      in Return (spawn_submit N i raw c w))))"

text \<open>\<open>Handle::spawn\<close> uses the default configuration, the free function the current handle.\<close>

definition handle_spawn ::
  "'z nosv_scheme \<Rightarrow> affinity_abi \<Rightarrow> int \<Rightarrow> 'f \<Rightarrow> ('f, 'a, 'p) World
    \<Rightarrow> ((TaskId, SpawnError) rust_result \<times> ('f, 'a, 'p) World) exec" where
  "handle_spawn N A getpid f w = spawn_on N A getpid task_config_default f w"

definition spawn_current ::
  "'z nosv_scheme \<Rightarrow> affinity_abi \<Rightarrow> int \<Rightarrow> bool \<Rightarrow> 'f \<Rightarrow> ('f, 'a, 'p) World
    \<Rightarrow> ((TaskId, SpawnError) rust_result \<times> ('f, 'a, 'p) World) exec" where
  "spawn_current N A getpid has_current f w =
    (if \<not> has_current then Return (Err SpawnRuntimeClosed, w) else handle_spawn N A getpid f w)"

section \<open>Native callbacks\<close>

text \<open>
  Reading the owner pointer back out of the metadata; \<open>None\<close> is the null pointer. Dereferencing the
  pointer of an owner that is not allocated any more would be a use after free: \<open>deref_owner\<close> makes
  it an abort of its own, which the theorems below exclude.
\<close>

definition owner_pointer ::
  "'z nosv_scheme \<Rightarrow> RawTask \<Rightarrow> ('f, 'a, 'p) World \<Rightarrow> (TaskId option \<times> ('f, 'a, 'p) World) exec" where
  "owner_pointer N raw w =
    (case ffi_metadata N raw (w_log w) of
       (Inl e, h) \<Rightarrow> Abort ''task metadata missing''
     | (Inr m, h) \<Rightarrow> Return (hm_get (w_meta w) m, w\<lparr>w_log := h\<rparr>))"

definition deref_owner ::
  "string \<Rightarrow> TaskId option \<Rightarrow> ('f, 'a, 'p) World \<Rightarrow> (TaskId \<times> ('f, 'a, 'p) Runnable) exec" where
  "deref_owner null_message ow w =
    (case ow of
       None \<Rightarrow> Abort null_message
     | Some i \<Rightarrow>
         (if i \<notin> set (w_owners w) then Abort ''use of a freed task owner''
          else case hm_get (w_tasks w) i of
            None \<Rightarrow> Abort ''use of a freed task owner'' | Some c \<Rightarrow> Return (i, c)))"

text \<open>
  \<open>alive\<close> says whether the weak reference to the runtime upgrades; \<open>payload_of\<close> is the payload of a
  panic with the given message.
\<close>

definition run_callback ::
  "'z nosv_scheme \<Rightarrow> ('f, 'a, 'p) user_future \<Rightarrow> (string \<Rightarrow> 'p) \<Rightarrow> bool \<Rightarrow> int
    \<Rightarrow> ext_req list \<Rightarrow> ext_req list \<Rightarrow> nosv_ptr \<Rightarrow> ('f, 'a, 'p) World \<Rightarrow> (bool \<times> ('f, 'a, 'p) World) exec"
  where
  "run_callback N U payload_of alive getpid during late pointer w =
    (case raw_task_from_ptr pointer of
       None \<Rightarrow> Abort ''null callback task''
     | Some raw \<Rightarrow>
         exec_bind (owner_pointer N raw w) (\<lambda>(ow, w).
           exec_bind (deref_owner ''null task owner'' ow w) (\<lambda>(i, c).
             case run_once N U (if alive then Some (w_core w) else None) getpid during late
                    (c, w_log w) of
               Return (susp, c, h) \<Rightarrow>
                 Return (susp, w\<lparr>w_tasks := hm_insert i c (w_tasks w), w_log := h\<rparr>)
             | Panic m \<Rightarrow>
                 Return (False,
                   w\<lparr>w_tasks := hm_insert i (force_panic (payload_of m) c) (w_tasks w)\<rparr>)
             | Abort m \<Rightarrow> Abort m)))"

text \<open>
  The result carries the waker of the joiner that publication calls. The result that
  \<open>force_native_error\<close> records before the abort is not observable after it.
\<close>

definition completed_callback ::
  "'z nosv_scheme \<Rightarrow> bool \<Rightarrow> nosv_ptr \<Rightarrow> ('f, 'a, 'p) World \<Rightarrow> (waker option \<times> ('f, 'a, 'p) World) exec"
  where
  "completed_callback N alive pointer w =
    (case raw_task_from_ptr pointer of
       None \<Rightarrow> Abort ''null completed task''
     | Some raw \<Rightarrow>
         exec_bind (owner_pointer N raw w) (\<lambda>(ow, w).
           exec_bind (deref_owner ''null task owner'' ow w) (\<lambda>(i, c).
             case retire N (rn_gate c, w_log w) of
               (Inl e, g, h) \<Rightarrow> Abort ''could not retire completed native task''
             | (Inr _, g, h) \<Rightarrow>
                 (case publish_native_completion (set_gate g c) of (waiter, c) \<Rightarrow>
                    let w = w\<lparr>w_log := h, w_tasks := hm_insert i c (w_tasks w),
                              w_owners := remove1 i (w_owners w)\<rparr>
                    in Return (waiter,
                         if alive then w\<lparr>w_core := task_completed (tc_id (rn_core c)) (w_core w)\<rparr>
                         else w)))))"

definition cost_callback ::
  "'z nosv_scheme \<Rightarrow> nosv_ptr \<Rightarrow> ('f, 'a, 'p) World \<Rightarrow> (u64 \<times> ('f, 'a, 'p) World) exec" where
  "cost_callback N pointer w =
    (case raw_task_from_ptr pointer of
       None \<Rightarrow> Abort ''null cost task''
     | Some raw \<Rightarrow>
         exec_bind (owner_pointer N raw w) (\<lambda>(ow, w).
           if ow = None then Return (1, w)
           else exec_bind (deref_owner '''' ow w) (\<lambda>(i, c).
             Return (tc_monitoring_cost (rn_core c), w))))"

section \<open>Queries of the current task\<close>

definition current_cpu :: "'z nosv_scheme \<Rightarrow> nlog \<Rightarrow> (CpuId, NativeError) rust_result" where
  "current_cpu N h =
    (case ffi_current_cpu N h of Inl e \<Rightarrow> Err e | Inr v \<Rightarrow> cpu_id_from_native v)"

definition current_numa_node :: "'z nosv_scheme \<Rightarrow> nlog \<Rightarrow> (NumaNodeId, NativeError) rust_result" where
  "current_numa_node N h =
    (case ffi_current_numa_node N h of Inl e \<Rightarrow> Err e | Inr v \<Rightarrow> numa_id_from_native v)"

definition with_current ::
  "'z nosv_scheme \<Rightarrow> nlog \<Rightarrow> (nlog \<Rightarrow> ('r, NativeError) rust_result) \<Rightarrow> ('r, NativeError) rust_result"
  where
  "with_current N h query = (if ffi_current N h = None then Err OutsideTask else query h)"


section \<open>Lemmas\<close>

text \<open>Every identifier in use lies below the counter, so the next one is new everywhere.\<close>

definition id_below :: "u64 \<Rightarrow> TaskId \<Rightarrow> bool" where
  "id_below n i = (case i of TaskId k \<Rightarrow> k < n)"

definition world_ids :: "('f, 'a, 'p) World \<Rightarrow> bool" where
  "world_ids w \<longleftrightarrow>
    (\<forall>i \<in> fst ` set (tasks (rc_state (w_core w))) \<union> fst ` set (w_tasks w) \<union> set (w_owners w).
      id_below (next_task_id_counter (w_core w)) i)"

lemma world_ids_fresh:
  assumes "world_ids w"
  defines "i \<equiv> TaskId (next_task_id_counter (w_core w))"
  shows "hm_get (tasks (rc_state (w_core w))) i = None" and "hm_get (w_tasks w) i = None"
    and "i \<notin> set (w_owners w)"
proof -
  have "\<not> id_below (next_task_id_counter (w_core w)) i" by (simp add: i_def id_below_def)
  with assms(1) show "hm_get (tasks (rc_state (w_core w))) i = None"
    and "hm_get (w_tasks w) i = None" and "i \<notin> set (w_owners w)"
    unfolding world_ids_def hm_get_None_iff by blast+
qed

lemma id_below_Suc:
  "id_below n i \<Longrightarrow> unat m = Suc (unat n) \<Longrightarrow> id_below m i"
  by (auto simp: id_below_def word_less_nat_alt split: TaskId.splits)

lemma id_below_next: "unat m = Suc (unat n) \<Longrightarrow> id_below m (TaskId n)"
  by (simp add: id_below_def word_less_nat_alt)

lemma fst_set_hm_insert: "fst ` set (hm_insert k v m) \<subseteq> insert k (fst ` set m)"
  by (auto simp: hm_insert_def hm_remove_def)

lemma world_ids_grow:
  assumes "world_ids w"
    and "\<And>i. id_below (next_task_id_counter (w_core w)) i
          \<Longrightarrow> id_below (next_task_id_counter (w_core w')) i"
    and "id_below (next_task_id_counter (w_core w')) k"
    and "fst ` set (tasks (rc_state (w_core w'))) \<subseteq> insert k (fst ` set (tasks (rc_state (w_core w))))"
    and "fst ` set (w_tasks w') \<subseteq> insert k (fst ` set (w_tasks w))"
    and "set (w_owners w') \<subseteq> insert k (set (w_owners w))"
  shows "world_ids w'"
proof -
  let ?S = "\<lambda>w. fst ` set (tasks (rc_state (w_core w))) \<union> fst ` set (w_tasks w) \<union> set (w_owners w)"
  from assms(4-6) have sub: "?S w' \<subseteq> insert k (?S w)" by blast
  show ?thesis unfolding world_ids_def
  proof
    fix i assume "i \<in> ?S w'"
    with sub have "i = k \<or> i \<in> ?S w" by (meson insertE subsetD)
    with assms(1-3) show "id_below (next_task_id_counter (w_core w')) i"
      unfolding world_ids_def by metis
  qed
qed

lemma registry_insert_simps [simp]:
  "tasks (rc_state (registry_insert i core)) = hm_insert i i (tasks (rc_state core))"
  "lifecycle (rc_state (registry_insert i core)) = lifecycle (rc_state core)"
  "next_task_id_counter (registry_insert i core) = next_task_id_counter core"
  "task_type (registry_insert i core) = task_type core" "rc_pid (registry_insert i core) = rc_pid core"
  by (simp_all add: registry_insert_def)

lemma registry_remove_simps [simp]:
  "tasks (rc_state (registry_remove i core)) = hm_remove i (tasks (rc_state core))"
  "lifecycle (rc_state (registry_remove i core)) = lifecycle (rc_state core)"
  "next_task_id_counter (registry_remove i core) = next_task_id_counter core"
  by (simp_all add: registry_remove_def)

lemma apply_attributes_log:
  "\<exists>attrs. apply_attributes raw prio aff h = h @ attrs
      \<and> (\<forall>p. submits p attrs = 0 \<and> destroys p attrs = 0)"
  by (auto simp: apply_attributes_def ffi_defs split: option.splits)

lemma handle_errors_simps [simp]:
  "map_sum id Some x = Inl e \<longleftrightarrow> x = Inl e" "map_sum id Some x = Inr y \<longleftrightarrow> (\<exists>z. x = Inr z \<and> y = Some z)"
  by (cases x; auto)+

text \<open>The ways through \<open>spawn_on\<close> for a caller that is allowed to spawn.\<close>

lemma spawn_on_open:
  assumes "rc_pid (w_core w) = getpid" "lifecycle (rc_state (w_core w)) = Running"
    and "spawn_on N A getpid config f w = Return (r, w')"
  obtains (affinity) a e where "cfg_affinity config = Some a" "affinity_to_raw A a = Err e"
      "r = Err (SpawnNative e)" "w' = w"
  | (create) e core h where "r = Err (SpawnNative e)" "w' = w\<lparr>w_core := core, w_log := h\<rparr>"
      "next_task_id (w_core w) = Return (TaskId (next_task_id_counter (w_core w)), core)"
      "ffi_create N (task_type (w_core w)) owner_pointer_size (w_log w) = (Err e, h)"
  | (metadata) e core h h' raw where "r = Err (SpawnNative e)"
      "next_task_id (w_core w) = Return (TaskId (next_task_id_counter (w_core w)), core)"
      "ffi_create N (task_type (w_core w)) owner_pointer_size (w_log w) = (Ok raw, h)"
      "ffi_metadata N raw h = (Err e, h')"
      "w' = w\<lparr>w_core := core, w_log := snd (ffi_destroy N raw h')\<rparr>"
  | (submit) core h h' raw m aff where
      "next_task_id (w_core w) = Return (TaskId (next_task_id_counter (w_core w)), core)"
      "ffi_create N (task_type (w_core w)) owner_pointer_size (w_log w) = (Ok raw, h)"
      "ffi_metadata N raw h = (Ok m, h')"
      "(r, w') = spawn_submit N (TaskId (next_task_id_counter (w_core w))) raw
         (new_runnable (TaskId (next_task_id_counter (w_core w))) config f)
         (w\<lparr>w_core := core, w_log := apply_attributes raw (cfg_priority config) aff h',
            w_meta := hm_insert m (TaskId (next_task_id_counter (w_core w))) (w_meta w),
            w_owners := TaskId (next_task_id_counter (w_core w)) # w_owners w\<rparr>)"
      "case cfg_affinity config of None \<Rightarrow> aff = None | Some a \<Rightarrow> \<exists>x. affinity_to_raw A a = Ok x \<and> aff = Some x"
proof (cases "case cfg_affinity config of
               None \<Rightarrow> Ok None | Some a \<Rightarrow> map_sum id Some (affinity_to_raw A a)")
  case (Inl e)
  then show thesis using assms affinity
    by (auto simp: spawn_on_def process_matches_def split: option.splits)
next
  case (Inr aff)
  with assms obtain i core where next_id: "next_task_id (w_core w) = Return (i, core)"
    by (auto simp: spawn_on_def process_matches_def)
  note i = next_task_id_Return [OF next_id]
  obtain cr h where create_eq:
    "ffi_create N (task_type (w_core w)) owner_pointer_size (w_log w) = (cr, h)" by fastforce
  have tt: "task_type core = task_type (w_core w)" by (simp add: i(3))
  show thesis
  proof (cases cr)
    case (Inl e)
    with assms Inr next_id i(1) create_eq tt show thesis
      by (intro create [where e = e and core = core and h = h]) (auto simp: spawn_on_def process_matches_def Let_def)
  next
    case raw: (Inr raw)
    obtain md h' where md: "ffi_metadata N raw h = (md, h')" by fastforce
    show thesis
    proof (cases md)
      case (Inl e)
      with assms Inr next_id i(1) create_eq tt raw md show thesis
        by (intro metadata [where e = e and core = core and raw = raw and h = h and h' = h']) (auto simp: spawn_on_def process_matches_def Let_def)
    next
      case (Inr m)
      with assms \<open>_ = Inr aff\<close> next_id i(1) create_eq tt raw md show thesis
        by (intro submit [where core = core and raw = raw and h = h and m = m and h' = h' and aff = aff])
          (auto simp: spawn_on_def process_matches_def Let_def split: option.splits)
    qed
  qed
qed


lemma spawn_submit_Err:
  assumes "spawn_submit N i raw c w = (Err e, w')"
    and "hm_get (tasks (rc_state (w_core w))) i = None" "hm_get (w_tasks w) i = None"
  shows "tasks (rc_state (w_core w')) = tasks (rc_state (w_core w))"
    and "lifecycle (rc_state (w_core w')) = lifecycle (rc_state (w_core w))"
    and "w_tasks w' = w_tasks w" and "w_owners w' = remove1 i (w_owners w)"
    and "last (w_log w') = CDestroy (raw_task_as_ptr raw)"
  using assms
  by (auto simp: spawn_submit_def Let_def ffi_destroy_log split: prod.splits sum.splits)

lemma spawn_submit_Ok:
  assumes "spawn_submit N i raw c w = (Ok j, w')"
  shows "j = i"
    and "w' = w\<lparr>w_core := registry_insert i (w_core w),
           w_tasks := hm_insert i (set_gate ((rn_gate c)\<lparr>ng_task := Some raw, ng_phase := Live,
             wake_submitted := True\<rparr>) c) (w_tasks w),
           w_log := w_log w @ [CSubmit (raw_task_as_ptr raw) (NOSV_SUBMIT_NONE N)]\<rparr>"
    and "fst (ffi_submit N raw (w_log w)) = Ok ()"
  using assms
  by (auto simp: spawn_submit_def Let_def ffi_submit_def ffi_submit_with_def
      split: prod.splits sum.splits)

text \<open>A successful spawn in full.\<close>

lemma spawn_on_Ok:
  assumes "world_ids w" and "spawn_on N A getpid config f w = Return (Ok i, w')"
  shows "rc_pid (w_core w) = getpid \<and> lifecycle (rc_state (w_core w)) = Running
    \<and> hm_get (tasks (rc_state (w_core w))) i = None
    \<and> tasks (rc_state (w_core w')) = (i, i) # tasks (rc_state (w_core w))
    \<and> w_owners w' = i # w_owners w \<and> world_ids w'
    \<and> (\<exists>raw m h' aff calls.
         hm_get (w_tasks w') i = Some (set_gate \<lparr>ng_task = Some raw, ng_phase = Live,
           wake_submitted = True, polling = False, cancel_requested = False\<rparr> (new_runnable i config f))
       \<and> ffi_create N (task_type (w_core w)) owner_pointer_size (w_log w)
           = (Ok raw, w_log w @ [CCreate (raw_type_as_ptr (task_type (w_core w))) owner_pointer_size])
       \<and> hm_get (w_meta w') m = Some i
       \<and> w_log w' = w_log w @ [CCreate (raw_type_as_ptr (task_type (w_core w))) owner_pointer_size,
           CMetadata (raw_task_as_ptr raw)] @ calls @ [CSubmit (raw_task_as_ptr raw) (NOSV_SUBMIT_NONE N)]
       \<and> (\<forall>p. submits p calls = 0 \<and> destroys p calls = 0))"
proof -
  from assms(2) have open_rt: "rc_pid (w_core w) = getpid" "lifecycle (rc_state (w_core w)) = Running"
    by (auto simp: spawn_on_def process_matches_def split: if_splits sum.splits)
  note fresh = world_ids_fresh [OF assms(1)]
  from open_rt assms(2) show ?thesis
  proof (cases rule: spawn_on_open)
    case (submit core h h' raw m aff)
    note core = next_task_id_Return [OF submit(1)]
    note ok = spawn_submit_Ok [OF submit(4) [symmetric]]
    obtain calls where calls: "apply_attributes raw (cfg_priority config) aff h' = h' @ calls"
      "\<forall>p. submits p calls = 0 \<and> destroys p calls = 0"
      using apply_attributes_log by blast
    have h: "h = w_log w @ [CCreate (raw_type_as_ptr (task_type (w_core w))) owner_pointer_size]"
      using submit(2) by (auto simp: ffi_create_def split: prod.splits)
    have h': "h' = h @ [CMetadata (raw_task_as_ptr raw)]"
      using submit(3) by (auto simp: ffi_metadata_def Let_def split: if_splits)
    have "world_ids w'"
      using assms(1) id_below_Suc [OF _ core(2)] id_below_next [OF core(2)]
      by (intro world_ids_grow [OF assms(1), where k = "TaskId (next_task_id_counter (w_core w))"])
        (simp_all add: ok(2) core(3) fst_set_hm_insert subset_insertI)
    with open_rt fresh submit(2) calls h h' ok(1) show ?thesis
      unfolding ok(2) by (auto simp: core(3) hm_insert_def hm_remove_fresh new_runnable_def)
  qed simp_all
qed

section \<open>Properties\<close>

text \<open>
  C2: a spawn that fails leaves nothing behind. The registry, the task objects, the owners and the
  lifecycle are as before; a caller in a forked process or after shutdown began gets the error of
  that case with the whole state untouched, no native call included; and when a descriptor had
  already been created, the last native call destroys exactly that descriptor.
\<close>

theorem spawn_failure_leaves_nothing:
  assumes "world_ids w" and "spawn_on N A getpid config f w = Return (Err e, w')"
  shows "tasks (rc_state (w_core w')) = tasks (rc_state (w_core w))
    \<and> lifecycle (rc_state (w_core w')) = lifecycle (rc_state (w_core w))
    \<and> w_tasks w' = w_tasks w \<and> w_owners w' = w_owners w
    \<and> (rc_pid (w_core w) \<noteq> getpid \<longrightarrow> e = SpawnForkedProcess \<and> w' = w)
    \<and> (rc_pid (w_core w) = getpid \<and> lifecycle (rc_state (w_core w)) \<noteq> Running \<longrightarrow> w' = w)
    \<and> (w_log w' = w_log w
       \<or> (case fst (ffi_create N (task_type (w_core w)) owner_pointer_size (w_log w)) of
            Inl _ \<Rightarrow> length (w_log w') = Suc (length (w_log w))
          | Inr raw \<Rightarrow> last (w_log w') = CDestroy (raw_task_as_ptr raw)))"
proof (cases "rc_pid (w_core w) = getpid \<and> lifecycle (rc_state (w_core w)) = Running")
  case False
  with assms(2) have "w' = w \<and> (rc_pid (w_core w) \<noteq> getpid \<longrightarrow> e = SpawnForkedProcess)"
    by (auto simp: spawn_on_def process_matches_def split: if_splits sum.splits)
  with False show ?thesis by auto
next
  case True
  note fresh = world_ids_fresh [OF assms(1)]
  from True have "rc_pid (w_core w) = getpid" "lifecycle (rc_state (w_core w)) = Running" by auto
  from this assms(2) show ?thesis
  proof (cases rule: spawn_on_open)
    case (affinity a e')
    then show ?thesis using True by simp
  next
    case (create e' core h)
    then have "length h = Suc (length (w_log w))"
      by (auto simp: ffi_create_def split: prod.splits)
    with create True show ?thesis by (simp add: next_task_id_Return(3) [OF create(3)])
  next
    case (metadata e' core h h' raw)
    then show ?thesis using True
      by (simp add: next_task_id_Return(3) [OF metadata(2)] ffi_destroy_log)
  next
    case (submit core h h' raw m aff)
    note core = next_task_id_Return(3) [OF submit(1)]
    from spawn_submit_Err [OF submit(4) [symmetric]] fresh True submit(2) show ?thesis
      by (simp add: core)
  qed
qed

definition sample_world :: "int \<Rightarrow> (nat, nat, unit) World" where
  "sample_world pid = \<lparr>w_core = new_runtime_core 0 pid (RawTaskType 4096) (RawTaskType 8192),
     w_log = [], w_tasks = [], w_meta = [], w_owners = []\<rparr>"

text \<open>A library that creates descriptors but rejects every submission.\<close>

definition rejecting_nosv :: nosv where
  "rejecting_nosv = sample_nosv\<lparr>nosv_submit := (\<lambda>_ _ _. -4)\<rparr>"

lemma world_ids_sample: "world_ids (sample_world pid)"
  by (simp add: world_ids_def sample_world_def new_runtime_core_def)

theorem spawn_failure_leaves_nothing_witness:
  "\<exists>w'. spawn_on rejecting_nosv sample_abi 42 task_config_default 0 (sample_world 42)
        = Return (Err (SpawnNative InvalidParameter), w')
    \<and> tasks (rc_state (w_core w')) = [] \<and> w_owners w' = [] \<and> last (w_log w') = CDestroy 64"
proof -
  have code: "from_code rejecting_nosv (-4) = Err InvalidParameter" "from_code rejecting_nosv 0 = Ok ()"
    by (simp_all add: from_code_def rejecting_nosv_def sample_nosv_def sample_consts_def
        nosv_consts.defs)
  have fns: "nosv_create rejecting_nosv h q n = (0, 64 * of_nat (length h + 1))"
    "nosv_get_task_metadata rejecting_nosv h q = q + 8" "nosv_submit rejecting_nosv h q k = -4" for h q n k
    by (simp_all add: rejecting_nosv_def)
  obtain w' where run: "spawn_on rejecting_nosv sample_abi 42 task_config_default 0 (sample_world 42)
        = Return (Err (SpawnNative InvalidParameter), w')"
    and log: "last (w_log w') = CDestroy 64"
    by (simp add: spawn_on_def process_matches_def sample_world_def new_runtime_core_def
        task_config_default_def next_task_id_def Let_def ffi_defs code fns apply_attributes_def
        spawn_submit_def raw_task_from_ptr_def)
  from spawn_failure_leaves_nothing [OF world_ids_sample run] run log show ?thesis
    by (auto simp: sample_world_def new_runtime_core_def)
qed

text \<open>
  C3: a successful spawn happens only in the owning process while the runtime is running. It
  registers exactly one new identifier, under which the task object is live, owned by its
  descriptor's metadata and already marked as submitted; the native calls it makes create the
  descriptor, read its metadata, set the requested attributes and end with the only submission;
  and every identifier in use stays below the counter, so that the next spawn is fresh again.
\<close>

theorem spawn_success_registers:
  assumes "world_ids w" and "spawn_on N A getpid config f w = Return (Ok i, w')"
  shows "rc_pid (w_core w) = getpid \<and> lifecycle (rc_state (w_core w)) = Running
    \<and> hm_get (tasks (rc_state (w_core w))) i = None
    \<and> tasks (rc_state (w_core w')) = (i, i) # tasks (rc_state (w_core w))
    \<and> w_owners w' = i # w_owners w \<and> world_ids w'
    \<and> (\<exists>raw m h' aff calls.
         hm_get (w_tasks w') i = Some (set_gate \<lparr>ng_task = Some raw, ng_phase = Live,
           wake_submitted = True, polling = False, cancel_requested = False\<rparr> (new_runnable i config f))
       \<and> ffi_create N (task_type (w_core w)) owner_pointer_size (w_log w)
           = (Ok raw, w_log w @ [CCreate (raw_type_as_ptr (task_type (w_core w))) owner_pointer_size])
       \<and> hm_get (w_meta w') m = Some i
       \<and> w_log w' = w_log w @ [CCreate (raw_type_as_ptr (task_type (w_core w))) owner_pointer_size,
           CMetadata (raw_task_as_ptr raw)] @ calls @ [CSubmit (raw_task_as_ptr raw) (NOSV_SUBMIT_NONE N)]
       \<and> (\<forall>p. submits p calls = 0 \<and> destroys p calls = 0))"
  by (rule spawn_on_Ok [OF assms])


theorem spawn_success_registers_witness:
  "\<exists>w'. spawn_on sample_nosv sample_abi 42 (builder_priority 3 task_builder_new) 0 (sample_world 42)
        = Return (Ok (TaskId 1), w')
    \<and> tasks (rc_state (w_core w')) = [(TaskId 1, TaskId 1)] \<and> world_ids w'"
proof -
  obtain w' where run: "spawn_on sample_nosv sample_abi 42 (builder_priority 3 task_builder_new) 0
      (sample_world 42) = Return (Ok (TaskId 1), w')"
    by (simp add: spawn_on_def process_matches_def sample_world_def new_runtime_core_def
        task_config_default_def task_builder_new_def builder_priority_def next_task_id_def Let_def
        ffi_defs apply_attributes_def spawn_submit_def raw_task_from_ptr_def)
  from spawn_success_registers [OF world_ids_sample run] run show ?thesis
    by (auto simp: sample_world_def new_runtime_core_def)
qed

end
