(* ===== verification/Block_On.thy ===== *)
theory Block_On
  imports Task_Run
begin

text \<open>
  The root side of \<open>src/runtime.rs\<close>: the thread-local current handle with its scope guard,
  \<open>Parker\<close>, the waker target of the attached root task, and \<open>try_block_on\<close> with \<open>block_on\<close>. The
  root loop may run forever, so it is driven by fuel; \<open>None\<close> means that the fuel ran out, and
  termination is proved for every future that becomes ready. Between two polls other threads may
  wake the root any number of times; \<open>storms n\<close> is that number when \<open>n\<close> units of fuel are left.
\<close>

section \<open>Thread-local state\<close>

text \<open>A handle is identified by the runtime generation it belongs to.\<close>

type_synonym handle_id = nat

record Tls =
  tls_current :: "handle_id option"
  in_block_on :: bool

definition enter_current :: "handle_id \<Rightarrow> Tls \<Rightarrow> handle_id option \<times> Tls" where
  "enter_current handle tls = (tls_current tls, tls\<lparr>tls_current := Some handle\<rparr>)"

definition current_guard_drop :: "handle_id option \<Rightarrow> Tls \<Rightarrow> Tls" where
  "current_guard_drop previous tls = tls\<lparr>tls_current := previous\<rparr>"

definition handle_try_current :: "Tls \<Rightarrow> (handle_id, RuntimeClosed) rust_result" where
  "handle_try_current tls = (case tls_current tls of None \<Rightarrow> Err RuntimeClosed | Some handle \<Rightarrow> Ok handle)"

section \<open>The parker\<close>

record ParkerGate =
  pk_raw :: RawTask
  pk_pid :: int
  pk_live :: bool
  pk_wake_submitted :: bool

definition parker_begin_poll :: "ParkerGate \<Rightarrow> ParkerGate" where
  "parker_begin_poll g = g\<lparr>pk_wake_submitted := False\<rparr>"

definition parker_close :: "ParkerGate \<Rightarrow> ParkerGate" where
  "parker_close g = g\<lparr>pk_live := False\<rparr>"

definition parker_wake ::
  "'z nosv_scheme \<Rightarrow> int \<Rightarrow> ParkerGate \<times> nlog \<Rightarrow> (ParkerGate \<times> nlog) exec" where
  "parker_wake N getpid = (\<lambda>(g, h).
    (if pk_pid g \<noteq> getpid then Return (g, h)
     else if \<not> pk_live g \<or> pk_wake_submitted g then Return (g, h)
     else
       let g = g\<lparr>pk_wake_submitted := True\<rparr> in
       (case ffi_submit N (pk_raw g) h of
          (Inl e, h) \<Rightarrow> Abort ''nOS-V rejected an attached-thread wake''
        | (Inr _, h) \<Rightarrow> Return (g, h))))"

definition parker_usable :: "int \<Rightarrow> ParkerGate \<times> nlog \<Rightarrow> bool" where
  "parker_usable getpid = (\<lambda>(g, h). pk_pid g = getpid \<and> pk_live g)"

definition parker_marked :: "ParkerGate \<times> nlog \<Rightarrow> bool" where
  "parker_marked = (\<lambda>(g, h). pk_wake_submitted g)"

definition parker_cost :: "ParkerGate \<times> nlog \<Rightarrow> nat" where
  "parker_cost = (\<lambda>(g, h). submits (raw_task_as_ptr (pk_raw g)) h)"

lemma parker_wake_submits:
  assumes "pk_pid g = getpid" "pk_live g" "\<not> pk_wake_submitted g"
    and "parker_wake N getpid (g, h) = Return (g', h')"
  shows "g' = g\<lparr>pk_wake_submitted := True\<rparr>"
    and "h' = h @ [CSubmit (raw_task_as_ptr (pk_raw g)) (NOSV_SUBMIT_NONE N)]"
  using assms
  by (cases "from_code N (nosv_submit N h (raw_task_as_ptr (pk_raw g)) (NOSV_SUBMIT_NONE N))";
      simp add: parker_wake_def ffi_submit_def ffi_submit_with_def Let_def)+

lemma parker_wake_idle:
  "pk_pid g \<noteq> getpid \<or> \<not> pk_live g \<or> pk_wake_submitted g
    \<Longrightarrow> parker_wake N getpid (g, h) = Return (g, h)"
  by (auto simp: parker_wake_def)

interpretation root_waker:
  coalescing_waker "parker_wake N getpid" "parker_usable getpid" parker_marked parker_cost
  for N getpid
proof unfold_locales
  fix s :: "ParkerGate \<times> nlog"
  assume "\<not> parker_usable getpid s \<or> parker_marked s"
  then show "parker_wake N getpid s = Return s"
    by (cases s) (auto simp: parker_wake_idle parker_usable_def parker_marked_def)
next
  fix s t :: "ParkerGate \<times> nlog"
  obtain g h g' h' where st: "s = (g, h)" "t = (g', h')" by (cases s; cases t)
  assume a: "parker_usable getpid s" "\<not> parker_marked s" "parker_wake N getpid s = Return t"
  have "g' = g\<lparr>pk_wake_submitted := True\<rparr>"
    "h' = h @ [CSubmit (raw_task_as_ptr (pk_raw g)) (NOSV_SUBMIT_NONE N)]"
    using a parker_wake_submits [of g getpid N h g' h']
    by (simp_all add: st parker_usable_def parker_marked_def)
  with a show "parker_marked t \<and> parker_usable getpid t \<and> parker_cost t = Suc (parker_cost s)"
    by (simp add: st parker_usable_def parker_marked_def parker_cost_def)
qed

section \<open>Driving a root future\<close>

datatype ('a, 'p) driven = DrivenReady 'a | DrivenError BlockOnError | DrivenPanic 'p

fun block_loop ::
  "'z nosv_scheme \<Rightarrow> ('f, 'a, 'p) user_future \<Rightarrow> int \<Rightarrow> (nat \<Rightarrow> nat) \<Rightarrow> nat
    \<Rightarrow> 'f \<times> ParkerGate \<times> nlog \<Rightarrow> (('a, 'p) driven \<times> ParkerGate \<times> nlog) exec option" where
  "block_loop N U getpid storms 0 s = None"
| "block_loop N U getpid storms (Suc n) (f, g, h) =
    (let g = parker_begin_poll g; (out, f') = uf_poll U f in
     case wake_storm (parker_wake N getpid) (storms n) (g, h) of
       Abort m \<Rightarrow> Some (Abort m)
     | Panic m \<Rightarrow> Some (Panic m)
     | Return (g, h) \<Rightarrow>
         (case out of
            Ready v \<Rightarrow> Some (Return (DrivenReady v, g, h))
          | Panicked q \<Rightarrow> Some (Return (DrivenPanic q, g, h))
          | Pending \<Rightarrow>
              (case ffi_pause N h of
                 (Inl e, h) \<Rightarrow> Some (Return (DrivenError (BlockOnNative e), g, h))
               | (Inr _, h) \<Rightarrow> block_loop N U getpid storms n (f', g, h))))"

text \<open>What the caller of \<open>try_block_on\<close> sees: a value, an error, or the root's own panic.\<close>

datatype ('a, 'p) block_outcome = BlockOk 'a | BlockErr BlockOnError | BlockPanic 'p

record ('a, 'p) block_result =
  br_outcome :: "('a, 'p) block_outcome"
  br_tls :: Tls
  br_log :: nlog
  br_parker :: "ParkerGate option"

definition block_reject ::
  "BlockOnError \<Rightarrow> Tls \<Rightarrow> nlog \<Rightarrow> ('a, 'p) block_result exec option" where
  "block_reject e tls h =
    Some (Return \<lparr>br_outcome = BlockErr e, br_tls = tls, br_log = h, br_parker = None\<rparr>)"

text \<open>Close the parker, leave the scope, clear the flag, detach, and only then report.\<close>

definition block_finish ::
  "'z nosv_scheme \<Rightarrow> handle_id option \<Rightarrow> Tls \<Rightarrow> ('a, 'p) driven \<times> ParkerGate \<times> nlog
    \<Rightarrow> ('a, 'p) block_result" where
  "block_finish N previous tls = (\<lambda>(driven, g, h).
    (let g = parker_close g;
         tls = current_guard_drop previous tls;
         tls = tls\<lparr>in_block_on := False\<rparr>;
         (detached, h) = ffi_detach N h;
         outcome = (case driven of
             DrivenReady v \<Rightarrow> (case detached of Inl e \<Rightarrow> BlockErr (BlockOnNative e) | Inr _ \<Rightarrow> BlockOk v)
           | DrivenError e \<Rightarrow> BlockErr e
           | DrivenPanic q \<Rightarrow> BlockPanic q)
     in \<lparr>br_outcome = outcome, br_tls = tls, br_log = h, br_parker = Some g\<rparr>))"

definition try_block_on ::
  "'z nosv_scheme \<Rightarrow> ('f, 'a, 'p) user_future \<Rightarrow> handle_id \<Rightarrow> 'tc RuntimeCore \<Rightarrow> nat \<Rightarrow> int
    \<Rightarrow> (nat \<Rightarrow> nat) \<Rightarrow> nat \<Rightarrow> 'f \<Rightarrow> Tls \<Rightarrow> nlog \<Rightarrow> ('a, 'p) block_result exec option" where
  "try_block_on N U handle core thread getpid storms fuel f tls h =
    (if thread \<noteq> owner_thread core then block_reject BlockOnWrongThread tls h
     else if \<not> process_matches core getpid then block_reject BlockOnForkedProcess tls h
     else if lifecycle (rc_state core) \<noteq> Running then block_reject BlockOnRuntimeClosed tls h
     else if ffi_current N h \<noteq> None then block_reject BlockOnAlreadyInTask tls h
     else if in_block_on tls then block_reject BlockOnNested (tls\<lparr>in_block_on := True\<rparr>) h
     else
       let tls = tls\<lparr>in_block_on := True\<rparr> in
       case ffi_attach N ''rust.block_on'' h of
         (Inl e, h) \<Rightarrow> block_reject (BlockOnNative e) (tls\<lparr>in_block_on := False\<rparr>) h
       | (Inr raw, h) \<Rightarrow>
           let g = \<lparr>pk_raw = raw, pk_pid = rc_pid core, pk_live = True, pk_wake_submitted = True\<rparr>;
               (previous, tls) = enter_current handle tls
           in map_option (\<lambda>r. exec_bind r (\<lambda>s. Return (block_finish N previous tls s)))
                (block_loop N U getpid storms fuel (f, g, h)))"

text \<open>The convenience form turns an error into a panic with its rendering.\<close>

definition block_on ::
  "'z nosv_scheme \<Rightarrow> ('a, 'p) block_result \<Rightarrow> ('a + 'p) exec" where
  "block_on N r =
    (case br_outcome r of
       BlockOk v \<Rightarrow> Return (Inl v)
     | BlockErr e \<Rightarrow> Panic (''nOS-V block_on failed: '' @ block_on_error_fmt N e)
     | BlockPanic q \<Rightarrow> Return (Inr q))"


section \<open>Lemmas\<close>

lemma parker_wake_Return:
  assumes "parker_wake N getpid (g, h) = Return (g', h')"
  shows "pk_raw g' = pk_raw g \<and> pk_pid g' = pk_pid g \<and> pk_live g' = pk_live g
    \<and> (h' = h \<or> h' = h @ [CSubmit (raw_task_as_ptr (pk_raw g)) (NOSV_SUBMIT_NONE N)])"
proof (cases "pk_pid g \<noteq> getpid \<or> \<not> pk_live g \<or> pk_wake_submitted g")
  case True
  with assms show ?thesis by (simp add: parker_wake_idle)
next
  case False
  with parker_wake_submits [OF _ _ _ assms] show ?thesis by simp
qed

lemma parker_wakes_Return:
  assumes "wake_storm (parker_wake N getpid) n (g, h) = Return (g', h')"
  shows "pk_raw g' = pk_raw g \<and> pk_pid g' = pk_pid g \<and> pk_live g' = pk_live g
    \<and> (\<exists>k. h' = h @ replicate k (CSubmit (raw_task_as_ptr (pk_raw g)) (NOSV_SUBMIT_NONE N)))"
  using assms
proof (induction n arbitrary: g h)
  case (Suc n)
  then obtain g1 h1 where s: "parker_wake N getpid (g, h) = Return (g1, h1)"
    and r: "wake_storm (parker_wake N getpid) n (g1, h1) = Return (g', h')" by auto
  from parker_wake_Return [OF s] Suc.IH [OF r] show ?case
    by (elim conjE disjE exE) (simp_all, metis replicate_Suc)
qed (auto intro: exI [of _ 0])

text \<open>Within one poll at most one of the wakes is submitted.\<close>

lemma parker_wakes_cost:
  assumes "wake_storm (parker_wake N getpid) n (g, h) = Return (g', h')"
  shows "submits (raw_task_as_ptr (pk_raw g)) h' \<le> Suc (submits (raw_task_as_ptr (pk_raw g)) h)"
proof -
  from root_waker.wake_storm_once [OF assms] parker_wakes_Return [OF assms]
  show ?thesis by (simp add: parker_cost_def split: if_splits)
qed

text \<open>
  Everything the root loop does natively: pauses, and at most one submission of the attached
  descriptor per poll.
\<close>

lemma block_loop_Return:
  assumes "block_loop N U getpid storms n (f, g, h) = Some (Return (d, g', h'))"
  shows "pk_raw g' = pk_raw g \<and> pk_live g' = pk_live g
    \<and> (\<exists>calls. h' = h @ calls \<and> set calls \<subseteq> {CPause, CSubmit (raw_task_as_ptr (pk_raw g)) (NOSV_SUBMIT_NONE N)}
         \<and> submits (raw_task_as_ptr (pk_raw g)) calls \<le> Suc (length (filter ((=) CPause) calls)))"
  using assms
proof (induction n arbitrary: f g h)
  case (Suc n)
  let ?p = "raw_task_as_ptr (pk_raw g)" and ?S = "CSubmit (raw_task_as_ptr (pk_raw g)) (NOSV_SUBMIT_NONE N)"
  obtain out f' where out: "uf_poll U f = (out, f')" by fastforce
  from Suc.prems out obtain g1 h1
    where w: "wake_storm (parker_wake N getpid) (storms n) (parker_begin_poll g, h) = Return (g1, h1)"
    by (auto split: exec.splits)
  from parker_wakes_Return [OF w] obtain k where g1: "pk_raw g1 = pk_raw g" "pk_live g1 = pk_live g"
    and h1: "h1 = h @ replicate k ?S" by (auto simp: parker_begin_poll_def)
  from parker_wakes_cost [OF w] have k: "submits ?p (replicate k ?S) \<le> 1"
    by (simp add: h1 parker_begin_poll_def)
  show ?case
  proof (cases "out = Pending \<and> (\<exists>u. fst (ffi_pause N h1) = Ok u)")
    case True
    then have "block_loop N U getpid storms n (f', g1, h1 @ [CPause]) = Some (Return (d, g', h'))"
      using Suc.prems out w by (auto simp: ffi_pause_def)
    from Suc.IH [OF this] obtain calls where c: "pk_raw g' = pk_raw g" "pk_live g' = pk_live g"
      "h' = h1 @ [CPause] @ calls" "set calls \<subseteq> {CPause, ?S}"
      "submits ?p calls \<le> Suc (length (filter ((=) CPause) calls))" by (auto simp: g1)
    with k show ?thesis
      by (intro conjI exI [of _ "replicate k ?S @ [CPause] @ calls"])
        (auto simp: h1 filter_replicate)
  next
    case False
    have "\<exists>calls. h' = h1 @ calls \<and> set calls \<subseteq> {CPause} \<and> g' = g1"
      using False Suc.prems out w
      by (auto simp: ffi_pause_def split: polled.splits sum.splits)
    then obtain calls where c: "h' = h1 @ calls" "set calls \<subseteq> {CPause}" "g' = g1" by blast
    then have "submits ?p calls = 0"
      by (induction calls arbitrary: h') auto
    with k c g1 show ?thesis
      by (intro conjI exI [of _ "replicate k ?S @ calls"]) (auto simp: h1)
  qed
qed simp


text \<open>A future that is pending \<open>k\<close> times and then ready with \<open>v\<close>.\<close>

fun ready_after :: "('f, 'a, 'p) user_future \<Rightarrow> 'f \<Rightarrow> nat \<Rightarrow> 'a \<Rightarrow> bool" where
  "ready_after U f 0 v \<longleftrightarrow> fst (uf_poll U f) = Ready v"
| "ready_after U f (Suc k) v \<longleftrightarrow>
    fst (uf_poll U f) = Pending \<and> ready_after U (snd (uf_poll U f)) k v"

definition pauses :: "nlog \<Rightarrow> nat" where
  "pauses h = length (filter ((=) CPause) h)"

lemma pauses_simps [simp]:
  "pauses [] = 0" "pauses (c # h) = (if c = CPause then 1 else 0) + pauses h"
  "pauses (g @ h) = pauses g + pauses h" "pauses (replicate k (CSubmit p x)) = 0"
  by (auto simp: pauses_def filter_replicate)

lemma parker_wake_returns:
  assumes "descriptor_contract N (raw_task_as_ptr (pk_raw g))"
    and "destroys (raw_task_as_ptr (pk_raw g)) h = 0"
  shows "\<exists>g' h'. parker_wake N getpid (g, h) = Return (g', h')"
proof -
  have "from_code N (nosv_submit N h (raw_task_as_ptr (pk_raw g)) (NOSV_SUBMIT_NONE N)) = Ok ()"
    using assms by (simp add: descriptor_contract_def)
  then show ?thesis
    by (simp add: parker_wake_def Let_def ffi_submit_def ffi_submit_with_def)
qed

lemma parker_storm_returns:
  assumes "descriptor_contract N (raw_task_as_ptr (pk_raw g))"
    and "destroys (raw_task_as_ptr (pk_raw g)) h = 0"
  shows "\<exists>g' h'. wake_storm (parker_wake N getpid) n (g, h) = Return (g', h')"
  using assms
proof (induction n arbitrary: g h)
  case (Suc n)
  then obtain g1 h1 where s: "parker_wake N getpid (g, h) = Return (g1, h1)"
    using parker_wake_returns by blast
  from parker_wake_Return [OF s] Suc.prems have "pk_raw g1 = pk_raw g"
    "destroys (raw_task_as_ptr (pk_raw g1)) h1 = 0" by auto
  with Suc s show ?case by simp
qed simp

lemma destroys_replicate_submit [simp]: "destroys p (replicate k (CSubmit q x)) = 0"
  by (induction k) simp_all

lemma block_loop_returns:
  assumes "descriptor_contract N (raw_task_as_ptr (pk_raw g))"
    and "destroys (raw_task_as_ptr (pk_raw g)) h = 0"
    and "\<And>h. from_code N (nosv_pause N h) = Ok ()" and "ready_after U f k v" and "k < n"
  shows "\<exists>g' h'. block_loop N U getpid storms n (f, g, h) = Some (Return (DrivenReady v, g', h'))
    \<and> pauses h' = pauses h + k"
  using assms
proof (induction n arbitrary: f g h k)
  case (Suc n)
  let ?s = "wake_storm (parker_wake N getpid) (storms n) (parker_begin_poll g, h)"
  have "pk_raw (parker_begin_poll g) = pk_raw g" by (simp add: parker_begin_poll_def)
  with Suc.prems(1,2) obtain g1 h1 where w: "?s = Return (g1, h1)"
    using parker_storm_returns [of N "parker_begin_poll g" h getpid "storms n"] by auto
  from parker_wakes_Return [OF w] obtain j where g1: "pk_raw g1 = pk_raw g"
    and h1: "h1 = h @ replicate j (CSubmit (raw_task_as_ptr (pk_raw g)) (NOSV_SUBMIT_NONE N))"
    by (auto simp: parker_begin_poll_def)
  obtain out f' where out: "uf_poll U f = (out, f')" by fastforce
  show ?case
  proof (cases k)
    case 0
    with Suc.prems(4) out w h1 show ?thesis by simp
  next
    case (Suc m)
    with Suc.prems Suc.IH [of g1 "h1 @ [CPause]" f' m] out w g1 h1 show ?thesis
      by (auto simp: ffi_pause_def is_destroy_of_def)
  qed
qed simp

lemma br_parker_block_finish [simp]:
  "br_parker (block_finish N previous tls s) = Some (parker_close (fst (snd s)))"
  by (cases s) (simp add: block_finish_def Let_def split: prod.split)

section \<open>Properties\<close>

text \<open>
  C14: every way out of \<open>try_block_on\<close> cleans up. The thread-local state is the one before the call,
  including after a panic of the root future. A rejected call makes no native call but possibly the
  failed attach. A call that attached has closed its parker, so that every later wake changes
  nothing, and its native calls are attach, then pauses and submissions of the attached descriptor,
  at most one submission per poll, then detach.
\<close>

theorem block_on_cleans_up:
  assumes "try_block_on N U handle core thread getpid storms fuel f tls h = Some (Return r)"
  shows "br_tls r = tls
    \<and> (case br_parker r of
         None \<Rightarrow> br_log r = h \<or> br_log r = h @ [CAttach ''rust.block_on'']
       | Some g \<Rightarrow> \<not> pk_live g \<and> parker_wake N pid (g, late) = Return (g, late)
           \<and> (\<exists>calls. br_log r = h @ [CAttach ''rust.block_on''] @ calls @ [CDetach]
               \<and> set calls \<subseteq> {CPause, CSubmit (raw_task_as_ptr (pk_raw g)) (NOSV_SUBMIT_NONE N)}
               \<and> submits (raw_task_as_ptr (pk_raw g)) calls \<le> Suc (pauses calls)))"
proof (cases "br_parker r")
  case None
  with assms show ?thesis
    by (auto simp: try_block_on_def block_reject_def ffi_attach_def Let_def
        enter_current_def split: if_splits prod.splits sum.splits option.splits)
next
  case (Some pg)
  obtain at where at: "ffi_attach N ''rust.block_on'' h = (at, h @ [CAttach ''rust.block_on''])"
    by (cases "ffi_attach N ''rust.block_on'' h") (auto simp: ffi_attach_def split: prod.splits)
  from assms Some at obtain raw where raw: "at = Ok raw" and nb: "\<not> in_block_on tls"
    by (cases at) (auto simp: try_block_on_def block_reject_def split: if_splits)
  let ?g = "\<lparr>pk_raw = raw, pk_pid = rc_pid core, pk_live = True, pk_wake_submitted = True\<rparr>"
  from assms Some at raw obtain d g' h'
    where run: "block_loop N U getpid storms fuel (f, ?g, h @ [CAttach ''rust.block_on''])
        = Some (Return (d, g', h'))"
      and r: "r = block_finish N (tls_current tls)
        ((tls\<lparr>in_block_on := True\<rparr>)\<lparr>tls_current := Some handle\<rparr>) (d, g', h')"
    by (auto simp: try_block_on_def block_reject_def enter_current_def split: if_splits)
  from block_loop_Return [OF run] obtain calls where
    "h' = (h @ [CAttach ''rust.block_on'']) @ calls" "pk_raw g' = raw"
    "set calls \<subseteq> {CPause, CSubmit (raw_task_as_ptr raw) (NOSV_SUBMIT_NONE N)}"
    "submits (raw_task_as_ptr raw) calls \<le> Suc (pauses calls)" by (auto simp: pauses_def)
  with nb show ?thesis
    by (auto simp: r block_finish_def Let_def ffi_detach_def parker_close_def parker_wake_idle
        current_guard_drop_def)
qed


definition sample_tls :: Tls where
  "sample_tls = \<lparr>tls_current = None, in_block_on = False\<rparr>"


theorem block_on_cleans_up_witness:
  "\<exists>r. try_block_on sample_nosv sample_future 1 sample_core 0 42 (\<lambda>_. 0) 1 0 sample_tls [] = Some (Return r)
    \<and> br_tls r = sample_tls"
proof -
  have core: "owner_thread sample_core = 0" "rc_pid sample_core = 42"
    "lifecycle (rc_state sample_core) = Running"
    by (simp_all add: sample_core_def new_runtime_core_def)
  have "\<exists>r. try_block_on sample_nosv sample_future 1 sample_core 0 42 (\<lambda>_. 0) 1 0 sample_tls []
      = Some (Return r)"
    using core by (simp add: try_block_on_def process_matches_def ffi_current_def raw_task_from_ptr_def
        ffi_attach_def sample_tls_def sample_future_def enter_current_def)
  then obtain r where run: "try_block_on sample_nosv sample_future 1 sample_core 0 42 (\<lambda>_. 0) 1 0
      sample_tls [] = Some (Return r)" by blast
  from block_on_cleans_up [OF run] run show ?thesis by blast
qed

end
