(* ===== verification/Runtime_Lifecycle.thy ===== *)
theory Runtime_Lifecycle
  imports Task_Spawn Timer Block_On
begin

text \<open>
  Construction and shutdown of a runtime in \<open>src/runtime.rs\<close>: \<open>RuntimeBuilder::build\<close>,
  \<open>shutdown_inner\<close>, \<open>shutdown\<close> and \<open>Drop\<close>. The outcome of preparing the ring is an argument (it is a
  kernel call). Stopping a driver runs that driver's own loop to its end; what this adds to the log
  of native calls is an argument, a list that contains no type or library call. Between the abort
  requests and the end of the drain other threads run the tasks' callbacks: \<open>drain\<close> is what they
  make of the world.
\<close>

section \<open>Construction\<close>

record BuiltRuntime =
  rt_core :: "TaskId RuntimeCore"
  rt_timer :: TimerDriver
  rt_io_uring_type :: RawTaskType
  rt_io_uring :: DriverGate

text \<open>The cleanup after a failure, in reverse order of the acquisitions.\<close>

definition build_undo :: "'z nosv_scheme \<Rightarrow> RawTaskType list \<Rightarrow> nlog \<Rightarrow> nlog" where
  "build_undo N types h = snd (ffi_shutdown N (foldl (\<lambda>h tt. snd (ffi_type_destroy N tt h)) h types))"

text \<open>The second half of \<open>build\<close>: the two drivers and the timer's type.\<close>

definition build_drivers ::
  "'z nosv_scheme \<Rightarrow> nlog \<Rightarrow> nat \<Rightarrow> int \<Rightarrow> RawTaskType \<Rightarrow> RawTaskType \<Rightarrow> nlog
    \<Rightarrow> (BuiltRuntime, 'io InitError) rust_result \<times> nlog" where
  "build_drivers N uring_stop thread pid async_ty io_ty h =
    (case uring_gate_start N io_ty h of
       (Inl e, h) \<Rightarrow> (Err (InitNative e), build_undo N [io_ty, async_ty] h)
     | (Inr io_uring, h) \<Rightarrow>
         (case ffi_type_init N ''rust.timer'' h of
            (Inl e, h) \<Rightarrow> (Err (InitNative e), build_undo N [io_ty, async_ty] (h @ uring_stop))
          | (Inr timer_ty, h) \<Rightarrow>
              (case timer_start N timer_ty h of
                 (Inl e, h) \<Rightarrow>
                   (Err (InitNative e), build_undo N [io_ty, async_ty]
                      (snd (ffi_type_destroy N timer_ty h) @ uring_stop))
               | (Inr timer, h) \<Rightarrow>
                   (Ok \<lparr>rt_core = new_runtime_core thread pid async_ty timer_ty, rt_timer = timer,
                        rt_io_uring_type = io_ty, rt_io_uring = io_uring\<rparr>, h))))"

definition runtime_build ::
  "'z nosv_scheme \<Rightarrow> (unit, 'io InitError) rust_result \<Rightarrow> nlog \<Rightarrow> nat \<Rightarrow> int \<Rightarrow> nlog
    \<Rightarrow> (BuiltRuntime, 'io InitError) rust_result \<times> nlog" where
  "runtime_build N prepared uring_stop thread pid h =
    (if ffi_current N h \<noteq> None then (Err InitAlreadyInTask, h)
     else case prepared of
       Inl e \<Rightarrow> (Err e, h)
     | Inr _ \<Rightarrow>
     (case ffi_init N h of
        (Inl e, h) \<Rightarrow> (Err (InitNative e), h)
      | (Inr _, h) \<Rightarrow>
      (case ffi_type_init N ''rust.async'' h of
         (Inl e, h) \<Rightarrow> (Err (InitNative e), build_undo N [] h)
       | (Inr async_ty, h) \<Rightarrow>
       (case ffi_type_init N ''rust.io_uring'' h of
          (Inl e, h) \<Rightarrow> (Err (InitNative e), build_undo N [async_ty] h)
        | (Inr io_ty, h) \<Rightarrow>
        build_drivers N uring_stop thread pid async_ty io_ty h))))"

section \<open>Shutdown\<close>

definition set_lifecycle :: "Lifecycle \<Rightarrow> ('f, 'a, 'p) World \<Rightarrow> ('f, 'a, 'p) World" where
  "set_lifecycle l w = w\<lparr>w_core := (w_core w)\<lparr>rc_state := (rc_state (w_core w))\<lparr>lifecycle := l\<rparr>\<rparr>\<rparr>"

text \<open>The guards, the transition and the snapshot of the registry: one critical section.\<close>

definition shutdown_begin ::
  "nat \<Rightarrow> int \<Rightarrow> ('f, 'a, 'p) World
    \<Rightarrow> (unit, ShutdownError) rust_result + TaskId list \<times> ('f, 'a, 'p) World" where
  "shutdown_begin thread getpid w =
    (if thread \<noteq> owner_thread (w_core w) then Inl (Err ShutdownWrongThread)
     else if \<not> process_matches (w_core w) getpid then Inl (Err ShutdownForkedProcess)
     else case lifecycle (rc_state (w_core w)) of
       Closed \<Rightarrow> Inl (Ok ())
     | Running \<Rightarrow> Inr (hm_values (tasks (rc_state (w_core w))), set_lifecycle Closing w)
     | Closing \<Rightarrow> Inr (hm_values (tasks (rc_state (w_core w))), w))"

text \<open>The snapshot holds a reference to every task in it, so the objects exist.\<close>

fun abort_all ::
  "'z nosv_scheme \<Rightarrow> int \<Rightarrow> TaskId list \<Rightarrow> ('f, 'a, 'p) World \<Rightarrow> ('f, 'a, 'p) World exec" where
  "abort_all N getpid [] w = Return w"
| "abort_all N getpid (i # is) w =
    (case hm_get (w_tasks w) i of
       None \<Rightarrow> abort_all N getpid is w
     | Some c \<Rightarrow>
         exec_bind (request_abort N (Some (w_core w)) getpid (rn_gate c, w_log w))
           (\<lambda>(_, g, h). abort_all N getpid is
              (w\<lparr>w_tasks := hm_insert i (set_gate g c) (w_tasks w), w_log := h\<rparr>)))"

text \<open>After the drain: drivers and types in order, then the library; an error stops it midway.\<close>

definition shutdown_finish ::
  "'z nosv_scheme \<Rightarrow> RawTaskType \<Rightarrow> nlog \<Rightarrow> nlog \<Rightarrow> ('f, 'a, 'p) World
    \<Rightarrow> (unit, ShutdownError) rust_result \<times> ('f, 'a, 'p) World" where
  "shutdown_finish N io_type uring_stop timer_stop w =
    (case ffi_type_destroy N io_type (w_log w @ uring_stop) of
       (Inl e, h) \<Rightarrow> (Err (ShutdownNative e), w\<lparr>w_log := h\<rparr>)
     | (Inr _, h) \<Rightarrow>
     (case ffi_type_destroy N (timer_type (w_core w)) (h @ timer_stop) of
        (Inl e, h) \<Rightarrow> (Err (ShutdownNative e), w\<lparr>w_log := h\<rparr>)
      | (Inr _, h) \<Rightarrow>
      (case ffi_type_destroy N (task_type (w_core w)) h of
         (Inl e, h) \<Rightarrow> (Err (ShutdownNative e), w\<lparr>w_log := h\<rparr>)
       | (Inr _, h) \<Rightarrow>
       (case ffi_shutdown N h of
          (Inl e, h) \<Rightarrow> (Err (ShutdownNative e), w\<lparr>w_log := h\<rparr>)
        | (Inr _, h) \<Rightarrow> (Ok (), set_lifecycle Closed (w\<lparr>w_log := h\<rparr>))))))"

text \<open>\<open>None\<close> while the registry is not empty: the owner waits on the condition variable.\<close>

definition shutdown_inner ::
  "'z nosv_scheme \<Rightarrow> RawTaskType \<Rightarrow> nlog \<Rightarrow> nlog \<Rightarrow> (('f, 'a, 'p) World \<Rightarrow> ('f, 'a, 'p) World)
    \<Rightarrow> nat \<Rightarrow> int \<Rightarrow> ('f, 'a, 'p) World
    \<Rightarrow> ((unit, ShutdownError) rust_result \<times> ('f, 'a, 'p) World) exec option" where
  "shutdown_inner N io_type uring_stop timer_stop drain thread getpid w =
    (case shutdown_begin thread getpid w of
       Inl r \<Rightarrow> Some (Return (r, w))
     | Inr (snapshot, w) \<Rightarrow>
         (case abort_all N getpid snapshot w of
            Return w \<Rightarrow>
              (let w = drain w in
               if tasks (rc_state (w_core w)) \<noteq> [] then None
               else Some (Return (shutdown_finish N io_type uring_stop timer_stop w)))
          | Panic m \<Rightarrow> Some (Panic m)
          | Abort m \<Rightarrow> Some (Abort m)))"

text \<open>\<open>Drop\<close> repeats the shutdown as long as none has succeeded, and ignores its error.\<close>

definition runtime_drop ::
  "'z nosv_scheme \<Rightarrow> RawTaskType \<Rightarrow> nlog \<Rightarrow> nlog \<Rightarrow> (('f, 'a, 'p) World \<Rightarrow> ('f, 'a, 'p) World)
    \<Rightarrow> nat \<Rightarrow> int \<Rightarrow> bool \<times> ('f, 'a, 'p) World \<Rightarrow> (bool \<times> ('f, 'a, 'p) World) exec option" where
  "runtime_drop N io_type uring_stop timer_stop drain thread getpid = (\<lambda>(active, w).
    (if active then
       map_option (\<lambda>e. exec_bind e (\<lambda>(r, w). Return (case r of Inl _ \<Rightarrow> active | Inr _ \<Rightarrow> False, w)))
         (shutdown_inner N io_type uring_stop timer_stop drain thread getpid w)
     else Some (Return (active, w))))"

text \<open>\<open>Runtime::shutdown\<close> consumes the runtime, so it ends with the drop.\<close>

definition runtime_shutdown ::
  "'z nosv_scheme \<Rightarrow> RawTaskType \<Rightarrow> nlog \<Rightarrow> nlog \<Rightarrow> (('f, 'a, 'p) World \<Rightarrow> ('f, 'a, 'p) World)
    \<Rightarrow> nat \<Rightarrow> int \<Rightarrow> ('f, 'a, 'p) World
    \<Rightarrow> ((unit, ShutdownError) rust_result \<times> ('f, 'a, 'p) World) exec option" where
  "runtime_shutdown N io_type uring_stop timer_stop drain thread getpid w =
    (case shutdown_inner N io_type uring_stop timer_stop drain thread getpid w of
       None \<Rightarrow> None
     | Some (Panic m) \<Rightarrow> Some (Panic m)
     | Some (Abort m) \<Rightarrow> Some (Abort m)
     | Some (Return (r, w)) \<Rightarrow>
         map_option (\<lambda>e. exec_bind e (\<lambda>(_, w). Return (r, w)))
           (runtime_drop N io_type uring_stop timer_stop drain thread getpid
              (case r of Inl _ \<Rightarrow> True | Inr _ \<Rightarrow> False, w)))"

section \<open>Balanced native resources\<close>

text \<open>
  What a sequence of calls leaves open when it is issued after \<open>pre\<close>: initialisations of the
  library that succeeded, minus shutdowns; task types created, minus those destroyed.
\<close>

definition call_balance :: "'z nosv_scheme \<Rightarrow> nlog \<Rightarrow> native_call \<Rightarrow> int \<times> int" where
  "call_balance N pre c =
    (case c of
       CInit \<Rightarrow> (case fst (ffi_init N pre) of Inl _ \<Rightarrow> (0, 0) | Inr _ \<Rightarrow> (1, 0))
     | CShutdown \<Rightarrow> (-1, 0)
     | CTypeInit l \<Rightarrow> (case fst (ffi_type_init N l pre) of Inl _ \<Rightarrow> (0, 0) | Inr _ \<Rightarrow> (0, 1))
     | CTypeDestroy _ \<Rightarrow> (0, -1)
     | _ \<Rightarrow> (0, 0))"

fun balance :: "'z nosv_scheme \<Rightarrow> nlog \<Rightarrow> nlog \<Rightarrow> int \<times> int" where
  "balance N pre [] = (0, 0)"
| "balance N pre (c # cs) =
    (fst (call_balance N pre c) + fst (balance N (pre @ [c]) cs),
     snd (call_balance N pre c) + snd (balance N (pre @ [c]) cs))"

text \<open>Calls that neither open nor close the library or a type.\<close>

definition neutral_call :: "native_call \<Rightarrow> bool" where
  "neutral_call c = (case c of CInit \<Rightarrow> False | CShutdown \<Rightarrow> False | CTypeInit _ \<Rightarrow> False
     | CTypeDestroy _ \<Rightarrow> False | _ \<Rightarrow> True)"

lemma neutral_call_balance: "neutral_call c \<Longrightarrow> call_balance N pre c = (0, 0)"
  by (cases c) (simp_all add: neutral_call_def call_balance_def)

lemma balance_append:
  "balance N pre (a @ b) = (fst (balance N pre a) + fst (balance N (pre @ a) b),
     snd (balance N pre a) + snd (balance N (pre @ a) b))"
  by (induction a arbitrary: pre) simp_all

lemma balance_neutral: "\<forall>c \<in> set cs. neutral_call c \<Longrightarrow> balance N pre cs = (0, 0)"
  by (induction cs arbitrary: pre) (simp_all add: neutral_call_balance)


text \<open>What a stretch of a computation has added to the balance since \<open>h0\<close>.\<close>

definition accrued :: "'z nosv_scheme \<Rightarrow> nlog \<Rightarrow> nlog \<Rightarrow> int \<times> int \<Rightarrow> bool" where
  "accrued N h0 h b \<longleftrightarrow> (\<exists>cs. h = h0 @ cs \<and> balance N h0 cs = b)"

lemma accrued_refl: "accrued N h h (0, 0)"
  by (simp add: accrued_def)

lemma accrued_call:
  "accrued N h0 h (i, t) \<Longrightarrow> call_balance N h c = (i', t') \<Longrightarrow> accrued N h0 (h @ [c]) (i + i', t + t')"
  by (auto simp: accrued_def balance_append)

lemma accrued_neutral:
  "accrued N h0 h b \<Longrightarrow> \<forall>c \<in> set cs. neutral_call c \<Longrightarrow> accrued N h0 (h @ cs) b"
  by (auto simp: accrued_def balance_append balance_neutral)

lemma accrued_init:
  "ffi_init N h = (r, h') \<Longrightarrow> accrued N h0 h (i, t)
    \<Longrightarrow> accrued N h0 h' (case r of Inl _ \<Rightarrow> i | Inr _ \<Rightarrow> i + 1, t)"
  using accrued_call [of N h0 h i t CInit]
  by (auto simp: ffi_init_def call_balance_def split: sum.splits)

lemma accrued_type_init:
  "ffi_type_init N l h = (r, h') \<Longrightarrow> accrued N h0 h (i, t)
    \<Longrightarrow> accrued N h0 h' (i, case r of Inl _ \<Rightarrow> t | Inr _ \<Rightarrow> t + 1)"
proof -
  assume ty: "ffi_type_init N l h = (r, h')" and acc: "accrued N h0 h (i, t)"
  have "h' = h @ [CTypeInit l]" using ty by (auto simp: ffi_type_init_def split: prod.splits)
  moreover have "call_balance N h (CTypeInit l) = (0, case r of Inl _ \<Rightarrow> 0 | Inr _ \<Rightarrow> 1)"
    using ty by (auto simp: call_balance_def split: sum.splits)
  ultimately show ?thesis using accrued_call [OF acc, of "CTypeInit l"] by (auto split: sum.splits)
qed

lemma accrued_type_destroy:
  "ffi_type_destroy N tt h = (r, h') \<Longrightarrow> accrued N h0 h (i, t) \<Longrightarrow> accrued N h0 h' (i, t - 1)"
  using accrued_call [of N h0 h i t "CTypeDestroy (raw_type_as_ptr tt)"]
  by (auto simp: ffi_type_destroy_def call_balance_def)

lemma accrued_shutdown:
  "ffi_shutdown N h = (r, h') \<Longrightarrow> accrued N h0 h (i, t) \<Longrightarrow> accrued N h0 h' (i - 1, t)"
  using accrued_call [of N h0 h i t CShutdown] by (auto simp: ffi_shutdown_def call_balance_def)

lemma accrued_driver:
  assumes "driver_start N tt h = (r, h')" and "accrued N h0 h b"
  shows "accrued N h0 h' b"
proof -
  have "\<exists>cs. h' = h @ cs \<and> (\<forall>c \<in> set cs. neutral_call c)"
  proof (cases r)
    case (Inl e)
    with assms(1) driver_start_Err [of N tt h e h'] show ?thesis by (fastforce simp: neutral_call_def)
  next
    case (Inr g)
    with assms(1) driver_start_Ok [of N tt h g h'] show ?thesis by (fastforce simp: neutral_call_def)
  qed
  with accrued_neutral [OF assms(2)] show ?thesis by blast
qed

lemma accrued_undo:
  "accrued N h0 h (i, t) \<Longrightarrow> accrued N h0 (build_undo N types h) (i - 1, t - int (length types))"
proof (induction types arbitrary: h t)
  case Nil
  then show ?case using accrued_shutdown [of N h "fst (ffi_shutdown N h)" "snd (ffi_shutdown N h)"]
    by (simp add: build_undo_def)
next
  case (Cons ty types)
  from accrued_type_destroy [of N ty h "fst (ffi_type_destroy N ty h)"
      "snd (ffi_type_destroy N ty h)", OF _ Cons.prems]
  have "accrued N h0 (snd (ffi_type_destroy N ty h)) (i, t - 1)" by simp
  from Cons.IH [OF this] show ?case by (simp add: build_undo_def algebra_simps)
qed

lemma timer_start_as_driver:
  "timer_start N tt h = (r, h') \<Longrightarrow> \<exists>r'. driver_start N tt h = (r', h')"
  by (auto simp: timer_start_def split: prod.splits sum.splits)

lemma build_drivers_accrued:
  assumes acc: "accrued N h0 h (1, 2)" and neutral: "\<forall>c \<in> set uring_stop. neutral_call c"
    and build: "build_drivers N uring_stop thread pid t1 t2 h = (r, h')"
  shows "accrued N h0 h' (case r of Inl _ \<Rightarrow> (0, 0) | Inr _ \<Rightarrow> (1, 3))"
proof -
  obtain r4 h4 where s4: "driver_start N t2 h = (r4, h4)" by fastforce
  note a4 = accrued_driver [OF s4 acc]
  obtain r5 h5 where s5: "ffi_type_init N ''rust.timer'' h4 = (r5, h5)" by fastforce
  note a5 = accrued_type_init [OF s5 a4]
  show ?thesis
  proof (cases r4)
    case Inl
    with build s4 accrued_undo [OF a4, of "[t2, t1]"] show ?thesis
      by (auto simp: build_drivers_def uring_gate_start_def)
  next
    case r4: (Inr g)
    show ?thesis
    proof (cases r5)
      case Inl
      with a5 have "accrued N h0 (h5 @ uring_stop) (1, 2)" by (intro accrued_neutral) (simp_all add: neutral)
      with Inl r4 build s4 s5 accrued_undo [of N h0 _ 1 2 "[t2, t1]"] show ?thesis
        by (auto simp: build_drivers_def uring_gate_start_def)
    next
      case r5: (Inr t3)
      obtain r6 h6 where s6: "timer_start N t3 h5 = (r6, h6)" by fastforce
      from timer_start_as_driver [OF s6] obtain r' where s6': "driver_start N t3 h5 = (r', h6)" by blast
      have a6: "accrued N h0 h6 (1, 3)" by (rule accrued_driver [OF s6']) (use a5 r5 in simp)
      from accrued_type_destroy [OF prod.collapse [symmetric] a6]
      have "accrued N h0 (snd (ffi_type_destroy N t3 h6)) (1, 2)" by simp
      then have "accrued N h0 (snd (ffi_type_destroy N t3 h6) @ uring_stop) (1, 2)"
        by (rule accrued_neutral) (rule neutral)
      from accrued_undo [OF this, of "[t2, t1]"] a6 r4 r5 build s4 s5 s6 show ?thesis
        by (cases r6) (auto simp: build_drivers_def uring_gate_start_def)
    qed
  qed
qed

text \<open>The build, stage by stage, each stage with what has been accrued so far.\<close>

lemma build_accrued:
  assumes "ffi_current N h = None" "prepared = Ok ()" and neutral: "\<forall>c \<in> set uring_stop. neutral_call c"
    and build: "runtime_build N prepared uring_stop thread pid h = (r, h')"
  shows "accrued N h h' (case r of Inl _ \<Rightarrow> (0, 0) | Inr _ \<Rightarrow> (1, 3))"
proof -
  obtain r1 h1 where s1: "ffi_init N h = (r1, h1)" by fastforce
  note a1 = accrued_init [OF s1 accrued_refl]
  obtain r2 h2 where s2: "ffi_type_init N ''rust.async'' h1 = (r2, h2)" by fastforce
  note a2 = accrued_type_init [OF s2 a1]
  obtain r3 h3 where s3: "ffi_type_init N ''rust.io_uring'' h2 = (r3, h3)" by fastforce
  note a3 = accrued_type_init [OF s3 a2]
  note early = assms(1,2) build a1 accrued_undo [OF a2, of "[]"] s1 s2 s3
  show ?thesis
  proof (cases r1)
    case Inl
    with early show ?thesis by (auto simp: runtime_build_def)
  next
    case r1: (Inr _)
    show ?thesis
    proof (cases r2)
      case Inl
      with early r1 show ?thesis by (auto simp: runtime_build_def)
    next
      case r2: (Inr t1)
      show ?thesis
      proof (cases r3)
        case Inl
        with early r1 r2 accrued_undo [OF a3, of "[t1]"] show ?thesis by (auto simp: runtime_build_def)
      next
        case r3: (Inr t2)
        with a3 r1 r2 have a3: "accrued N h h3 (1, 2)" by simp
        have "runtime_build N prepared uring_stop thread pid h = build_drivers N uring_stop thread pid t1 t2 h3"
          using early r1 r2 r3 by (simp add: runtime_build_def build_drivers_def)
        with build_drivers_accrued [OF a3 neutral] build show ?thesis by metis
      qed
    qed
  qed
qed

subsection \<open>Shutdown\<close>

lemma set_lifecycle_simps [simp]:
  "lifecycle (rc_state (w_core (set_lifecycle l w))) = l"
  "tasks (rc_state (w_core (set_lifecycle l w))) = tasks (rc_state (w_core w))"
  "owner_thread (w_core (set_lifecycle l w)) = owner_thread (w_core w)"
  "rc_pid (w_core (set_lifecycle l w)) = rc_pid (w_core w)"
  "w_tasks (set_lifecycle l w) = w_tasks w" "w_log (set_lifecycle l w) = w_log w"
  "process_matches (w_core (set_lifecycle l w)) getpid = process_matches (w_core w) getpid"
  by (simp_all add: set_lifecycle_def process_matches_def)

lemma shutdown_begin_Inr:
  assumes "shutdown_begin thread getpid w = Inr (snapshot, w')"
  shows "thread = owner_thread (w_core w) \<and> process_matches (w_core w) getpid
    \<and> lifecycle (rc_state (w_core w)) \<noteq> Closed \<and> w' = set_lifecycle Closing w
    \<and> snapshot = hm_values (tasks (rc_state (w_core w)))"
  using assms
  by (auto simp: shutdown_begin_def set_lifecycle_def split: if_splits Lifecycle.splits)

text \<open>A gate after an abort request by a process that may use the runtime.\<close>

lemma request_abort_marks:
  "request_abort N (Some core) getpid (g, h) = Return (b, g', h') \<Longrightarrow> process_matches core getpid
    \<Longrightarrow> (ng_phase g' = Live \<longrightarrow> cancel_requested g') \<and> ng_phase g' = ng_phase g
      \<and> (cancel_requested g \<longrightarrow> cancel_requested g')"
  by (auto simp: request_abort_Return_iff rt_usable_def split: if_splits)

definition abort_marked :: "('f, 'a, 'p) World \<Rightarrow> TaskId \<Rightarrow> bool" where
  "abort_marked w i \<longleftrightarrow> (\<forall>c. hm_get (w_tasks w) i = Some c
    \<longrightarrow> ng_phase (rn_gate c) = Live \<longrightarrow> cancel_requested (rn_gate c))"

lemma abort_all_step:
  assumes "abort_all N getpid (i # is) w = Return w'" and "process_matches (w_core w) getpid"
  obtains u where "abort_all N getpid is u = Return w'" "w_core u = w_core w" "w_owners u = w_owners w"
    "abort_marked u i" "\<And>j. abort_marked w j \<Longrightarrow> abort_marked u j"
proof (cases "hm_get (w_tasks w) i")
  case None
  with assms show thesis by (intro that [of w]) (auto simp: abort_marked_def)
next
  case (Some c)
  with assms(1) obtain b g h
    where r: "request_abort N (Some (w_core w)) getpid (rn_gate c, w_log w) = Return (b, g, h)"
      and rest: "abort_all N getpid is (w\<lparr>w_tasks := hm_insert i (set_gate g c) (w_tasks w), w_log := h\<rparr>) = Return w'"
    by auto
  from request_abort_marks [OF r assms(2)] Some show thesis
    by (intro that [OF rest]) (auto simp: abort_marked_def)
qed

lemma abort_all_keeps:
  "abort_all N getpid is w = Return w' \<Longrightarrow> process_matches (w_core w) getpid
    \<Longrightarrow> w_core w' = w_core w \<and> w_owners w' = w_owners w
      \<and> (\<forall>j. abort_marked w j \<or> j \<in> set is \<longrightarrow> abort_marked w' j)"
proof (induction "is" arbitrary: w)
  case (Cons i "is")
  obtain u where u: "abort_all N getpid is u = Return w'" "w_core u = w_core w"
    "w_owners u = w_owners w" "abort_marked u i" "\<And>j. abort_marked w j \<Longrightarrow> abort_marked u j"
    using abort_all_step [OF Cons.prems] by metis
  with Cons.IH [of u] Cons.prems(2) show ?case by auto
qed simp

subsection \<open>An example runtime\<close>

lemma sample_nosv_types [simp]:
  "nosv_init sample_nosv h = 0" "nosv_shutdown sample_nosv h = 0"
  "nosv_type_init sample_nosv h l = (0, 4096 * of_nat (length h + 1))"
  "nosv_type_destroy sample_nosv h p = 0"
  by (simp_all add: sample_nosv_def sample_consts_def nosv_consts.defs)

text \<open>One registered live task.\<close>

definition sample_busy :: "(nat, nat, unit) World" where
  "sample_busy = (sample_world 42)\<lparr>w_core := registry_insert (TaskId 1) (w_core (sample_world 42)),
     w_tasks := [(TaskId 1, sample_runnable 0)], w_owners := [TaskId 1]\<rparr>"

text \<open>A library that refuses to destroy the type of the asynchronous tasks.\<close>

definition stubborn_nosv :: nosv where
  "stubborn_nosv = sample_nosv\<lparr>nosv_type_destroy := (\<lambda>h p. if p = 4096 then -3 else 0)\<rparr>"

section \<open>Properties\<close>

text \<open>
  C20: construction is transactional. If it fails, at whatever step, every successful initialisation
  of the library has been undone and every task type that was created has been destroyed, and
  inside a task nothing is called at all; if it succeeds, exactly one initialisation and the three
  task types are left, and the runtime is running with an empty registry.
\<close>

theorem build_is_transactional:
  assumes "\<forall>c \<in> set uring_stop. neutral_call c"
    and "runtime_build N prepared uring_stop thread pid h = (r, h')"
  shows "\<exists>calls. h' = h @ calls \<and> (ffi_current N h \<noteq> None \<longrightarrow> calls = [])
    \<and> (case r of
         Inl e \<Rightarrow> balance N h calls = (0, 0)
       | Inr rt \<Rightarrow> balance N h calls = (1, 3) \<and> lifecycle (rc_state (rt_core rt)) = Running
           \<and> tasks (rc_state (rt_core rt)) = [] \<and> dg_phase (rt_io_uring rt) = Park_Running)"
proof (cases "ffi_current N h \<noteq> None \<or> (\<exists>e. prepared = Err e)")
  case True
  with assms(2) show ?thesis by (auto simp: runtime_build_def split: if_splits)
next
  case False
  then have pre: "ffi_current N h = None" "prepared = Ok ()" by (cases prepared; auto)+
  from build_accrued [OF pre assms] obtain calls where "h' = h @ calls"
    "balance N h calls = (case r of Inl _ \<Rightarrow> (0, 0) | Inr _ \<Rightarrow> (1, 3))" by (auto simp: accrued_def)
  moreover have "dg_phase (rt_io_uring rt) = Park_Running" if "r = Ok rt" for rt
    using that assms(2) pre
    by (auto simp: runtime_build_def build_drivers_def uring_gate_start_def dest!: driver_start_Ok
        split: prod.splits sum.splits)
  moreover have "lifecycle (rc_state (rt_core rt)) = Running \<and> tasks (rc_state (rt_core rt)) = []"
    if "r = Ok rt" for rt
    using that assms(2) pre
    by (auto simp: runtime_build_def build_drivers_def new_runtime_core_def split: prod.splits sum.splits)
  ultimately show ?thesis using pre(1) by (cases r) auto
qed

theorem build_is_transactional_witness:
  "\<exists>rt h'. runtime_build sample_nosv (Ok () :: (unit, nat InitError) rust_result) [] 0 42 [] = (Ok rt, h')
    \<and> balance sample_nosv [] h' = (1, 3)"
proof -
  obtain rt h' where run: "runtime_build sample_nosv (Ok () :: (unit, nat InitError) rust_result) [] 0 42 []
      = (Ok rt, h')"
    by (simp add: runtime_build_def build_drivers_def ffi_defs uring_gate_start_def timer_start_def
        driver_start_def raw_task_from_ptr_def Let_def)
  from build_is_transactional [OF _ run] run show ?thesis by auto
qed


text \<open>
  C21: shutdown first closes the door and then asks every task to stop. Once it has begun, on the
  owner thread of the owning process, no spawn succeeds any more, and every task of the registry
  that is still live has its cancellation requested.
\<close>

theorem shutdown_cancels_registered_tasks:
  assumes "shutdown_begin thread getpid w = Inr (snapshot, w1)"
    and "abort_all N getpid snapshot w1 = Return w2"
    and "(k, i) \<in> set (tasks (rc_state (w_core w)))"
  shows "lifecycle (rc_state (w_core w2)) = Closing
    \<and> tasks (rc_state (w_core w2)) = tasks (rc_state (w_core w))
    \<and> (\<forall>c. hm_get (w_tasks w2) i = Some c \<and> ng_phase (rn_gate c) = Live \<longrightarrow> cancel_requested (rn_gate c))
    \<and> (\<forall>r w3. spawn_on N A pid config f w2 = Return (r, w3) \<longrightarrow> (\<exists>e. r = Err e) \<and> w3 = w2)"
proof -
  note bg = shutdown_begin_Inr [OF assms(1)]
  then have "process_matches (w_core w1) getpid" by simp
  note keeps = abort_all_keeps [OF assms(2) this]
  have "i \<in> set snapshot" using assms(3) bg by (force simp: hm_values_def)
  with keeps have "abort_marked w2 i" by blast
  moreover have "(\<exists>e. r = Err e) \<and> w3 = w2" if "spawn_on N A pid config f w2 = Return (r, w3)" for r w3
    using that keeps bg by (auto simp: spawn_on_def split: if_splits sum.splits)
  ultimately show ?thesis using keeps bg by (simp add: abort_marked_def)
qed

theorem shutdown_cancels_registered_tasks_witness:
  "\<exists>w1 w2. shutdown_begin 0 42 sample_busy = Inr ([TaskId 1], w1)
    \<and> abort_all sample_nosv 42 [TaskId 1] w1 = Return w2
    \<and> lifecycle (rc_state (w_core w2)) = Closing"
proof -
  obtain w1 where b: "shutdown_begin 0 42 sample_busy = Inr ([TaskId 1], w1)"
    and w1: "w_tasks w1 = [(TaskId 1, sample_runnable 0)]" "process_matches (w_core w1) 42"
    by (simp add: shutdown_begin_def sample_busy_def sample_world_def new_runtime_core_def
        process_matches_def registry_insert_def hm_insert_def hm_remove_def hm_values_def
        set_lifecycle_def)
  have "\<exists>w2. abort_all sample_nosv 42 [TaskId 1] w1 = Return w2"
    using w1 by (simp add: request_abort_def sample_runnable_def)
  then obtain w2 where a: "abort_all sample_nosv 42 [TaskId 1] w1 = Return w2" by blast
  have reg: "(TaskId 1, TaskId 1) \<in> set (tasks (rc_state (w_core sample_busy)))"
    by (simp add: sample_busy_def hm_insert_def)
  from shutdown_cancels_registered_tasks [OF b a reg] a b show ?thesis by blast
qed



text \<open>
  Shutting down is not idempotent after a native failure: when destroying the tasks' type fails,
  \<open>shutdown\<close> reports the error and the drop of the runtime then runs the whole teardown again,
  destroying the ring's and the timer's type a second time.
\<close>

theorem failed_shutdown_destroys_types_twice:
  "\<exists>w'. runtime_shutdown stubborn_nosv (RawTaskType 12288) [] [] (\<lambda>w. w) 0 42
      (sample_world 42 :: (nat, nat, unit) World) = Some (Return (Err (ShutdownNative InvalidOperation), w'))
    \<and> w_log w' = [CTypeDestroy 12288, CTypeDestroy 8192, CTypeDestroy 4096,
        CTypeDestroy 12288, CTypeDestroy 8192, CTypeDestroy 4096]"
proof -
  have codes: "from_code stubborn_nosv (-3) = Err InvalidOperation" "from_code stubborn_nosv 0 = Ok ()"
    by (simp_all add: from_code_def stubborn_nosv_def sample_nosv_def sample_consts_def nosv_consts.defs)
  have destroy: "nosv_type_destroy stubborn_nosv h p = (if p = 4096 then -3 else 0)" for h p
    by (simp add: stubborn_nosv_def)
  show ?thesis
    by (simp add: runtime_shutdown_def runtime_drop_def shutdown_inner_def shutdown_begin_def
        sample_world_def new_runtime_core_def process_matches_def hm_values_def set_lifecycle_def
        shutdown_finish_def ffi_type_destroy_def codes destroy Let_def)
qed

end
