(* ===== verification/Teardown.thy ===== *)
theory Teardown
  imports Uring_Life Runtime_Lifecycle
begin

text \<open>
  The teardown at the end of \<open>shutdown_inner\<close> in \<open>src/runtime.rs\<close> with its two drivers: \<open>shutdown_and_wait\<close>
  of \<open>src/io_uring.rs\<close> and of \<open>src/time.rs\<close> as the request, the rest of the driver's loop and the
  completion callback. \<open>Runtime_Lifecycle\<close> takes the native calls of a stopping driver as a list; here
  they are those that the loops of the drivers make.
\<close>

section \<open>Stopping a driver\<close>

text \<open>The owner waits until the completion callback has run; \<open>None\<close> when the loop does not end within its fuel.\<close>

definition stop_driver ::
  "string \<Rightarrow> 'w exec \<Rightarrow> ('w \<Rightarrow> 'w exec option) \<Rightarrow> ('w \<Rightarrow> 'r exec) \<Rightarrow> 'r exec option" where
  "stop_driver panicked request run completed =
    (case request of
       Panic m \<Rightarrow> Some (Panic m)
     | Abort m \<Rightarrow> Some (Abort m)
     | Return w \<Rightarrow>
         (case run w of
            None \<Rightarrow> None
          | Some (Panic m) \<Rightarrow> Some (Abort panicked)
          | Some (Abort m) \<Rightarrow> Some (Abort m)
          | Some (Return w) \<Rightarrow> Some (completed w)))"

definition uring_shutdown_and_wait ::
  "('q, 's, 'x, 'u, 'w, 'r) uring_env \<Rightarrow> (nat \<Rightarrow> bool)
    \<Rightarrow> (nat \<Rightarrow> (nat \<Rightarrow> bool) \<times> (('x, 'w, 'q, 'u, 'r) UringWorld \<Rightarrow> ('x, 'w, 'q, 'u, 'r) UringWorld exec)
         \<times> (('x, 'w, 'q, 'u, 'r) UringWorld \<Rightarrow> ('x, 'w, 'q, 'u, 'r) UringWorld exec)
         \<times> (('x, 'w, 'q, 'u, 'r) UringWorld \<Rightarrow> ('x, 'w, 'q, 'u, 'r) UringWorld exec))
    \<Rightarrow> nat \<Rightarrow> nosv_ptr \<Rightarrow> driver_owners \<Rightarrow> ('x, 'w, 'q, 'u, 'r) UringWorld
    \<Rightarrow> (driver_owners \<times> ('x, 'w, 'q, 'u, 'r) UringWorld) exec option" where
  "uring_shutdown_and_wait E live env fuel p own w =
    stop_driver ''panic in io_uring driver callback'' (uring_request_shutdown E live w) (uring_run E env fuel)
      (uring_completed_callback E p own)"

definition timer_shutdown_and_wait ::
  "'z nosv_scheme \<Rightarrow> (nat \<Rightarrow> nat \<times> timer_req list \<times> timer_req list \<times> timer_req list) \<Rightarrow> nat \<Rightarrow> nosv_ptr
    \<Rightarrow> driver_owners \<Rightarrow> TimerWorld \<Rightarrow> (driver_owners \<times> TimerWorld) exec option" where
  "timer_shutdown_and_wait N env fuel p own w =
    stop_driver ''panic in timer run callback'' (timer_request_shutdown N w) (timer_run N env fuel)
      (timer_completed_callback N p own)"

section \<open>The native calls of a driver\<close>

text \<open>Calls that leave types, library and other descriptors alone.\<close>

definition driver_calls :: "nosv_ptr \<Rightarrow> nlog \<Rightarrow> nlog \<Rightarrow> bool" where
  "driver_calls p h h' \<longleftrightarrow> (\<exists>cs. h' = h @ cs \<and> (\<forall>c \<in> set cs. neutral_call c \<and> (\<forall>q. c = CDestroy q \<longrightarrow> q = p)))"

lemma driver_calls_refl [simp]: "driver_calls p h h"
  by (simp add: driver_calls_def)

lemma driver_calls_trans: "driver_calls p a b \<Longrightarrow> driver_calls p b c \<Longrightarrow> driver_calls p a c"
  unfolding driver_calls_def by fastforce

lemma driver_calls_one: "neutral_call c \<Longrightarrow> (\<And>q. c = CDestroy q \<Longrightarrow> q = p) \<Longrightarrow> driver_calls p h (h @ [c])"
  by (simp add: driver_calls_def)

lemma driver_calls_destroys: "driver_calls p h h' \<Longrightarrow> q \<noteq> p \<Longrightarrow> destroys q h' = destroys q h"
proof -
  assume "driver_calls p h h'" "q \<noteq> p"
  then obtain cs where cs: "h' = h @ cs" "\<forall>c \<in> set cs. \<not> is_destroy_of q c"
    by (fastforce simp: driver_calls_def is_destroy_of_def split: native_call.splits)
  from cs(2) have "destroys q cs = 0" by (induction cs) auto
  with cs(1) show ?thesis by simp
qed

lemma driver_notify_calls: "driver_notify N m r (g, h) = Return (g', h') \<Longrightarrow> driver_calls p h h'"
  by (auto simp: driver_notify_def Let_def ffi_defs neutral_call_def intro!: driver_calls_one
      split: DriverPark.splits option.splits sum.splits)

lemma driver_park_calls: "driver_park N f mode h = Return h' \<Longrightarrow> driver_calls p h h'"
  by (cases mode) (auto simp: driver_park_def ffi_defs Let_def neutral_call_def intro!: driver_calls_one split: sum.splits)

subsection \<open>The timer driver\<close>

lemma tw_notify_calls: "tw_gate_step (timer_notify N) w = Return w' \<Longrightarrow> driver_calls p (tw_log w) (tw_log w')"
  by (auto simp: tw_gate_step_def timer_notify_def dest: driver_notify_calls)

lemma timer_request_calls: "timer_request N r w = Return w' \<Longrightarrow> driver_calls p (tw_log w) (tw_log w')"
  by (cases r) (auto simp: timer_register_def timer_request_shutdown_def sleep_drop_def Let_def
      dest!: tw_notify_calls split: if_splits)

lemma timer_requests_calls: "timer_requests N rs w = Return w' \<Longrightarrow> driver_calls p (tw_log w) (tw_log w')"
  by (induction rs arbitrary: w) (auto dest: timer_request_calls intro: driver_calls_trans)

lemma timer_iteration_calls:
  assumes "timer_iteration N now during before parked w = Return (go, w')"
  shows "driver_calls p (tw_log w) (tw_log w')"
proof -
  obtain wait wakes w0 where pass: "timer_data_pass now w = (wait, wakes, w0)" by (cases "timer_data_pass now w")
  note frame = timer_data_pass_frame [OF pass]
  from assms pass obtain w2 where w2: "timer_requests N during (w0\<lparr>tw_woken := tw_woken w0 @ wakes\<rparr>) = Return w2"
    by (auto simp: timer_iteration_def Let_def)
  have c2: "driver_calls p (tw_log w) (tw_log w2)" using timer_requests_calls [OF w2] frame by simp
  show ?thesis
  proof (cases "td_shutdown (tw_driver w2)")
    case True
    with assms pass w2 c2 show ?thesis by (auto simp: timer_iteration_def Let_def)
  next
    case False
    with assms pass w2 obtain w3 where w3: "timer_requests N before w2 = Return w3"
      by (auto simp: timer_iteration_def Let_def case_prod_beta)
    have c3: "driver_calls p (tw_log w) (tw_log w3)" using driver_calls_trans [OF c2 timer_requests_calls [OF w3]] .
    let ?mode = "case wait of Some d \<Rightarrow> ParkWait d | None \<Rightarrow> ParkPause"
    obtain should g where arm: "driver_arm ?mode (td_gate (tw_driver w3)) = (should, g)" by (rule prod.exhaust)
    show ?thesis
    proof (cases should)
      case no: False
      with assms pass w2 w3 False arm c3 show ?thesis by (auto simp: timer_iteration_def Let_def)
    next
      case yes: True
      let ?w4 = "w3\<lparr>tw_driver := (tw_driver w3)\<lparr>td_gate := g\<rparr>\<rparr>"
      from assms pass w2 w3 False arm yes obtain h w5
        where h: "driver_park N ''timer driver could not park'' ?mode (tw_log w3) = Return h"
          and w5: "timer_requests N parked (?w4\<lparr>tw_log := h\<rparr>) = Return w5" and log: "tw_log w' = tw_log w5"
        by (auto simp: timer_iteration_def Let_def)
      have "driver_calls p h (tw_log w5)" using timer_requests_calls [OF w5] by simp
      with driver_calls_trans [OF c3 driver_park_calls [OF h]] log show ?thesis by (auto intro: driver_calls_trans)
    qed
  qed
qed

lemma timer_run_calls: "timer_run N env fuel w = Some (Return w') \<Longrightarrow> driver_calls p (tw_log w) (tw_log w')"
proof (induction fuel arbitrary: w)
  case (Suc fuel)
  obtain now during before parked where e: "env fuel = (now, during, before, parked)" by (metis prod.exhaust)
  with Suc.prems obtain go w1 where i: "timer_iteration N now during before parked w = Return (go, w1)"
    by (auto split: exec.splits)
  note c = timer_iteration_calls [OF i, of p]
  show ?case
  proof (cases go)
    case True
    with Suc.prems e i Suc.IH [of w1] c show ?thesis by (auto intro: driver_calls_trans)
  next
    case False
    with Suc.prems e i c show ?thesis by simp
  qed
qed simp

subsection \<open>The ring driver\<close>

abbreviation uring_calls :: "nosv_ptr \<Rightarrow> ('x, 'w, 'q, 'u, 'r) UringWorld \<Rightarrow> ('x, 'w, 'q, 'u, 'r) UringWorld \<Rightarrow> bool" where
  "uring_calls p w w' \<equiv> driver_calls p (uw_log w) (uw_log w')"

lemma driver_notify_world_calls: "driver_notify_world E w = Return w' \<Longrightarrow> uring_calls p w w'"
  by (auto simp: driver_notify_world_def uring_notify_def dest: driver_notify_calls)

lemma cancel_submissions_calls: "cancel_submissions E delivery ss w = Return w' \<Longrightarrow> uring_calls p w w'"
proof (induction ss arbitrary: w)
  case (Cons s ss)
  then obtain d w1 where n: "driver_notify_world E (w\<lparr>uw_data := d\<rparr>) = Return w1" and r: "cancel_submissions E delivery ss w1 = Return w'"
    by (auto simp: cancel_submission_def)
  have "uring_calls p w w1" using driver_notify_world_calls [OF n] by simp
  then show ?case using Cons.IH [OF r] by (rule driver_calls_trans)
qed simp

lemma cancel_all_owned_calls: "cancel_all_owned E cs w = Return w' \<Longrightarrow> uring_calls p w w'"
proof (induction cs arbitrary: w)
  case (Cons c cs)
  then obtain w1 where n: "driver_notify_world E (w\<lparr>uw_data := request_owned_cancel c (uw_data w)\<rparr>) = Return w1"
    and r: "cancel_all_owned E cs w1 = Return w'" by (auto simp: cancel_owned_def)
  have "uring_calls p w w1" using driver_notify_world_calls [OF n] by simp
  then show ?case using Cons.IH [OF r] by (rule driver_calls_trans)
qed simp

lemma uring_request_shutdown_calls:
  assumes "uring_request_shutdown E live w = Return w'"
  shows "uring_calls p w w'"
proof -
  let ?d = "(uw_data w)\<lparr>dd_accepting := False, dd_shutdown := True\<rparr>"
  from assms obtain w1 w2
    where 1: "cancel_submissions E DeliveryDetached (filter live (dd_submissions ?d)) (w\<lparr>uw_admission := False, uw_data := ?d\<rparr>) = Return w1"
      and 2: "cancel_all_owned E (owned_in_flight ?d) w1 = Return w2" and 3: "driver_notify_world E w2 = Return w'"
    by (auto simp: uring_request_shutdown_def Let_def)
  have "uring_calls p w w1" using cancel_submissions_calls [OF 1] by simp
  from driver_calls_trans [OF driver_calls_trans [OF this cancel_all_owned_calls [OF 2]] driver_notify_world_calls [OF 3]]
  show ?thesis .
qed

lemma dispatch_all_log: "dispatch_all E cqes overflow wakes w = Return (overflow', wakes', w') \<Longrightarrow> uw_log w' = uw_log w"
proof (induction cqes arbitrary: overflow wakes w)
  case (Cons cqe cqes)
  then obtain o' wakes1 w1 where d: "dispatch E cqe wakes w = Return (o', wakes1, w1)"
    and r: "uw_log w' = uw_log w1" by auto
  from d have "uw_log w1 = uw_log w" by (auto simp: dispatch_def split: if_splits)
  with r show ?case by simp
qed simp

lemma driver_pass_calls:
  assumes "driver_pass E live w = Return (wakes, backlog, w')"
  shows "uring_calls p w w'"
proof -
  from assms obtain failed wakes1 w1 where 1: "stage_section E live w = Return (failed, wakes1, w1)"
    by (auto simp: driver_pass_def)
  obtain wakes2 w2 where 2: "fail_section E failed wakes1 w1 = (wakes2, w2)" by (rule prod.exhaust)
  from assms 1 2 obtain cqes w3 overflow w4 where 3: "reap_section E w2 = Return (cqes, backlog, w3)"
      and 4: "dispatch_all E cqes [] wakes2 w3 = Return (overflow, wakes, w4)"
      and 5: "cancel_submissions E DeliveryOverflow overflow w4 = Return w'"
    by (auto simp: driver_pass_def)
  have "uw_log w1 = uw_log w" using 1 by (auto simp: stage_section_def Let_def case_prod_beta split: option.splits)
  moreover have "uw_log w2 = uw_log w1" using 2 by (auto simp: fail_section_def split: prod.splits)
  moreover have "uw_log w3 = uw_log w2" using 3 by (auto simp: reap_section_def split: option.splits prod.splits)
  ultimately show ?thesis using dispatch_all_log [OF 4] cancel_submissions_calls [OF 5, of p] by simp
qed

text \<open>What other threads do between the sections of the loop makes no other calls either.\<close>

definition makes_calls ::
  "nosv_ptr \<Rightarrow> (('x, 'w, 'q, 'u, 'r) UringWorld \<Rightarrow> ('x, 'w, 'q, 'u, 'r) UringWorld exec) \<Rightarrow> bool" where
  "makes_calls p f \<longleftrightarrow> (\<forall>w w'. f w = Return w' \<longrightarrow> uring_calls p w w')"

lemma makes_callsD: "makes_calls p f \<Longrightarrow> f w = Return w' \<Longrightarrow> uring_calls p w w'"
  by (simp add: makes_calls_def)

lemma makes_calls_simple: "makes_calls p Return" "makes_calls p (driver_notify_world E)"
  by (auto simp: makes_calls_def intro: driver_notify_world_calls)

lemma wake_batch_calls:
  assumes "makes_calls p during" "wake_batch E wakes during w = Return w'"
  shows "uring_calls p w w'"
proof (cases "wakes = []")
  case True
  with assms show ?thesis by (auto simp: wake_batch_def intro: makes_callsD)
next
  case False
  with assms(2) obtain w1 where 1: "during (w\<lparr>uw_log := uw_log w @ [CSetWindow (word_of_nat (length wakes))]\<rparr>) = Return w1"
    and w': "uw_log w' = uw_log w1 @ [CFlushWindow]"
    by (auto simp: wake_batch_def ffi_set_submit_window_size_def ffi_flush_submit_window_def split: sum.splits)
      (metis old.unit.exhaust sum.exhaust)
  have "driver_calls p (uw_log w) (uw_log w @ [CSetWindow (word_of_nat (length wakes))])"
    "driver_calls p (uw_log w1) (uw_log w')"
    unfolding w' by (rule driver_calls_one; simp add: neutral_call_def)+
  with makes_callsD [OF assms(1) 1] show ?thesis by (auto intro: driver_calls_trans)
qed

lemma uring_iteration_calls:
  assumes f: "makes_calls p during" "makes_calls p before" "makes_calls p parked"
    and run: "uring_iteration E live during before parked w = Return (go, w')"
  shows "uring_calls p w w'"
proof -
  from run obtain wakes backlog w1 w2 where 1: "driver_pass E live w = Return (wakes, backlog, w1)"
    and 2: "wake_batch E wakes during w1 = Return w2" by (auto simp: uring_iteration_def)
  have c2: "uring_calls p w w2" using driver_calls_trans [OF driver_pass_calls [OF 1] wake_batch_calls [OF f(1) 2]] .
  let ?decision = "decide (uw_data w2) backlog (ubq_is_empty (ue_queue E) (uw_queue w2))"
  show ?thesis
  proof (cases "?decision = RunStop")
    case True
    with run 1 2 c2 show ?thesis by (auto simp: uring_iteration_def Let_def)
  next
    case False
    with run 1 2 obtain w3 where 3: "before w2 = Return w3" by (auto simp: uring_iteration_def Let_def case_prod_beta)
    have c3: "uring_calls p w w3" using driver_calls_trans [OF c2 makes_callsD [OF f(2) 3]] .
    let ?mode = "decision_mode (ue_config E) ?decision"
    obtain should g where arm: "driver_arm ?mode (uw_gate w3) = (should, g)" by (rule prod.exhaust)
    show ?thesis
    proof (cases should)
      case no: False
      with run 1 2 False 3 arm c3 show ?thesis by (auto simp: uring_iteration_def Let_def)
    next
      case yes: True
      with run 1 2 False 3 arm obtain h w5
        where h: "driver_park (ue_nosv E) ''driver could not yield or park'' ?mode (uw_log w3) = Return h"
          and 5: "parked (w3\<lparr>uw_gate := g, uw_log := h\<rparr>) = Return w5" and log: "uw_log w' = uw_log w5"
        by (auto simp: uring_iteration_def Let_def)
      have "driver_calls p h (uw_log w5)" using makes_callsD [OF f(3) 5] by simp
      with driver_calls_trans [OF c3 driver_park_calls [OF h]] log show ?thesis by (auto intro: driver_calls_trans)
    qed
  qed
qed

definition env_calls ::
  "nosv_ptr \<Rightarrow> (nat \<Rightarrow> (nat \<Rightarrow> bool) \<times> (('x, 'w, 'q, 'u, 'r) UringWorld \<Rightarrow> ('x, 'w, 'q, 'u, 'r) UringWorld exec)
         \<times> (('x, 'w, 'q, 'u, 'r) UringWorld \<Rightarrow> ('x, 'w, 'q, 'u, 'r) UringWorld exec)
         \<times> (('x, 'w, 'q, 'u, 'r) UringWorld \<Rightarrow> ('x, 'w, 'q, 'u, 'r) UringWorld exec)) \<Rightarrow> bool" where
  "env_calls p env \<longleftrightarrow> (\<forall>n. case env n of (live, during, before, parked) \<Rightarrow>
     makes_calls p during \<and> makes_calls p before \<and> makes_calls p parked)"

lemma uring_run_calls:
  assumes "env_calls p env"
  shows "uring_run E env fuel w = Some (Return w') \<Longrightarrow> uring_calls p w w'"
proof (induction fuel arbitrary: w)
  case (Suc fuel)
  obtain live during before parked where e: "env fuel = (live, during, before, parked)" by (metis prod.exhaust)
  with assms have f: "makes_calls p during" "makes_calls p before" "makes_calls p parked"
    by (auto simp: env_calls_def dest: spec [of _ fuel])
  from Suc.prems e obtain go w1 where i: "uring_iteration E live during before parked w = Return (go, w1)"
    by (auto split: exec.splits)
  note c = uring_iteration_calls [OF f i]
  show ?case
  proof (cases go)
    case True
    with Suc.prems e i Suc.IH [of w1] c show ?thesis by (auto intro: driver_calls_trans)
  next
    case False
    with Suc.prems e i c show ?thesis by simp
  qed
qed simp

subsection \<open>The completion callbacks\<close>

lemma timer_completed_calls:
  "owner_installed N p i own \<Longrightarrow> timer_ended p w \<Longrightarrow> timer_completed_callback N p own w = Return (own', w')
    \<Longrightarrow> driver_calls p (tw_log w) (tw_log w')"
  by (auto simp: timer_completed_callback_def callback_entry_installed timer_retire_def tw_gate_step_def
      timer_gate_retire_def driver_retire_Return_iff timer_ended_def ffi_destroy_log driver_calls_def neutral_call_def)

lemma uring_completed_calls:
  "owner_installed (ue_nosv E) p i own \<Longrightarrow> uring_ended p w \<Longrightarrow> uring_completed_callback E p own w = Return (own', w')
    \<Longrightarrow> uring_calls p w w'"
  by (auto simp: uring_completed_callback_def callback_entry_installed uring_retire_def uring_gate_retire_def
      driver_retire_Return_iff uring_ended_def ffi_destroy_log driver_calls_def neutral_call_def)

section \<open>Both drivers stop\<close>

lemma timer_stops:
  assumes "driver_contract N p" "park_contract N" "owner_installed N p i own"
    and "driver_open p w" "destroys p (tw_log w) = 0" "0 < fuel"
  shows "timer_shutdown_and_wait N env fuel p own w = Some (Abort ''timer identifier exhausted'')
    \<or> (\<exists>own' w'. timer_shutdown_and_wait N env fuel p own w = Some (Return (own', w')) \<and> td_completed (tw_driver w')
        \<and> destroys p (tw_log w') = 1 \<and> driver_calls p (tw_log w) (tw_log w'))"
proof -
  let ?w = "w\<lparr>tw_driver := (tw_driver w)\<lparr>td_shutdown := True\<rparr>\<rparr>"
  have o: "driver_open p ?w" "destroys p (tw_log ?w) = 0" using assms(4,5) by (simp_all add: driver_open_def)
  from tw_notify_returns [OF assms(1) o] obtain w0 where w0: "tw_gate_step (timer_notify N) ?w = Return w0" by blast
  from tw_notify_open [OF o(1) w0] o(2) have o0: "driver_open p w0" "\<not> driver_parked w0" "destroys p (tw_log w0) = 0"
    and sd: "td_shutdown (tw_driver w0)" by simp_all
  have request: "timer_request_shutdown N w = Return w0" using w0 by (simp add: timer_request_shutdown_def)
  have c0: "driver_calls p (tw_log w) (tw_log w0)" using tw_notify_calls [OF w0] by simp
  from timer_run_outcome [OF assms(1,2) o0, of fuel env] sd assms(6) obtain x
    where x: "timer_run N env fuel w0 = Some x" "exhausted x \<or> (\<exists>w'. x = Return w')" by blast
  from x(2) show ?thesis
  proof
    assume "exhausted x"
    with x(1) request show ?thesis by (simp add: timer_shutdown_and_wait_def stop_driver_def stops_with_def)
  next
    assume "\<exists>w'. x = Return w'"
    then obtain w1 where w1: "timer_run N env fuel w0 = Some (Return w1)" using x(1) by blast
    from timer_run_keeps [OF o0(1,2) w1] o0(3) have e: "timer_ended p w1" "destroys p (tw_log w1) = 0" by simp_all
    from timer_completed_after_end [OF assms(1,3) e] obtain own' w2
      where fin: "timer_completed_callback N p own w1 = Return (own', w2)" "td_completed (tw_driver w2)" "destroys p (tw_log w2) = 1"
      by blast
    from driver_calls_trans [OF driver_calls_trans [OF c0 timer_run_calls [OF w1]] timer_completed_calls [OF assms(3) e(1) fin(1)]]
    show ?thesis using request w1 fin by (simp add: timer_shutdown_and_wait_def stop_driver_def)
  qed
qed

text \<open>nOS-V promises that a type none of whose tasks is left can be destroyed, and then the library shut down.\<close>

definition teardown_contract :: "'z nosv_scheme \<Rightarrow> bool" where
  "teardown_contract N \<longleftrightarrow> (\<forall>h. from_code N (nosv_shutdown N h) = Ok () \<and> (\<forall>t. from_code N (nosv_type_destroy N h t) = Ok ()))"

lemma shutdown_finish_Ok:
  "teardown_contract N \<Longrightarrow> \<exists>w'. shutdown_finish N io_type uring_stop timer_stop w = (Ok (), w')
    \<and> lifecycle (rc_state (w_core w')) = Closed
    \<and> w_log w' = w_log w @ uring_stop @ [CTypeDestroy (raw_type_as_ptr io_type)] @ timer_stop
        @ [CTypeDestroy (raw_type_as_ptr (timer_type (w_core w))), CTypeDestroy (raw_type_as_ptr (task_type (w_core w))), CShutdown]"
  by (simp add: shutdown_finish_def ffi_type_destroy_def ffi_shutdown_def teardown_contract_def set_lifecycle_def)

lemma uring_stops:
  assumes "alloc_ok (ue_ring E)" "prompt_ring (ue_ring E) cap sq flight" "ubq_fifo (ue_queue E) \<alpha>"
    and "0 < unat (cf_entries (ue_config E))" "0 < cf_reap_size (ue_config E)"
    and "run_contract (ue_nosv E)" "driver_contract (ue_nosv E) p" "owner_installed (ue_nosv E) p i own"
    and "driver_inv (uw_data w)" "uring_open p w"
    and "uw_ring w = Some q" "ring_agrees sq flight (uw_data w) q" "quiet_env sq flight \<alpha> p env" "env_calls p env"
  shows "\<exists>w0. uring_request_shutdown E live w = Return w0 \<and> (\<forall>fuel > world_load \<alpha> w0.
    uring_shutdown_and_wait E live env fuel p own w = Some (Abort ''memory allocation failed'')
    \<or> (\<exists>own' w'. uring_shutdown_and_wait E live env fuel p own w = Some (Return (own', w')) \<and> uw_completed w'
        \<and> destroys p (uw_log w') = 1 \<and> uring_calls p w w'))"
proof -
  from uring_shutdown_life [OF assms(1-13), where live = live] obtain w0 where request: "uring_request_shutdown E live w = Return w0"
    and run: "\<And>fuel. world_load \<alpha> w0 < fuel \<Longrightarrow> uring_run E env fuel w0 = Some (Abort ''memory allocation failed'')
      \<or> (\<exists>w1 own' w2. uring_run E env fuel w0 = Some (Return w1) \<and> uring_ended p w1
          \<and> uring_completed_callback E p own w1 = Return (own', w2) \<and> uw_completed w2 \<and> destroys p (uw_log w2) = 1)"
    by blast
  show ?thesis
  proof (intro exI [of _ w0] conjI allI impI)
    show "uring_request_shutdown E live w = Return w0" by (rule request)
  next
    fix fuel
    assume "world_load \<alpha> w0 < fuel"
    from run [OF this] show "uring_shutdown_and_wait E live env fuel p own w = Some (Abort ''memory allocation failed'')
      \<or> (\<exists>own' w'. uring_shutdown_and_wait E live env fuel p own w = Some (Return (own', w')) \<and> uw_completed w'
          \<and> destroys p (uw_log w') = 1 \<and> uring_calls p w w')"
    proof
      assume "uring_run E env fuel w0 = Some (Abort ''memory allocation failed'')"
      with request show ?thesis by (simp add: uring_shutdown_and_wait_def stop_driver_def)
    next
      assume "\<exists>w1 own' w2. uring_run E env fuel w0 = Some (Return w1) \<and> uring_ended p w1
          \<and> uring_completed_callback E p own w1 = Return (own', w2) \<and> uw_completed w2 \<and> destroys p (uw_log w2) = 1"
      then obtain w1 own' w2 where w1: "uring_run E env fuel w0 = Some (Return w1)" "uring_ended p w1"
        and fin: "uring_completed_callback E p own w1 = Return (own', w2)" "uw_completed w2" "destroys p (uw_log w2) = 1" by blast
      from driver_calls_trans [OF driver_calls_trans [OF uring_request_shutdown_calls [OF request] uring_run_calls [OF assms(14) w1(1)]]
        uring_completed_calls [OF assms(8) w1(2) fin(1)]] request w1(1) fin
      show ?thesis by (simp add: uring_shutdown_and_wait_def stop_driver_def)
    qed
  qed
qed

lemma rest_of_teardown:
  assumes "run_contract N" "teardown_contract N" "driver_contract N pt" "owner_installed N pt j own2" "pt \<noteq> pu"
    and "driver_calls pu (w_log w) (uw_log u)" "destroys pu (uw_log u) = 1"
    and "gate_open pt (td_gate (tw_driver wt), [])" "destroys pt (w_log w) = 0" "0 < tfuel"
    and "wt' = wt\<lparr>tw_log := uw_log u @ [CTypeDestroy (raw_type_as_ptr io_type)]\<rparr>"
  shows "timer_shutdown_and_wait N tenv tfuel pt own2 wt' = Some (Abort ''timer identifier exhausted'')
    \<or> (\<exists>own2' v uring_stop timer_stop w'. timer_shutdown_and_wait N tenv tfuel pt own2 wt' = Some (Return (own2', v))
        \<and> td_completed (tw_driver v) \<and> destroys pt (tw_log v) = 1
        \<and> uw_log u = w_log w @ uring_stop \<and> tw_log v = tw_log wt' @ timer_stop
        \<and> shutdown_finish N io_type uring_stop timer_stop w = (Ok (), w')
        \<and> lifecycle (rc_state (w_core w')) = Closed \<and> destroys pu (w_log w') = 1 \<and> destroys pt (w_log w') = 1)"
proof (cases "timer_shutdown_and_wait N tenv tfuel pt own2 wt' = Some (Abort ''timer identifier exhausted'')")
  case False
  have o: "driver_open pt wt'" using assms(8,11) by (simp add: driver_open_def gate_open_def)
  have d: "destroys pt (tw_log wt') = 0"
    using driver_calls_destroys [OF assms(6,5)] assms(9,11) by (simp add: is_destroy_of_def)
  from False timer_stops [OF assms(3) _ assms(4) o d assms(10), of tenv] assms(1) obtain own2' v
    where v: "timer_shutdown_and_wait N tenv tfuel pt own2 wt' = Some (Return (own2', v))"
      "td_completed (tw_driver v)" "destroys pt (tw_log v) = 1" and vc: "driver_calls pt (tw_log wt') (tw_log v)"
    unfolding run_contract_def by blast
  from assms(6) vc obtain uring_stop timer_stop
    where log: "uw_log u = w_log w @ uring_stop" "tw_log v = tw_log wt' @ timer_stop" by (auto simp: driver_calls_def)
  from shutdown_finish_Ok [OF assms(2), of io_type uring_stop timer_stop w] obtain w'
    where w': "shutdown_finish N io_type uring_stop timer_stop w = (Ok (), w')" "lifecycle (rc_state (w_core w')) = Closed"
      "w_log w' = tw_log v @ [CTypeDestroy (raw_type_as_ptr (timer_type (w_core w))),
         CTypeDestroy (raw_type_as_ptr (task_type (w_core w))), CShutdown]"
    by (auto simp: log assms(11))
  have "destroys pu (tw_log v) = 1"
    using driver_calls_destroys [OF vc assms(5) [symmetric]] assms(7,11) by (simp add: is_destroy_of_def)
  with w'(3) v(3) have "destroys pu (w_log w') = 1" "destroys pt (w_log w') = 1" by (simp_all add: is_destroy_of_def)
  with v log w'(1,2) show ?thesis by blast
qed simp

section \<open>Property\<close>

text \<open>
  C23: the teardown of a drained runtime completes. Stopping the ring driver, destroying its type,
  stopping the timer driver, destroying its type and the tasks' type and shutting the library down all
  succeed, unless memory or the 64-bit timer identifiers run out; the calls the drivers make while they
  stop touch no type, not the library and no descriptor but their own. Each descriptor is destroyed
  exactly once and before the type it was created from, and the lifecycle is closed.
\<close>

theorem teardown_completes:
  assumes "alloc_ok (ue_ring E)" "prompt_ring (ue_ring E) cap sq flight" "ubq_fifo (ue_queue E) \<alpha>"
    and "0 < unat (cf_entries (ue_config E))" "0 < cf_reap_size (ue_config E)"
    and "run_contract (ue_nosv E)" "teardown_contract (ue_nosv E)" "driver_contract (ue_nosv E) pu" "driver_contract (ue_nosv E) pt"
    and "owner_installed (ue_nosv E) pu i own" "owner_installed (ue_nosv E) pt j own2" "pt \<noteq> pu"
    and "uring_init s \<alpha>" "uring_steps E s t" "uring_open pu (us_world t)"
    and "uw_ring (us_world t) = Some q" "ring_agrees sq flight (us_data t) q" "quiet_env sq flight \<alpha> pu env" "env_calls pu env"
    and "w_log w = uw_log (us_world t)" "gate_open pt (td_gate (tw_driver wt), [])" "destroys pt (w_log w) = 0" "0 < tfuel"
  shows "\<exists>w0. uring_request_shutdown E live (us_world t) = Return w0 \<and> (\<forall>fuel > world_load \<alpha> w0.
    uring_shutdown_and_wait E live env fuel pu own (us_world t) = Some (Abort ''memory allocation failed'')
    \<or> (\<exists>own' u. uring_shutdown_and_wait E live env fuel pu own (us_world t) = Some (Return (own', u))
        \<and> uw_completed u \<and> destroys pu (uw_log u) = 1
        \<and> (let wt' = wt\<lparr>tw_log := uw_log u @ [CTypeDestroy (raw_type_as_ptr io_type)]\<rparr> in
           timer_shutdown_and_wait (ue_nosv E) tenv tfuel pt own2 wt' = Some (Abort ''timer identifier exhausted'')
           \<or> (\<exists>own2' v uring_stop timer_stop w'. timer_shutdown_and_wait (ue_nosv E) tenv tfuel pt own2 wt' = Some (Return (own2', v))
               \<and> td_completed (tw_driver v) \<and> destroys pt (tw_log v) = 1
               \<and> uw_log u = w_log w @ uring_stop \<and> tw_log v = tw_log wt' @ timer_stop
               \<and> shutdown_finish (ue_nosv E) io_type uring_stop timer_stop w = (Ok (), w')
               \<and> lifecycle (rc_state (w_core w')) = Closed \<and> destroys pu (w_log w') = 1 \<and> destroys pt (w_log w') = 1))))"
proof -
  from uring_inv_steps [OF assms(1,3,14,13)] have inv: "driver_inv (us_data t)" by (simp add: uring_inv_def)
  from uring_stops [OF assms(1-6,8,10) inv assms(15-19), where live = live] obtain w0
    where request: "uring_request_shutdown E live (us_world t) = Return w0" and stop: "\<And>fuel. world_load \<alpha> w0 < fuel \<Longrightarrow>
    uring_shutdown_and_wait E live env fuel pu own (us_world t) = Some (Abort ''memory allocation failed'')
    \<or> (\<exists>own' w'. uring_shutdown_and_wait E live env fuel pu own (us_world t) = Some (Return (own', w')) \<and> uw_completed w'
        \<and> destroys pu (uw_log w') = 1 \<and> uring_calls pu (us_world t) w')" by blast
  have rest: "destroys pu (uw_log u) = 1 \<Longrightarrow> uring_calls pu (us_world t) u \<Longrightarrow> wt' = wt\<lparr>tw_log := uw_log u @ [CTypeDestroy (raw_type_as_ptr io_type)]\<rparr>
    \<Longrightarrow> timer_shutdown_and_wait (ue_nosv E) tenv tfuel pt own2 wt' = Some (Abort ''timer identifier exhausted'')
      \<or> (\<exists>own2' v uring_stop timer_stop w'. timer_shutdown_and_wait (ue_nosv E) tenv tfuel pt own2 wt' = Some (Return (own2', v))
          \<and> td_completed (tw_driver v) \<and> destroys pt (tw_log v) = 1
          \<and> uw_log u = w_log w @ uring_stop \<and> tw_log v = tw_log wt' @ timer_stop
          \<and> shutdown_finish (ue_nosv E) io_type uring_stop timer_stop w = (Ok (), w')
          \<and> lifecycle (rc_state (w_core w')) = Closed \<and> destroys pu (w_log w') = 1 \<and> destroys pt (w_log w') = 1)" for u wt'
    by (rule rest_of_teardown [OF assms(6,7,9,11,12) _ _ assms(21-23)]) (simp_all add: assms(20))
  show ?thesis
    unfolding Let_def by (intro exI [of _ w0] conjI allI impI request) (drule stop, metis (no_types, lifting) rest)
qed

text \<open>A parked timer driver beside the parked ring driver of \<open>prompt_queued\<close>.\<close>

definition parked_timer :: TimerWorld where
  "parked_timer = \<lparr>tw_driver = timer_driver_new\<lparr>td_gate := \<lparr>dg_raw = Some (RawTask 128), dg_phase = Park_Paused, dg_notified = False\<rparr>\<rparr>,
     tw_states = (\<lambda>_. timer_state_new), tw_log = [], tw_woken = []\<rparr>"

definition prompt_owners :: "nosv_ptr \<Rightarrow> driver_owners" where
  "prompt_owners p = \<lparr>ow_meta = [(p + 8, 0)], ow_strong = [0]\<rparr>"

abbreviation prompt_quiet ::
  "nat \<Rightarrow> (nat \<Rightarrow> bool) \<times> ((unit, nat, u64 list \<times> u64 list, sample_queue, i32) UringWorld \<Rightarrow> _ exec) \<times> (_ \<Rightarrow> _ exec) \<times> (_ \<Rightarrow> _ exec)" where
  "prompt_quiet \<equiv> (\<lambda>_. (\<lambda>_. True, Return, Return, Return))"

lemma prompt_owners_installed: "p \<in> {64, 128} \<Longrightarrow> owner_installed sample_nosv p 0 (prompt_owners p)"
  by (auto simp: owner_installed_def prompt_owners_def)

lemma prompt_timer_stops:
  "\<exists>x. timer_shutdown_and_wait sample_nosv (\<lambda>_. (5, [], [], [])) 1 128 (prompt_owners 128) (parked_timer\<lparr>tw_log := h\<rparr>)
    = Some (Return x)"
  by (simp add: timer_shutdown_and_wait_def stop_driver_def timer_request_shutdown_def tw_gate_step_def timer_notify_def
      driver_notify_def Let_def ffi_submit_def ffi_submit_with_def timer_iteration_def timer_data_pass_def timer_driver_new_def
      timer_completed_callback_def callback_entry_installed [OF prompt_owners_installed] timer_retire_def timer_gate_retire_def
      driver_retire_def ffi_destroy_def parked_timer_def contained_def)

lemma prompt_shutdown:
  "open_world = us_world prompt_queued \<Longrightarrow> uring_open 64 open_world
    \<and> quiet_env fst (set \<circ> snd) (\<lambda>u. u) 64 prompt_quiet \<and> env_calls 64 prompt_quiet"
  by (simp add: uring_open_def gate_open_def prompt_queued_def prompt_start_def
      quiet_env_def nothing_adds_no_work env_calls_def makes_calls_simple)

theorem teardown_completes_witness:
  "\<exists>own' u own2' v uring_stop timer_stop w'.
    uring_shutdown_and_wait prompt_env (\<lambda>_. True) prompt_quiet 2 64 (prompt_owners 64) (us_world prompt_queued) = Some (Return (own', u))
    \<and> timer_shutdown_and_wait sample_nosv (\<lambda>_. (5, [], [], [])) 1 128 (prompt_owners 128)
        (parked_timer\<lparr>tw_log := uw_log u @ [CTypeDestroy 12288]\<rparr>) = Some (Return (own2', v))
    \<and> shutdown_finish sample_nosv (RawTaskType 12288) uring_stop timer_stop (sample_world 42 :: (nat, nat, unit) World) = (Ok (), w')
    \<and> destroys 64 (w_log w') = 1 \<and> destroys 128 (w_log w') = 1"
proof -
  have sh: "uring_open 64 (us_world prompt_queued)"
    "quiet_env fst (set \<circ> snd) (\<lambda>u. u) 64 prompt_quiet" "env_calls 64 prompt_quiet"
    using prompt_shutdown [OF refl] by simp_all
  have own: "owner_installed (ue_nosv prompt_env) 64 0 (prompt_owners 64)" "owner_installed (ue_nosv prompt_env) 128 0 (prompt_owners 128)"
    by (simp_all add: prompt_owners_installed)
  have drv: "driver_contract (ue_nosv prompt_env) 64" "driver_contract (ue_nosv prompt_env) 128"
    by (simp_all add: driver_contract_sample)
  have tear: "teardown_contract (ue_nosv prompt_env)"
    by (simp add: teardown_contract_def)
  have budget: "0 < unat (cf_entries (ue_config prompt_env))" "0 < cf_reap_size (ue_config prompt_env)" by simp_all
  have log: "w_log (sample_world 42) = uw_log (us_world prompt_queued)"
    by (simp add: sample_world_def prompt_queued_def prompt_start_def)
  have gate: "gate_open 128 (td_gate (tw_driver parked_timer), [])" by (simp add: gate_open_def parked_timer_def)
  have none: "destroys 128 (w_log (sample_world 42)) = 0" by (simp add: sample_world_def)
  have load: "world_load (\<lambda>u. u) prompt_closed < 2"
    by (simp add: world_load_def data_load_def prompt_closed_def prompt_queued_def prompt_start_def driver_data_new_def
        live_raw_def unasked_def live_owned_def)
  from prompt_run obtain w1 where "uring_run prompt_env prompt_quiet 2 prompt_closed = Some (Return w1)" by blast
  then have "uring_shutdown_and_wait prompt_env (\<lambda>_. True) prompt_quiet 2 64 (prompt_owners 64) (us_world prompt_queued)
      = Some (uring_completed_callback prompt_env 64 (prompt_owners 64) w1)"
    by (simp add: uring_shutdown_and_wait_def stop_driver_def prompt_request)
  moreover have inv: "driver_inv (us_data prompt_queued)"
    using uring_inv_steps [OF prompt_laws(1,3) prompt_reached(2,1)] by (simp add: uring_inv_def)
  from uring_shutdown_life [OF prompt_laws(1-3) budget prompt_laws(4) drv(1) own(1) inv sh(1) prompt_reached(3,4) sh(2),
      where live = "\<lambda>_. True"]
    prompt_request load \<open>uring_run prompt_env prompt_quiet 2 prompt_closed = Some (Return w1)\<close>
  obtain own' u where "uring_completed_callback prompt_env 64 (prompt_owners 64) w1 = Return (own', u)" by auto
  ultimately have u: "uring_shutdown_and_wait prompt_env (\<lambda>_. True) prompt_quiet 2 64 (prompt_owners 64) (us_world prompt_queued)
      = Some (Return (own', u))" by simp
  obtain x where x: "timer_shutdown_and_wait sample_nosv (\<lambda>_. (5, [], [], [])) 1 128 (prompt_owners 128)
      (parked_timer\<lparr>tw_log := uw_log u @ [CTypeDestroy 12288]\<rparr>) = Some (Return x)" using prompt_timer_stops by blast
  have "128 \<noteq> (64 :: nosv_ptr)" "0 < (1 :: nat)" by simp_all
  note life = teardown_completes [OF prompt_laws(1-3) budget prompt_laws(4) tear drv own this(1) prompt_reached(1,2) sh(1)
    prompt_reached(3,4) sh(2) sh(3) log gate none this(2), where live = "\<lambda>_. True" and io_type = "RawTaskType 12288"
      and tenv = "\<lambda>_. (5, [], [], [])"]
  show ?thesis
    using life prompt_request load u x
    by (elim exE conjE) (drule spec [of _ "2 :: nat"], auto simp: Let_def)
qed

end
