(* ===== verification/Io_Transfer.thy ===== *)
theory Io_Transfer
  imports Io_Buffers
begin

text \<open>
  What \<open>src/fs.rs\<close> and \<open>src/net.rs\<close> share: the operations they submit, how an awaited operation
  resolves, and the loop that repeats a partial transfer until a whole buffer is done. An I/O handle
  is the driver as its clients see it: a function that gives the outcome of one submitted operation,
  over a state that stands for files and sockets. An operation that the kernel completes may have
  stored bytes at the destination of its entry. That an awaited operation gets the result of its own
  work, through the driver and in every interleaving, is shown in \<open>Uring_Results\<close> and \<open>Io_Works\<close>.
\<close>

section \<open>Operations and their outcomes\<close>

type_synonym raw_fd = i32

datatype 'a io_op =
    OpOpenAt "u8 list" i32 u32
  | OpRead raw_fd u32 u64
  | OpWrite raw_fd "u8 option list" u64
  | OpFsync raw_fd bool
  | OpConnect raw_fd 'a
  | OpRecv raw_fd u32
  | OpSend raw_fd "u8 option list" i32
  | OpPollAdd raw_fd u32

datatype op_outcome = OpFailed io_error | OpDone i32 "u8 list"

type_synonym ('a, 's) io_handle = "'a io_op \<Rightarrow> 's \<Rightarrow> op_outcome \<times> 's"

text \<open>Awaiting an \<open>OwnedOp\<close>: its work completes or fails, with what the kernel stored.\<close>

definition await_op ::
  "('a, 's) io_handle \<Rightarrow> 'a io_op \<Rightarrow> (u8 list \<Rightarrow> i32 \<Rightarrow> 'r) \<Rightarrow> (io_error \<Rightarrow> 'r) \<Rightarrow> 's \<Rightarrow> 'r \<times> 's" where
  "await_op io entry complete fail s =
    (case io entry s of (OpDone result stored, s) \<Rightarrow> (complete stored result, s) | (OpFailed e, s) \<Rightarrow> (fail e, s))"

text \<open>The outcome of a transfer that owns its buffer.\<close>

type_synonym ('r, 's) buf_result = "('r io_result \<times> io_buf) \<times> 's"

definition u32_max :: nat where
  "u32_max = 2 ^ 32 - 1"

definition oversized_buffer :: io_error where
  "oversized_buffer = IoError InvalidInput ''buffer is too large for io_uring''"

text \<open>
  Completing a transfer into a buffer, and out of one: a count within the announced length is believed,
  a larger one is an error.
\<close>

definition fill_complete :: "string \<Rightarrow> nat \<Rightarrow> nat \<Rightarrow> io_buf \<Rightarrow> i32 \<Rightarrow> nat io_result \<times> io_buf" where
  "fill_complete oversized offset remaining buf result =
    (case cqe_result result of
       Inr n \<Rightarrow> if n \<le> remaining then (Ok n, set_init (max (bytes_init buf) (offset + n)) buf)
              else (Err (IoError InvalidData oversized), buf)
     | Inl e \<Rightarrow> (Err e, buf))"

definition drain_complete :: "string \<Rightarrow> nat \<Rightarrow> io_buf \<Rightarrow> i32 \<Rightarrow> nat io_result \<times> io_buf" where
  "drain_complete oversized remaining buf result =
    (case cqe_result result of
       Inr n \<Rightarrow> if n \<le> remaining then (Ok n, buf) else (Err (IoError InvalidData oversized), buf)
     | Inl e \<Rightarrow> (Err e, buf))"

section \<open>Repeating a transfer until it is complete\<close>

text \<open>
  The loop of \<open>read_exact_at\<close>, \<open>write_all_at\<close>, \<open>recv_exact\<close> and \<open>send_all\<close>: \<open>step\<close> is the body up to
  its result, \<open>stuck\<close> the error for a step without progress.
\<close>

function exact_loop ::
  "(io_buf \<Rightarrow> nat \<Rightarrow> 's \<Rightarrow> (nat, 's) buf_result) \<Rightarrow> io_error \<Rightarrow> nat \<Rightarrow> nat \<Rightarrow> io_buf \<Rightarrow> 's \<Rightarrow> (unit, 's) buf_result" where
  "exact_loop step stuck whole moved buf s =
    (if moved < whole then
       (case step buf moved s of
          ((Inr n, buf), s) \<Rightarrow>
            if n = 0 then ((Err stuck, buf), s) else exact_loop step stuck whole (moved + n) buf s
        | ((Inl e, buf), s) \<Rightarrow> ((Err e, buf), s))
     else ((Ok (), buf), s))"
  by pat_completeness auto
termination by (relation "measure (\<lambda>(step, stuck, whole, moved, buf, s). whole - moved)") auto

declare exact_loop.simps [simp del]

lemma exact_loop_done [simp]: "whole \<le> moved \<Longrightarrow> exact_loop step stuck whole moved buf s = ((Ok (), buf), s)"
  by (simp add: exact_loop.simps)

lemma exact_loop_step:
  "moved < whole \<Longrightarrow> step buf moved s = ((Ok n, buf'), s') \<Longrightarrow> exact_loop step stuck whole moved buf s
    = (if n = 0 then ((Err stuck, buf'), s') else exact_loop step stuck whole (moved + n) buf' s')"
  "moved < whole \<Longrightarrow> step buf moved s = ((Err e, buf'), s') \<Longrightarrow> exact_loop step stuck whole moved buf s = ((Err e, buf'), s')"
  by (simp_all add: exact_loop.simps [of step stuck whole moved])

text \<open>
  What the loop relies on: a step never moves more than what is left, and keeps an invariant that knows
  how much has been moved.
\<close>

locale transfer =
  fixes step :: "io_buf \<Rightarrow> nat \<Rightarrow> 's \<Rightarrow> (nat, 's) buf_result"
    and whole :: nat
    and inv :: "nat \<Rightarrow> io_buf \<Rightarrow> 's \<Rightarrow> bool"
  assumes moves: "inv k b s \<Longrightarrow> k < whole \<Longrightarrow> step b k s = ((Ok n, b'), s') \<Longrightarrow> k + n \<le> whole \<and> inv (k + n) b' s'"
    and fails: "inv k b s \<Longrightarrow> k < whole \<Longrightarrow> step b k s = ((Err e, b'), s') \<Longrightarrow> inv k b' s'"
begin

lemma loop_keeps:
  "inv k b s \<Longrightarrow> k \<le> whole \<Longrightarrow> exact_loop step stuck whole k b s = ((r, b'), s')
    \<Longrightarrow> \<exists>k'. k \<le> k' \<and> k' \<le> whole \<and> inv k' b' s' \<and> (r = Ok () \<longleftrightarrow> k' = whole)"
proof (induction "whole - k" arbitrary: k b s rule: less_induct)
  case less
  show ?case
  proof (cases "k < whole")
    case True
    obtain x b1 s1 where st: "step b k s = ((x, b1), s1)" by (metis prod.exhaust)
    show ?thesis
    proof (cases x)
      case (Inl e)
      with less.prems True st fails [OF less.prems(1) True] show ?thesis
        by (intro exI [of _ k]) (auto simp: exact_loop_step)
    next
      case (Inr n)
      note m = moves [OF less.prems(1) True st [unfolded Inr]]
      show ?thesis
      proof (cases "n = 0")
        case True
        with less.prems \<open>k < whole\<close> st Inr m show ?thesis
          by (intro exI [of _ k]) (auto simp: exact_loop_step)
      next
        case False
        with less.prems True st Inr have "exact_loop step stuck whole (k + n) b1 s1 = ((r, b'), s')"
          by (simp add: exact_loop_step)
        moreover have "whole - (k + n) < whole - k" using False True by simp
        ultimately obtain k' where "k + n \<le> k'" "k' \<le> whole \<and> inv k' b' s' \<and> (r = Ok () \<longleftrightarrow> k' = whole)"
          using less.hyps [of "k + n" b1 s1] m by blast
        then show ?thesis by (intro exI [of _ k']) simp
      qed
    qed
  qed (use less.prems in auto)
qed

end

text \<open>A transfer that always makes progress succeeds.\<close>

locale live_transfer = transfer +
  assumes progress: "inv k b s \<Longrightarrow> k < whole \<Longrightarrow> \<exists>n b' s'. step b k s = ((Ok n, b'), s') \<and> n \<noteq> 0"
begin

lemma loop_succeeds:
  "inv k b s \<Longrightarrow> k \<le> whole \<Longrightarrow> \<exists>b' s'. exact_loop step stuck whole k b s = ((Ok (), b'), s') \<and> inv whole b' s'"
proof (induction "whole - k" arbitrary: k b s rule: less_induct)
  case less
  show ?case
  proof (cases "k < whole")
    case True
    from progress [OF less.prems(1) True] obtain n b1 s1 where st: "step b k s = ((Ok n, b1), s1)" "n \<noteq> 0" by blast
    from less.hyps [of "k + n" b1 s1] moves [OF less.prems(1) True st(1)] st True show ?thesis
      by (auto simp: exact_loop_step)
  qed (use less.prems in auto)
qed

end

text \<open>One statement about a round gives all three laws.\<close>

lemma live_transferI:
  fixes step :: "io_buf \<Rightarrow> nat \<Rightarrow> 's \<Rightarrow> (nat, 's) buf_result" and inv :: "nat \<Rightarrow> io_buf \<Rightarrow> 's \<Rightarrow> bool"
  assumes round: "\<And>k b s. inv k b s \<Longrightarrow> k < whole
    \<Longrightarrow> \<exists>n b' s'. step b k s = ((Ok n, b'), s') \<and> n \<noteq> 0 \<and> k + n \<le> whole \<and> inv (k + n) b' s'"
  shows "live_transfer step whole inv"
proof unfold_locales
  show "k + n \<le> whole \<and> inv (k + n) b' s'" if "inv k b s" "k < whole" "step b k s = ((Ok n, b'), s')" for k b s n b' s'
    using round [OF that(1,2)] that(3) by auto
  show "inv k b' s'" if "inv k b s" "k < whole" "step b k s = ((Err e, b'), s')" for k b s e b' s'
    using round [OF that(1,2)] that(3) by auto
  show "\<exists>n b' s'. step b k s = ((Ok n, b'), s') \<and> n \<noteq> 0" if "inv k b s" "k < whole" for k b s
    using round [OF that] by blast
qed

section \<open>Buffers\<close>

text \<open>What storing and publishing a prefix of an allocation does.\<close>

lemma store_bytes_simps [simp]:
  "bf_kind (store_bytes off data b) = bf_kind b" "bf_len (store_bytes off data b) = bf_len b"
  "bytes_init (set_init n b) = (case bf_kind b of VecBuf \<Rightarrow> n | SliceBuf \<Rightarrow> bytes_init b)"
  "bf_kind (set_init n b) = bf_kind b" "bf_cells (set_init n b) = bf_cells b"
  by (simp_all add: store_bytes_def set_init_def bytes_init_def split: buf_kind.split)

lemma bytes_init_store: "off + length data \<le> bytes_total b \<Longrightarrow> bytes_init (store_bytes off data b) = bytes_init b"
  using store_bytes_total [of off data b] by (simp add: bytes_init_def bytes_total_def split: buf_kind.split)

lemma nth_store_bytes:
  "off + length data \<le> bytes_total b \<Longrightarrow> i < bytes_total b \<Longrightarrow> bf_cells (store_bytes off data b) ! i
    = (if off \<le> i \<and> i < off + length data then Some (data ! (i - off)) else bf_cells b ! i)"
  by (auto simp: store_bytes_def bytes_total_def nth_append)

lemma buf_sound_iff:
  "buf_sound b \<longleftrightarrow> bytes_init b \<le> bytes_total b \<and> (\<forall>i < bytes_init b. bf_cells b ! i \<noteq> None)"
  by (auto simp: buf_sound_def bytes_total_def in_set_conv_nth)

text \<open>A kernel that stores at least what it reports leaves a sound buffer sound.\<close>

lemma fill_sound:
  assumes b: "buf_sound b" and fits: "off + length data \<le> bytes_total b" and off: "off \<le> bytes_init b" and n: "n \<le> length data"
  shows "buf_sound (set_init (max (bytes_init b) (off + n)) (store_bytes off data b))"
proof (cases "bf_kind b")
  case VecBuf
  with assms show ?thesis
    by (auto simp: buf_sound_iff nth_store_bytes store_bytes_total)
next
  case SliceBuf
  then have "bytes_init b = bytes_total b" by (simp add: bytes_init_def bytes_total_def)
  with assms SliceBuf show ?thesis
    by (auto simp: buf_sound_iff nth_store_bytes store_bytes_total bytes_init_store)
qed

lemma slice_init: "bf_kind b = SliceBuf \<Longrightarrow> bytes_init b = bytes_total b"
  by (simp add: bytes_init_def bytes_total_def)

lemma store_sound:
  "buf_sound b \<Longrightarrow> off + length data \<le> bytes_total b \<Longrightarrow> buf_sound (store_bytes off data b)"
  by (auto simp: buf_sound_iff nth_store_bytes store_bytes_total bytes_init_store)

section \<open>A kernel that fills buffers honestly\<close>

text \<open>
  What every method relies on for memory safety: a completed read has stored at least the bytes it
  counts, and nothing beyond the announced length. Counts are otherwise arbitrary.
\<close>

definition fills_honestly :: "('a, 's) io_handle \<Rightarrow> bool" where
  "fills_honestly io \<longleftrightarrow> (\<forall>entry s result data s'. io entry s = (OpDone result data, s') \<longrightarrow>
     (case entry of OpRead fd len off \<Rightarrow> length data \<le> unat len \<and> (\<not> result <s 0 \<longrightarrow> unat result \<le> unat len \<longrightarrow> unat result \<le> length data)
      | OpRecv fd len \<Rightarrow> length data \<le> unat len \<and> (\<not> result <s 0 \<longrightarrow> unat result \<le> unat len \<longrightarrow> unat result \<le> length data)
      | _ \<Rightarrow> True))"

text \<open>A buffer that the loop has filled so far: sound, of the same allocation.\<close>

definition filled_to :: "io_buf \<Rightarrow> nat \<Rightarrow> io_buf \<Rightarrow> bool" where
  "filled_to b0 k b \<longleftrightarrow> buf_sound b \<and> bytes_total b = bytes_total b0 \<and> bf_kind b = bf_kind b0 \<and> k \<le> bytes_init b"

lemma unat_u32_le: "n \<le> u32_max \<Longrightarrow> unat (word_of_nat n :: u32) = n"
  by (simp add: u32_max_def unat_of_nat)

lemma cqe_result_count:
  assumes "n < 2 ^ 31"
  shows "cqe_result (word_of_nat n) = Ok n"
proof -
  have u: "unat (word_of_nat n :: i32) = n" using assms by (simp add: unat_of_nat)
  have "\<not> bit (word_of_nat n :: i32) 31"
  proof -
    have "bit (word_of_nat n :: i32) 31 \<longleftrightarrow> bit (uint (word_of_nat n :: i32)) 31" by (simp add: bit_uint_iff)
    also have "uint (word_of_nat n :: i32) = int n" using u by (simp add: uint_nat)
    finally show ?thesis using assms by (simp add: bit_iff_odd)
  qed
  then have "\<not> (word_of_nat n :: i32) <s 0"
    by (simp add: word_sless_alt not_less bit_last_iff [where w = "word_of_nat n :: i32", simplified])
  with u show ?thesis by (simp add: cqe_result_def)
qed

lemma fill_complete_filled:
  assumes b: "filled_to b0 k b" and data: "length data \<le> bytes_total b - k"
    and honest: "\<not> r <s 0 \<Longrightarrow> unat r \<le> bytes_total b - k \<Longrightarrow> unat r \<le> length data"
    and c: "fill_complete msg k (bytes_total b - k) (store_bytes k data b) r = (x, b')"
  shows "case x of Inr n \<Rightarrow> k + n \<le> bytes_total b0 \<and> filled_to b0 (k + n) b' | Inl e \<Rightarrow> filled_to b0 k b'"
proof -
  from b have s: "buf_sound b" "bytes_total b = bytes_total b0" "bf_kind b = bf_kind b0" "k \<le> bytes_init b"
    by (auto simp: filled_to_def)
  have fits: "k + length data \<le> bytes_total b" using s data by (auto simp: buf_sound_def)
  have base: "filled_to b0 k (store_bytes k data b)"
    using store_sound [OF s(1) fits] s fits by (simp add: filled_to_def bytes_init_store store_bytes_total)
  show ?thesis
  proof (cases "\<not> r <s 0 \<and> unat r \<le> bytes_total b - k")
    case True
    then have n: "unat r \<le> length data" using honest by blast
    let ?b = "set_init (max (bytes_init b) (k + unat r)) (store_bytes k data b)"
    have "k + unat r \<le> bytes_init ?b"
      using n fits by (cases "bf_kind b") (simp_all add: bytes_init_store slice_init store_bytes_total)
    with fill_sound [OF s(1) fits s(4) n] n fits s have "filled_to b0 (k + unat r) ?b" "k + unat r \<le> bytes_total b0"
      by (auto simp: filled_to_def store_bytes_total)
    with c True fits show ?thesis by (auto simp: fill_complete_def cqe_result_def bytes_init_store)
  next
    case False
    with c base show ?thesis by (auto simp: fill_complete_def cqe_result_def split: if_splits)
  qed
qed

end
