(* ===== verification/File_Io.thy ===== *)
theory File_Io
  imports Io_Transfer
begin

unbundle bit_operations_syntax

text \<open>
  Positional file I/O, \<open>src/fs.rs\<close>: open options with their flags, the works of an open, a read, a write
  and a synchronisation, and the methods of \<open>File\<close>. Every method takes the handle that the code keeps in
  the file. The second half states what the methods do for a kernel that keeps the contents of one
  file: a whole write is visible to a whole read.
\<close>

section \<open>Open options\<close>

record libc_open =
  O_RDONLY :: i32
  O_WRONLY :: i32
  O_RDWR :: i32
  O_ACCMODE :: i32
  O_CLOEXEC :: i32
  O_APPEND :: i32
  O_TRUNC :: i32
  O_CREAT :: i32
  O_EXCL :: i32

record OpenOptions =
  fo_read :: bool
  fo_write :: bool
  fo_append :: bool
  fo_truncate :: bool
  fo_create :: bool
  fo_create_new :: bool
  fo_mode :: u32
  fo_custom_flags :: i32

definition open_options_new :: OpenOptions where
  "open_options_new = \<lparr>fo_read = False, fo_write = False, fo_append = False, fo_truncate = False,
     fo_create = False, fo_create_new = False, fo_mode = 438, fo_custom_flags = 0\<rparr>"

definition options_read :: "bool \<Rightarrow> OpenOptions \<Rightarrow> OpenOptions" where
  "options_read v opts = opts\<lparr>fo_read := v\<rparr>"

definition options_write :: "bool \<Rightarrow> OpenOptions \<Rightarrow> OpenOptions" where
  "options_write v opts = opts\<lparr>fo_write := v\<rparr>"

definition options_append :: "bool \<Rightarrow> OpenOptions \<Rightarrow> OpenOptions" where
  "options_append v opts = opts\<lparr>fo_append := v\<rparr>"

definition options_truncate :: "bool \<Rightarrow> OpenOptions \<Rightarrow> OpenOptions" where
  "options_truncate v opts = opts\<lparr>fo_truncate := v\<rparr>"

definition options_create :: "bool \<Rightarrow> OpenOptions \<Rightarrow> OpenOptions" where
  "options_create v opts = opts\<lparr>fo_create := v\<rparr>"

definition options_create_new :: "bool \<Rightarrow> OpenOptions \<Rightarrow> OpenOptions" where
  "options_create_new v opts = opts\<lparr>fo_create_new := v\<rparr>"

definition options_mode :: "u32 \<Rightarrow> OpenOptions \<Rightarrow> OpenOptions" where
  "options_mode v opts = opts\<lparr>fo_mode := v\<rparr>"

definition options_custom_flags :: "i32 \<Rightarrow> OpenOptions \<Rightarrow> OpenOptions" where
  "options_custom_flags v opts = opts\<lparr>fo_custom_flags := v\<rparr>"

definition open_flags :: "'z libc_open_scheme \<Rightarrow> OpenOptions \<Rightarrow> (i32 \<times> u32) io_result" where
  "open_flags C opts =
    (if \<not> fo_read opts \<and> \<not> fo_write opts \<and> \<not> fo_append opts then
       Err (IoError InvalidInput ''an access mode is required'')
     else if (fo_truncate opts \<or> fo_create opts \<or> fo_create_new opts) \<and> \<not> fo_write opts \<and> \<not> fo_append opts then
       Err (IoError InvalidInput ''truncate and create options require write or append access'')
     else
       let access = (if fo_read opts then (if fo_write opts \<or> fo_append opts then O_RDWR C else O_RDONLY C)
                     else O_WRONLY C);
           flags = access OR O_CLOEXEC C;
           flags = (if fo_append opts then flags OR O_APPEND C else flags);
           flags = (if fo_truncate opts \<and> \<not> fo_create_new opts then flags OR O_TRUNC C else flags);
           flags = (if fo_create opts \<or> fo_create_new opts then flags OR O_CREAT C else flags);
           flags = (if fo_create_new opts then flags OR O_EXCL C else flags);
           flags = flags OR (fo_custom_flags opts AND NOT (O_ACCMODE C))
       in Ok (flags, fo_mode opts))"

section \<open>Works\<close>

text \<open>\<open>OpenWork\<close>: the descriptor is the completion's result; and \<open>SyncWork\<close>.\<close>

definition open_complete :: "i32 \<Rightarrow> raw_fd io_result" where
  "open_complete result = (if result <s 0 then Err (OsError (- result)) else Ok result)"

definition open_work :: "('a, 's) io_handle \<Rightarrow> u8 list \<Rightarrow> i32 \<Rightarrow> u32 \<Rightarrow> 's \<Rightarrow> raw_fd io_result \<times> 's" where
  "open_work io path flags mode = await_op io (OpOpenAt path flags mode) (\<lambda>_. open_complete) Inl"

definition sync_work :: "('a, 's) io_handle \<Rightarrow> raw_fd \<Rightarrow> bool \<Rightarrow> 's \<Rightarrow> unit io_result \<times> 's" where
  "sync_work io fd data_only =
    await_op io (OpFsync fd data_only) (\<lambda>_ result. map_sum id (\<lambda>_. ()) (cqe_result result)) Inl"

record ReadWork =
  rw_fd :: raw_fd
  rw_buf :: io_buf
  rw_file_offset :: u64
  rw_buffer_offset :: nat
  rw_remaining :: nat

definition read_entry :: "ReadWork \<Rightarrow> 'a io_op" where
  "read_entry w = OpRead (rw_fd w) (word_of_nat (rw_remaining w)) (rw_file_offset w)"

definition read_stored :: "u8 list \<Rightarrow> ReadWork \<Rightarrow> ReadWork" where
  "read_stored data w = w\<lparr>rw_buf := store_bytes (rw_buffer_offset w) data (rw_buf w)\<rparr>"

definition read_complete :: "ReadWork \<Rightarrow> i32 \<Rightarrow> nat io_result \<times> io_buf" where
  "read_complete w = fill_complete ''kernel returned an oversized read'' (rw_buffer_offset w) (rw_remaining w) (rw_buf w)"

definition read_fail :: "ReadWork \<Rightarrow> io_error \<Rightarrow> nat io_result \<times> io_buf" where
  "read_fail w e = (Err e, rw_buf w)"

record WriteWork =
  ww_fd :: raw_fd
  ww_buf :: io_buf
  ww_file_offset :: u64
  ww_buffer_offset :: nat
  ww_remaining :: nat

text \<open>The memory that the entry's pointer and length designate.\<close>

definition write_entry :: "WriteWork \<Rightarrow> 'a io_op" where
  "write_entry w = OpWrite (ww_fd w)
     (take (unat (word_of_nat (ww_remaining w) :: u32)) (drop (ww_buffer_offset w) (bf_cells (ww_buf w)))) (ww_file_offset w)"

definition write_complete :: "WriteWork \<Rightarrow> i32 \<Rightarrow> nat io_result \<times> io_buf" where
  "write_complete w = drain_complete ''kernel returned an oversized write'' (ww_remaining w) (ww_buf w)"

definition write_fail :: "WriteWork \<Rightarrow> io_error \<Rightarrow> nat io_result \<times> io_buf" where
  "write_fail w e = (Err e, ww_buf w)"

section \<open>Files\<close>

record File =
  fl_fd :: raw_fd
  fl_append :: bool

definition read_at_offset ::
  "('a, 's) io_handle \<Rightarrow> File \<Rightarrow> io_buf \<Rightarrow> u64 \<Rightarrow> nat \<Rightarrow> 's \<Rightarrow> (nat, 's) buf_result" where
  "read_at_offset io f buf file_offset buffer_offset s =
    (let remaining = saturating_sub (bytes_total buf) buffer_offset in
     if remaining > u32_max then ((Err oversized_buffer, buf), s)
     else let w = \<lparr>rw_fd = fl_fd f, rw_buf = buf, rw_file_offset = file_offset, rw_buffer_offset = buffer_offset,
                    rw_remaining = remaining\<rparr>
          in await_op io (read_entry w) (\<lambda>data. read_complete (read_stored data w)) (read_fail w) s)"

definition write_at_offset ::
  "('a, 's) io_handle \<Rightarrow> File \<Rightarrow> io_buf \<Rightarrow> u64 \<Rightarrow> nat \<Rightarrow> 's \<Rightarrow> (nat, 's) buf_result" where
  "write_at_offset io f buf file_offset buffer_offset s =
    (let remaining = saturating_sub (bytes_init buf) buffer_offset in
     if remaining > u32_max then ((Err oversized_buffer, buf), s)
     else let w = \<lparr>ww_fd = fl_fd f, ww_buf = buf, ww_file_offset = file_offset, ww_buffer_offset = buffer_offset,
                    ww_remaining = remaining\<rparr>
          in await_op io (write_entry w) (\<lambda>_. write_complete w) (write_fail w) s)"

definition offset_overflow :: io_error where
  "offset_overflow = IoError InvalidInput ''file offset overflow''"

definition append_refused :: io_error where
  "append_refused = IoError InvalidInput ''positioned writes are not allowed on append-mode files''"

definition read_at :: "('a, 's) io_handle \<Rightarrow> File \<Rightarrow> io_buf \<Rightarrow> u64 \<Rightarrow> 's \<Rightarrow> (nat, 's) buf_result" where
  "read_at io f buf offset = read_at_offset io f buf offset 0"

text \<open>One round of the loop of \<open>read_exact_at\<close>: an offset that overflows ends it without an operation.\<close>

definition read_round :: "('a, 's) io_handle \<Rightarrow> File \<Rightarrow> u64 \<Rightarrow> io_buf \<Rightarrow> nat \<Rightarrow> 's \<Rightarrow> (nat, 's) buf_result" where
  "read_round io f offset buf filled s =
    (case checked_add offset (word_of_nat filled) of
       None \<Rightarrow> ((Err offset_overflow, buf), s)
     | Some file_offset \<Rightarrow> read_at_offset io f buf file_offset filled s)"

definition read_exact_at :: "('a, 's) io_handle \<Rightarrow> File \<Rightarrow> io_buf \<Rightarrow> u64 \<Rightarrow> 's \<Rightarrow> (unit, 's) buf_result" where
  "read_exact_at io f buf offset =
    exact_loop (read_round io f offset) (IoError UnexpectedEof ''failed to fill whole buffer'') (bytes_total buf) 0 buf"

definition write_at :: "('a, 's) io_handle \<Rightarrow> File \<Rightarrow> io_buf \<Rightarrow> u64 \<Rightarrow> 's \<Rightarrow> (nat, 's) buf_result" where
  "write_at io f buf offset s =
    (if fl_append f then ((Err append_refused, buf), s) else write_at_offset io f buf offset 0 s)"

definition write_round :: "('a, 's) io_handle \<Rightarrow> File \<Rightarrow> u64 \<Rightarrow> io_buf \<Rightarrow> nat \<Rightarrow> 's \<Rightarrow> (nat, 's) buf_result" where
  "write_round io f offset buf written s =
    (case checked_add offset (word_of_nat written) of
       None \<Rightarrow> ((Err offset_overflow, buf), s)
     | Some file_offset \<Rightarrow> write_at_offset io f buf file_offset written s)"

definition write_all_at :: "('a, 's) io_handle \<Rightarrow> File \<Rightarrow> io_buf \<Rightarrow> u64 \<Rightarrow> 's \<Rightarrow> (unit, 's) buf_result" where
  "write_all_at io f buf offset s =
    (if fl_append f then ((Err append_refused, buf), s)
     else exact_loop (write_round io f offset) (IoError WriteZero ''failed to write buffer'') (bytes_init buf) 0 buf s)"

definition file_append :: "('a, 's) io_handle \<Rightarrow> File \<Rightarrow> io_buf \<Rightarrow> 's \<Rightarrow> (nat, 's) buf_result" where
  "file_append io f buf s =
    (if \<not> fl_append f then ((Err (IoError InvalidInput ''append requires a file opened in append mode''), buf), s)
     else write_at_offset io f buf (- 1) 0 s)"

definition sync_all :: "('a, 's) io_handle \<Rightarrow> File \<Rightarrow> 's \<Rightarrow> unit io_result \<times> 's" where
  "sync_all io f = sync_work io (fl_fd f) False"

definition sync_data :: "('a, 's) io_handle \<Rightarrow> File \<Rightarrow> 's \<Rightarrow> unit io_result \<times> 's" where
  "sync_data io f = sync_work io (fl_fd f) True"

section \<open>Opening\<close>

definition cstring_new :: "u8 list \<Rightarrow> (u8 list, unit) rust_result" where
  "cstring_new path = (if 0 \<in> set path then Err () else Ok path)"

definition options_open_on ::
  "'z libc_open_scheme \<Rightarrow> OpenOptions \<Rightarrow> ('a, 's) io_handle \<Rightarrow> u8 list \<Rightarrow> 's \<Rightarrow> File io_result \<times> 's" where
  "options_open_on C opts io path s =
    (case open_flags C opts of
       Inl e \<Rightarrow> (Err e, s)
     | Inr (flags, mode) \<Rightarrow>
         (case cstring_new path of
            Inl _ \<Rightarrow> (Err (IoError InvalidInput ''file path contains an interior NUL byte''), s)
          | Inr path \<Rightarrow>
              (case open_work io path flags mode s of
                 (Inl e, s) \<Rightarrow> (Err e, s)
               | (Inr fd, s) \<Rightarrow> (Ok \<lparr>fl_fd = fd, fl_append = fo_append opts\<rparr>, s))))"

definition file_open_on :: "'z libc_open_scheme \<Rightarrow> ('a, 's) io_handle \<Rightarrow> u8 list \<Rightarrow> 's \<Rightarrow> File io_result \<times> 's" where
  "file_open_on C = options_open_on C (options_read True open_options_new)"

definition file_create_on :: "'z libc_open_scheme \<Rightarrow> ('a, 's) io_handle \<Rightarrow> u8 list \<Rightarrow> 's \<Rightarrow> File io_result \<times> 's" where
  "file_create_on C = options_open_on C (options_truncate True (options_create True (options_write True open_options_new)))"

definition file_create_new_on :: "'z libc_open_scheme \<Rightarrow> ('a, 's) io_handle \<Rightarrow> u8 list \<Rightarrow> 's \<Rightarrow> File io_result \<times> 's" where
  "file_create_new_on C = options_open_on C (options_create_new True (options_write True open_options_new))"

text \<open>The constructors for the current runtime; \<open>current\<close> is what \<open>IoHandle::try_current\<close> gives.\<close>

definition on_current ::
  "('a, 's) io_handle option \<Rightarrow> (('a, 's) io_handle \<Rightarrow> 's \<Rightarrow> 'r io_result \<times> 's) \<Rightarrow> 's \<Rightarrow> 'r io_result \<times> 's" where
  "on_current current construct s = (case current of None \<Rightarrow> (Err runtime_closed_error, s) | Some io \<Rightarrow> construct io s)"

definition options_open where
  "options_open C opts current path = on_current current (\<lambda>io. options_open_on C opts io path)"

definition file_open where
  "file_open C current path = on_current current (\<lambda>io. file_open_on C io path)"

definition file_create where
  "file_create C current path = on_current current (\<lambda>io. file_create_on C io path)"

definition file_create_new where
  "file_create_new C current path = on_current current (\<lambda>io. file_create_new_on C io path)"

section \<open>Whole reads of an honest kernel\<close>

lemma read_round_filled:
  assumes io: "fills_honestly io" and b: "filled_to b0 k b" and "k < bytes_total b0"
    and r: "read_round io f offset b k s = ((x, b'), s')"
  shows "case x of Inr n \<Rightarrow> k + n \<le> bytes_total b0 \<and> filled_to b0 (k + n) b' | Inl e \<Rightarrow> filled_to b0 k b'"
proof (cases "checked_add offset (word_of_nat k)")
  case None
  with r b show ?thesis by (auto simp: read_round_def)
next
  case (Some o')
  let ?rem = "bytes_total b - k"
  have rem: "saturating_sub (bytes_total b) k = ?rem" using assms(3) b by (auto simp: saturating_sub_def filled_to_def)
  show ?thesis
  proof (cases "?rem > u32_max")
    case True
    with r b rem Some show ?thesis by (auto simp: read_round_def read_at_offset_def)
  next
    case False
    then have u: "unat (word_of_nat ?rem :: u32) = ?rem" by (intro unat_u32_le) simp
    let ?op = "OpRead (fl_fd f) (word_of_nat ?rem) o'"
    obtain oc s1 where oc: "io ?op s = (oc, s1)" by (rule prod.exhaust)
    show ?thesis
    proof (cases oc)
      case (OpFailed e)
      with r b rem Some False oc show ?thesis
        by (auto simp: read_round_def read_at_offset_def await_op_def read_entry_def read_fail_def Let_def)
    next
      case (OpDone result data)
      from io oc OpDone u have h: "length data \<le> ?rem" "\<not> result <s 0 \<Longrightarrow> unat result \<le> ?rem \<Longrightarrow> unat result \<le> length data"
        by (fastforce simp: fills_honestly_def)+
      from r rem Some False oc OpDone
      have "fill_complete ''kernel returned an oversized read'' k ?rem (store_bytes k data b) result = (x, b')"
        by (simp add: read_round_def read_at_offset_def await_op_def read_entry_def read_complete_def read_stored_def Let_def)
      from fill_complete_filled [OF b h this] show ?thesis .
    qed
  qed
qed

interpretation file_fill: transfer "read_round io f offset" "bytes_total b0" "\<lambda>k b s. fills_honestly io \<and> filled_to b0 k b"
  for io f offset b0
  by unfold_locales (auto dest: read_round_filled)

section \<open>One file\<close>

text \<open>
  Content after writing: the gap behind the old end is zero, a write of nothing changes nothing.
\<close>

definition overwrite :: "u8 list \<Rightarrow> nat \<Rightarrow> u8 list \<Rightarrow> u8 list" where
  "overwrite c at data = (if data = [] then c
     else take at (c @ replicate (at - length c) 0) @ data @ drop (at + length data) c)"

text \<open>
  A kernel that keeps one file: reads and writes move an arbitrary part of what they could, but at
  least one byte where there is one.
\<close>

definition file_kernel :: "('a, u8 list) io_handle \<Rightarrow> bool" where
  "file_kernel io \<longleftrightarrow>
     (\<forall>fd len off c. \<exists>n. io (OpRead fd len off) c = (OpDone (word_of_nat n) (take n (drop (unat off) c)), c)
        \<and> n \<le> unat len \<and> n < 2 ^ 31 \<and> n \<le> length c - unat off \<and> (len \<noteq> 0 \<and> unat off < length c \<longrightarrow> n \<noteq> 0))
   \<and> (\<forall>fd cells off c. unat off + length cells < 2 ^ 63 \<longrightarrow>
        (\<exists>n. io (OpWrite fd cells off) c = (OpDone (word_of_nat n) [], overwrite c (unat off) (take n (map the cells)))
        \<and> n \<le> length cells \<and> n < 2 ^ 31 \<and> (cells \<noteq> [] \<longrightarrow> n \<noteq> 0)))"

lemma overwrite_Nil [simp]: "overwrite c at [] = c"
  by (simp add: overwrite_def)

lemma length_overwrite: "length (overwrite c at data) = (if data = [] then length c else max (length c) (at + length data))"
  by (auto simp: overwrite_def)

lemma nth_overwrite:
  "data \<noteq> [] \<Longrightarrow> i < length (overwrite c at data) \<Longrightarrow> overwrite c at data ! i
    = (if i < at then (if i < length c then c ! i else 0) else if i < at + length data then data ! (i - at) else c ! i)"
  by (auto simp: overwrite_def nth_append length_overwrite min_def split: if_splits)

lemma overwrite_append: "overwrite (overwrite c at d1) (at + length d1) d2 = overwrite c at (d1 @ d2)"
proof (cases "d1 = [] \<or> d2 = []")
  case False
  then show ?thesis
    by (intro nth_equalityI) (auto simp: nth_overwrite length_overwrite nth_append)
qed auto

lemma drop_overwrite: "take (length d) (drop at (overwrite c at d)) = d"
  by (cases "d = []") (auto simp: overwrite_def)

lemma file_kernel_read:
  assumes "file_kernel io"
  obtains n where "io (OpRead fd len off) c = (OpDone (word_of_nat n) (take n (drop (unat off) c)), c)"
    "n \<le> unat len" "n < 2 ^ 31" "n \<le> length c - unat off" "len \<noteq> 0 \<and> unat off < length c \<longrightarrow> n \<noteq> 0"
  using assms unfolding file_kernel_def by meson

lemma file_kernel_write:
  assumes "file_kernel io" "unat off + length cells < 2 ^ 63"
  obtains n where "io (OpWrite fd cells off) c = (OpDone (word_of_nat n) [], overwrite c (unat off) (take n (map the cells)))"
    "n \<le> length cells" "n < 2 ^ 31" "cells \<noteq> [] \<longrightarrow> n \<noteq> 0"
  using assms unfolding file_kernel_def by meson

text \<open>The offset of a round does not overflow.\<close>

lemma round_offset:
  assumes "unat (off :: u64) + k < 2 ^ 63"
  shows "checked_add off (word_of_nat k) = Some (off + word_of_nat k)" "unat (off + word_of_nat k) = unat off + k"
proof -
  have k: "unat (word_of_nat k :: u64) = k" using assms by (simp add: unat_of_nat)
  show "checked_add off (word_of_nat k) = Some (off + word_of_nat k)" using assms k by (simp add: checked_add_def)
  show "unat (off + word_of_nat k) = unat off + k"
    using assms k by (simp add: unat_word_ariths)
qed

lemma write_round_file:
  assumes io: "file_kernel io" and size: "bytes_init b \<le> u32_max" "bytes_init b \<le> bytes_total b"
    and off: "unat off + bytes_init b < 2 ^ 63" and k: "k < bytes_init b"
  shows "\<exists>n. write_round io f off b k (overwrite c (unat off) (take k (buf_bytes b)))
      = ((Ok n, b), overwrite c (unat off) (take (k + n) (buf_bytes b))) \<and> n \<noteq> 0 \<and> k + n \<le> bytes_init b"
proof -
  define m where "m = bytes_init b - k"
  let ?o = "off + word_of_nat k"
  let ?cells = "take m (drop k (bf_cells b))"
  from off k have o: "checked_add off (word_of_nat k) = Some ?o" "unat ?o = unat off + k"
    using round_offset [of off k] by simp_all
  have rem: "saturating_sub (bytes_init b) k = m" "unat (word_of_nat m :: u32) = m"
    using k size(1) unat_u32_le [of m] by (auto simp: saturating_sub_def m_def)
  have len: "length ?cells = m" using k size(2) by (simp add: bytes_total_def m_def)
  have data: "map the ?cells = drop k (buf_bytes b)"
    using k by (simp add: buf_bytes_def drop_map drop_take m_def)
  obtain n where n: "io (OpWrite (fl_fd f) ?cells ?o) (overwrite c (unat off) (take k (buf_bytes b)))
      = (OpDone (word_of_nat n) [], overwrite (overwrite c (unat off) (take k (buf_bytes b))) (unat ?o) (take n (map the ?cells)))"
    "n \<le> length ?cells" "n < 2 ^ 31" "?cells \<noteq> [] \<longrightarrow> n \<noteq> 0"
    by (rule file_kernel_write [OF io, of ?o ?cells "fl_fd f" "overwrite c (unat off) (take k (buf_bytes b))"])
       (use o off len k in \<open>simp_all add: m_def\<close>)
  have l: "length (take k (buf_bytes b)) = k" using k size(2) by (simp add: buf_bytes_def bytes_total_def)
  have "overwrite (overwrite c (unat off) (take k (buf_bytes b))) (unat ?o) (take n (map the ?cells))
      = overwrite c (unat off) (take (k + n) (buf_bytes b))"
    using overwrite_append [of c "unat off" "take k (buf_bytes b)" "take n (drop k (buf_bytes b))", unfolded l]
    by (simp add: o data take_add)
  with n have st: "io (OpWrite (fl_fd f) ?cells ?o) (overwrite c (unat off) (take k (buf_bytes b)))
      = (OpDone (word_of_nat n) [], overwrite c (unat off) (take (k + n) (buf_bytes b)))" by simp
  have "?cells \<noteq> []" using len k by (auto simp: m_def)
  moreover have "m \<le> u32_max" "k + m = bytes_init b" using size(1) k by (simp_all add: m_def)
  ultimately show ?thesis
    using n len k cqe_result_count [OF n(3)] st
    by (intro exI [of _ n]) (simp add: write_round_def o write_at_offset_def rem Let_def await_op_def write_entry_def
        write_complete_def drain_complete_def)
qed

interpretation file_write: live_transfer "write_round io f off" "bytes_init b0"
    "\<lambda>k b s. file_kernel io \<and> b = b0 \<and> bytes_init b0 \<le> u32_max \<and> bytes_init b0 \<le> bytes_total b0
       \<and> unat off + bytes_init b0 < 2 ^ 63 \<and> s = overwrite c (unat off) (take k (buf_bytes b0))"
  for io f off b0 c
proof (rule live_transferI, goal_cases)
  case (1 k b s)
  with write_round_file [of io b off k f c] show ?case by auto
qed

lemma read_round_file:
  assumes io: "file_kernel io" and b: "filled_to b0 k b" and size: "bytes_total b0 \<le> u32_max"
    and off: "unat off + bytes_total b0 < 2 ^ 63" "unat off + bytes_total b0 \<le> length c" and k: "k < bytes_total b0"
    and cells: "\<forall>i < k. bf_cells b ! i = Some (c ! (unat off + i))"
  shows "\<exists>n b'. read_round io f off b k c = ((Ok n, b'), c) \<and> n \<noteq> 0 \<and> k + n \<le> bytes_total b0
    \<and> filled_to b0 (k + n) b' \<and> (\<forall>i < k + n. bf_cells b' ! i = Some (c ! (unat off + i)))"
proof -
  let ?rem = "bytes_total b - k" and ?o = "off + word_of_nat k"
  from b have tot: "bytes_total b = bytes_total b0" by (simp add: filled_to_def)
  from off k have o: "checked_add off (word_of_nat k) = Some ?o" "unat ?o = unat off + k"
    using round_offset [of off k] by simp_all
  have rem: "saturating_sub (bytes_total b) k = ?rem" "unat (word_of_nat ?rem :: u32) = ?rem" "?rem \<le> u32_max"
    using k size unat_u32_le [of ?rem] by (auto simp: saturating_sub_def tot)
  then have nz: "(word_of_nat ?rem :: u32) \<noteq> 0" using k tot by (metis unat_0 zero_less_diff less_irrefl)
  obtain n where n: "io (OpRead (fl_fd f) (word_of_nat ?rem) ?o) c = (OpDone (word_of_nat n) (take n (drop (unat ?o) c)), c)"
    "n \<le> ?rem" "n < 2 ^ 31" "n \<le> length c - unat ?o" "n \<noteq> 0"
    by (rule file_kernel_read [OF io, of "fl_fd f" "word_of_nat ?rem" ?o c]) (use rem o off k nz in auto)
  let ?data = "take n (drop (unat ?o) c)"
  let ?b = "set_init (max (bytes_init (store_bytes k ?data b)) (k + n)) (store_bytes k ?data b)"
  have len: "length ?data = n" using n(4) by simp
  have r: "fill_complete ''kernel returned an oversized read'' k ?rem (store_bytes k ?data b) (word_of_nat n) = (Ok n, ?b)"
    using n(2) cqe_result_count [OF n(3)] by (simp add: fill_complete_def)
  have "\<not> (word_of_nat n :: i32) <s 0" "unat (word_of_nat n :: i32) = n"
    using cqe_result_count [OF n(3)] by (auto simp: cqe_result_def split: if_splits)
  with fill_complete_filled [OF b _ _ r] len n(2) have f: "k + n \<le> bytes_total b0" "filled_to b0 (k + n) ?b" by auto
  have "bf_cells ?b ! i = Some (c ! (unat off + i))" if "i < k + n" for i
    using that f(1) cells len o(2) n(4) by (auto simp: nth_store_bytes tot nth_append)
  moreover have "read_round io f off b k c = ((Ok n, ?b), c)"
    using n(1) r rem by (simp add: read_round_def o read_at_offset_def Let_def await_op_def read_entry_def read_complete_def
        read_stored_def)
  ultimately show ?thesis using n(5) f by blast
qed

interpretation file_read: live_transfer "read_round io f off" "bytes_total b0"
    "\<lambda>k b s. file_kernel io \<and> filled_to b0 k b \<and> bytes_total b0 \<le> u32_max \<and> unat off + bytes_total b0 < 2 ^ 63
       \<and> unat off + bytes_total b0 \<le> length c \<and> s = c \<and> (\<forall>i < k. bf_cells b ! i = Some (c ! (unat off + i)))"
  for io f off b0 c
proof (rule live_transferI, goal_cases)
  case (1 k b s)
  with read_round_file [of io b0 k b off c f] show ?case by auto
qed

section \<open>Properties\<close>

text \<open>
  C35: a whole read never hands back a damaged buffer: whatever the kernel answers, as long as it stores
  what it counts, the buffer that comes back is the same allocation, every byte it presents as
  initialised is, and success means that the whole allocation is initialised.
\<close>

theorem read_exact_keeps_buffer:
  assumes "fills_honestly io" "buf_sound b" "read_exact_at io f b offset s = ((r, b'), s')"
  shows "buf_sound b' \<and> bytes_total b' = bytes_total b \<and> bf_kind b' = bf_kind b
    \<and> (r = Ok () \<longrightarrow> bytes_init b' = bytes_total b)"
proof -
  have "filled_to b 0 b" using assms(2) by (simp add: filled_to_def)
  with assms(1) file_fill.loop_keeps [OF _ _ assms(3) [unfolded read_exact_at_def]] obtain k
    where k: "k \<le> bytes_total b" "filled_to b k b'" "r = Ok () \<longleftrightarrow> k = bytes_total b"
    by (auto simp: read_exact_at_def)
  from k(2) have "bytes_init b' \<le> bytes_total b" by (auto simp: filled_to_def buf_sound_def)
  with k show ?thesis by (auto simp: filled_to_def)
qed

text \<open>A kernel over one file that moves at most two bytes at a time.\<close>

definition sample_file :: "(unit, u8 list) io_handle" where
  "sample_file entry c = (case entry of
     OpRead fd len off \<Rightarrow> (let n = min 2 (min (unat len) (length c - unat off))
       in (OpDone (word_of_nat n) (take n (drop (unat off) c)), c))
   | OpWrite fd cells off \<Rightarrow> (let n = min 2 (length cells)
       in (OpDone (word_of_nat n) [], overwrite c (unat off) (take n (map the cells))))
   | _ \<Rightarrow> (OpFailed unsupported_opcode_error, c))"

lemma sample_file_kernel: "file_kernel sample_file"
  unfolding file_kernel_def sample_file_def Let_def
proof (intro conjI allI impI, goal_cases)
  case (1 fd len off c)
  have "min 2 (min (unat len) (length c - unat off)) \<noteq> 0" if "len \<noteq> 0 \<and> unat off < length c"
    using that by (simp add: unat_gt_0 min_def)
  then show ?case by (intro exI [of _ "min 2 (min (unat len) (length c - unat off))"]) auto
next
  case (2 fd cells off c)
  show ?case by (intro exI [of _ "min 2 (length cells)"]) auto
qed

lemma sample_file_honest: "fills_honestly sample_file"
  unfolding fills_honestly_def
proof (intro allI impI, goal_cases)
  case (1 entry s result data s')
  then show ?case by (auto simp: sample_file_def Let_def unat_of_nat split: io_op.splits)
qed

theorem read_exact_keeps_buffer_witness:
  "\<exists>r b' s'. read_exact_at sample_file \<lparr>fl_fd = 3, fl_append = False\<rparr> (vec_with_capacity 4) 1 [1, 2, 3] = ((r, b'), s')
    \<and> buf_sound b' \<and> bytes_total b' = 4"
proof -
  obtain r b' s' where x: "read_exact_at sample_file \<lparr>fl_fd = 3, fl_append = False\<rparr> (vec_with_capacity 4) 1 [1, 2, 3]
      = ((r, b'), s')" by (metis prod.exhaust)
  from read_exact_keeps_buffer [OF sample_file_honest _ x] x show ?thesis by simp
qed

text \<open>
  C36: what a whole write puts into a file, a whole read at the same place gets back, however the kernel
  splits the transfers: the write succeeds, the file is its old content with the bytes in place, and
  the read succeeds and fills its buffer with exactly those bytes.
\<close>

theorem file_write_read_roundtrip:
  assumes io: "file_kernel io" and "\<not> fl_append f" and b: "buf_sound b" and d: "buf_sound d"
    and size: "bytes_total d = bytes_init b" "bytes_init b \<le> u32_max" "unat offset + bytes_init b < 2 ^ 63"
  shows "\<exists>d'. write_all_at io f b offset c = ((Ok (), b), overwrite c (unat offset) (buf_bytes b))
    \<and> read_exact_at io f d offset (overwrite c (unat offset) (buf_bytes b))
        = ((Ok (), d'), overwrite c (unat offset) (buf_bytes b)) \<and> buf_bytes d' = buf_bytes b"
proof -
  let ?n = "bytes_init b" and ?c = "overwrite c (unat offset) (buf_bytes b)"
  have tot: "bytes_init b \<le> bytes_total b" using b by (simp add: buf_sound_def)
  then have len: "length (buf_bytes b) = ?n" by (simp add: buf_bytes_def bytes_total_def)
  from file_write.loop_succeeds [where io = io and ?b0.0 = b and off = offset and k = 0 and b = b and s = c and c = c and f = f] io tot size(2,3) assms(2)
  have w: "write_all_at io f b offset c = ((Ok (), b), ?c)"
    by (auto simp: write_all_at_def len)
  have room: "unat offset + ?n \<le> length ?c" if "?n \<noteq> 0"
    using that len by (auto simp: length_overwrite)
  have "\<exists>d'. read_exact_at io f d offset ?c = ((Ok (), d'), ?c) \<and> filled_to d ?n d'
      \<and> (\<forall>i < ?n. bf_cells d' ! i = Some (?c ! (unat offset + i)))"
  proof (cases "?n = 0")
    case True
    with d size(1) show ?thesis by (simp add: read_exact_at_def filled_to_def)
  next
    case False
    have "filled_to d 0 d" using d by (simp add: filled_to_def)
    with file_read.loop_succeeds [where io = io and ?b0.0 = d and off = offset and c = ?c and k = 0 and b = d and s = ?c and f = f] io size room [OF False]
    show ?thesis by (auto simp: read_exact_at_def)
  qed
  then obtain d' where r: "read_exact_at io f d offset ?c = ((Ok (), d'), ?c)" and f: "filled_to d ?n d'"
    and cells: "\<forall>i < ?n. bf_cells d' ! i = Some (?c ! (unat offset + i))" by blast
  from f size(1) have "bytes_init d' = ?n" "length (bf_cells d') = ?n"
    by (auto simp: filled_to_def buf_sound_def bytes_total_def)
  then have "buf_bytes d' = take ?n (drop (unat offset) ?c)"
    using cells len room by (intro nth_equalityI) (auto simp: buf_bytes_def length_overwrite)
  also have "\<dots> = buf_bytes b" using drop_overwrite [of "buf_bytes b" "unat offset" c] len by simp
  finally show ?thesis using w r by blast
qed

theorem file_write_read_roundtrip_witness:
  "\<exists>d'. write_all_at sample_file \<lparr>fl_fd = 3, fl_append = False\<rparr> (vec_of [7, 8, 9]) 5 [1, 2]
      = ((Ok (), vec_of [7, 8, 9]), [1, 2, 0, 0, 0, 7, 8, 9])
    \<and> read_exact_at sample_file \<lparr>fl_fd = 3, fl_append = False\<rparr> (vec_with_capacity 3) 5 [1, 2, 0, 0, 0, 7, 8, 9]
      = ((Ok (), d'), [1, 2, 0, 0, 0, 7, 8, 9]) \<and> buf_bytes d' = [7, 8, 9]"
proof -
  have w: "overwrite [1, 2] 5 [7, 8, 9 :: u8] = [1, 2, 0, 0, 0, 7, 8, 9]"
    by (simp add: overwrite_def eval_nat_numeral)
  from file_write_read_roundtrip [OF sample_file_kernel, of "\<lparr>fl_fd = 3, fl_append = False\<rparr>" "vec_of [7, 8, 9]"
      "vec_with_capacity 3" 5 "[1, 2]"]
  show ?thesis by (simp add: u32_max_def w)
qed

end
