(* ===== verification/Tcp_Net.thy ===== *)
theory Tcp_Net
  imports Io_Transfer
begin

text \<open>
  TCP sockets, \<open>src/net.rs\<close>: numeric addresses, the works of a connect, a receive, a send and a
  readiness poll, the methods of \<open>TcpStream\<close> and \<open>TcpListener\<close>, and the readiness lanes of the
  borrowed interface. System calls are the record \<open>socket_calls\<close>, over the state of the I/O handle;
  dropping a socket closes it.
\<close>

section \<open>Addresses\<close>

datatype IpAddr = IpV4 u32 | IpV6 "128 word"

datatype SocketAddr = SocketAddr IpAddr "16 word"

text \<open>The implementations of \<open>ToSocketAddrs\<close>; a reference is what it refers to.\<close>

datatype ToSocketAddrs =
    AddrOne SocketAddr
  | AddrIp IpAddr "16 word"
  | AddrIpv4 u32 "16 word"
  | AddrIpv6 "128 word" "16 word"
  | AddrSlice "SocketAddr list"
  | AddrArray "SocketAddr list"

fun to_socket_addrs :: "ToSocketAddrs \<Rightarrow> SocketAddr list" where
  "to_socket_addrs (AddrOne a) = [a]"
| "to_socket_addrs (AddrIp ip port) = [SocketAddr ip port]"
| "to_socket_addrs (AddrIpv4 ip port) = [SocketAddr (IpV4 ip) port]"
| "to_socket_addrs (AddrIpv6 ip port) = [SocketAddr (IpV6 ip) port]"
| "to_socket_addrs (AddrSlice addrs) = addrs"
| "to_socket_addrs (AddrArray addrs) = addrs"

fun is_ipv4 :: "SocketAddr \<Rightarrow> bool" where
  "is_ipv4 (SocketAddr (IpV4 _) _) = True"
| "is_ipv4 (SocketAddr (IpV6 _) _) = False"

section \<open>System calls\<close>

text \<open>
  Sockets of the crate \<open>socket2\<close> and of the C library. An address that the system returns is an internet
  address or not (\<open>None\<close>).
\<close>

record 's socket_calls =
  sk_socket :: "bool \<Rightarrow> 's \<Rightarrow> raw_fd io_result \<times> 's"
  sk_bind :: "raw_fd \<Rightarrow> SocketAddr \<Rightarrow> 's \<Rightarrow> unit io_result \<times> 's"
  sk_listen :: "raw_fd \<Rightarrow> i32 \<Rightarrow> 's \<Rightarrow> unit io_result \<times> 's"
  sk_accept4 :: "raw_fd \<Rightarrow> 's \<Rightarrow> (raw_fd \<times> SocketAddr option) io_result \<times> 's"
  sk_recv :: "raw_fd \<Rightarrow> nat \<Rightarrow> 's \<Rightarrow> u8 list io_result \<times> 's"
  sk_send :: "raw_fd \<Rightarrow> u8 list \<Rightarrow> i32 \<Rightarrow> 's \<Rightarrow> nat io_result \<times> 's"
  sk_shutdown_write :: "raw_fd \<Rightarrow> 's \<Rightarrow> unit io_result \<times> 's"
  sk_local_addr :: "raw_fd \<Rightarrow> 's \<Rightarrow> SocketAddr option io_result"
  sk_peer_addr :: "raw_fd \<Rightarrow> 's \<Rightarrow> SocketAddr option io_result"
  sk_close :: "raw_fd \<Rightarrow> 's \<Rightarrow> 's"

definition tcp_socket :: "('s, 'z) socket_calls_scheme \<Rightarrow> SocketAddr \<Rightarrow> 's \<Rightarrow> raw_fd io_result \<times> 's" where
  "tcp_socket K address = sk_socket K (is_ipv4 address)"

definition bind_socket :: "('s, 'z) socket_calls_scheme \<Rightarrow> SocketAddr \<Rightarrow> 's \<Rightarrow> raw_fd io_result \<times> 's" where
  "bind_socket K address s =
    (case tcp_socket K address s of
       (Inl e, s) \<Rightarrow> (Err e, s)
     | (Inr socket, s) \<Rightarrow>
         (case sk_bind K socket address s of
            (Inl e, s) \<Rightarrow> (Err e, sk_close K socket s)
          | (Inr _, s) \<Rightarrow>
              (case sk_listen K socket 1024 s of
                 (Inl e, s) \<Rightarrow> (Err e, sk_close K socket s)
               | (Inr _, s) \<Rightarrow> (Ok socket, s))))"

definition socket_addr :: "SocketAddr option \<Rightarrow> SocketAddr io_result" where
  "socket_addr address =
    (case address of None \<Rightarrow> Err (IoError InvalidData ''socket returned a non-IP address'') | Some a \<Rightarrow> Ok a)"

section \<open>Works\<close>

text \<open>\<open>ConnectWork\<close> owns its socket: it is handed out on success and otherwise dropped with the work.\<close>

definition connect_work ::
  "('s, 'z) socket_calls_scheme \<Rightarrow> (SocketAddr, 's) io_handle \<Rightarrow> raw_fd \<Rightarrow> SocketAddr \<Rightarrow> 's \<Rightarrow> raw_fd io_result \<times> 's" where
  "connect_work K io socket address s =
    (case await_op io (OpConnect socket address) (\<lambda>_ result. map_sum id (\<lambda>_. socket) (cqe_result result)) Inl s of
       (Inl e, s) \<Rightarrow> (Err e, sk_close K socket s)
     | (Inr socket, s) \<Rightarrow> (Ok socket, s))"

definition poll_complete :: "i32 \<Rightarrow> unit io_result" where
  "poll_complete result = map_sum id (\<lambda>_. ()) (cqe_result result)"

definition poll_work :: "('a, 's) io_handle \<Rightarrow> raw_fd \<Rightarrow> u32 \<Rightarrow> 's \<Rightarrow> unit io_result \<times> 's" where
  "poll_work io socket events = await_op io (OpPollAdd socket events) (\<lambda>_. poll_complete) Inl"

record RecvWork =
  vw_socket :: raw_fd
  vw_buf :: io_buf
  vw_buffer_offset :: nat
  vw_remaining :: nat

definition recv_entry :: "RecvWork \<Rightarrow> 'a io_op" where
  "recv_entry w = OpRecv (vw_socket w) (word_of_nat (vw_remaining w))"

definition recv_stored :: "u8 list \<Rightarrow> RecvWork \<Rightarrow> RecvWork" where
  "recv_stored data w = w\<lparr>vw_buf := store_bytes (vw_buffer_offset w) data (vw_buf w)\<rparr>"

definition recv_complete :: "RecvWork \<Rightarrow> i32 \<Rightarrow> nat io_result \<times> io_buf" where
  "recv_complete w = fill_complete ''kernel returned an oversized receive'' (vw_buffer_offset w) (vw_remaining w) (vw_buf w)"

definition recv_fail :: "RecvWork \<Rightarrow> io_error \<Rightarrow> nat io_result \<times> io_buf" where
  "recv_fail w e = (Err e, vw_buf w)"

record SendWork =
  sw_socket :: raw_fd
  sw_buf :: io_buf
  sw_buffer_offset :: nat
  sw_remaining :: nat

definition send_entry :: "i32 \<Rightarrow> SendWork \<Rightarrow> 'a io_op" where
  "send_entry nosignal w = OpSend (sw_socket w)
     (take (unat (word_of_nat (sw_remaining w) :: u32)) (drop (sw_buffer_offset w) (bf_cells (sw_buf w)))) nosignal"

definition send_complete :: "SendWork \<Rightarrow> i32 \<Rightarrow> nat io_result \<times> io_buf" where
  "send_complete w = drain_complete ''kernel returned an oversized send'' (sw_remaining w) (sw_buf w)"

definition send_fail :: "SendWork \<Rightarrow> io_error \<Rightarrow> nat io_result \<times> io_buf" where
  "send_fail w e = (Err e, sw_buf w)"

section \<open>Streams\<close>

text \<open>The operations of a stream depend on its socket only; \<open>nosignal\<close> is \<open>MSG_NOSIGNAL\<close>.\<close>

definition recv_offset :: "('a, 's) io_handle \<Rightarrow> raw_fd \<Rightarrow> io_buf \<Rightarrow> nat \<Rightarrow> 's \<Rightarrow> (nat, 's) buf_result" where
  "recv_offset io socket buf buffer_offset s =
    (let remaining = saturating_sub (bytes_total buf) buffer_offset in
     if remaining > u32_max then ((Err oversized_buffer, buf), s)
     else let w = \<lparr>vw_socket = socket, vw_buf = buf, vw_buffer_offset = buffer_offset, vw_remaining = remaining\<rparr>
          in await_op io (recv_entry w) (\<lambda>data. recv_complete (recv_stored data w)) (recv_fail w) s)"

definition send_offset :: "i32 \<Rightarrow> ('a, 's) io_handle \<Rightarrow> raw_fd \<Rightarrow> io_buf \<Rightarrow> nat \<Rightarrow> 's \<Rightarrow> (nat, 's) buf_result" where
  "send_offset nosignal io socket buf buffer_offset s =
    (let remaining = saturating_sub (bytes_init buf) buffer_offset in
     if remaining > u32_max then ((Err oversized_buffer, buf), s)
     else let w = \<lparr>sw_socket = socket, sw_buf = buf, sw_buffer_offset = buffer_offset, sw_remaining = remaining\<rparr>
          in await_op io (send_entry nosignal w) (\<lambda>_. send_complete w) (send_fail w) s)"

definition stream_recv :: "('a, 's) io_handle \<Rightarrow> raw_fd \<Rightarrow> io_buf \<Rightarrow> 's \<Rightarrow> (nat, 's) buf_result" where
  "stream_recv io socket buf = recv_offset io socket buf 0"

definition recv_exact :: "('a, 's) io_handle \<Rightarrow> raw_fd \<Rightarrow> io_buf \<Rightarrow> 's \<Rightarrow> (unit, 's) buf_result" where
  "recv_exact io socket buf =
    exact_loop (recv_offset io socket) (IoError UnexpectedEof ''connection closed early'') (bytes_total buf) 0 buf"

definition stream_send :: "i32 \<Rightarrow> ('a, 's) io_handle \<Rightarrow> raw_fd \<Rightarrow> io_buf \<Rightarrow> 's \<Rightarrow> (nat, 's) buf_result" where
  "stream_send nosignal io socket buf = send_offset nosignal io socket buf 0"

definition send_all :: "i32 \<Rightarrow> ('a, 's) io_handle \<Rightarrow> raw_fd \<Rightarrow> io_buf \<Rightarrow> 's \<Rightarrow> (unit, 's) buf_result" where
  "send_all nosignal io socket buf =
    exact_loop (send_offset nosignal io socket) (IoError WriteZero ''failed to send buffer'') (bytes_init buf) 0 buf"

definition no_addresses :: io_error where
  "no_addresses = IoError InvalidInput ''no socket addresses supplied''"

text \<open>The candidates in order, with the error of the last failure.\<close>

fun connect_loop ::
  "('s, 'z) socket_calls_scheme \<Rightarrow> (SocketAddr, 's) io_handle \<Rightarrow> SocketAddr list \<Rightarrow> io_error option \<Rightarrow> 's
    \<Rightarrow> raw_fd io_result option \<times> 's" where
  "connect_loop K io [] failure s = (map_option Inl failure, s)"
| "connect_loop K io (address # addresses) failure s =
    (case tcp_socket K address s of
       (Inl e, s) \<Rightarrow> connect_loop K io addresses (Some e) s
     | (Inr socket, s) \<Rightarrow>
         (case connect_work K io socket address s of
            (Inr socket, s) \<Rightarrow> (Some (Ok socket), s)
          | (Inl e, s) \<Rightarrow> connect_loop K io addresses (Some e) s))"

definition connect_on ::
  "('s, 'z) socket_calls_scheme \<Rightarrow> (SocketAddr, 's) io_handle \<Rightarrow> ToSocketAddrs \<Rightarrow> 's \<Rightarrow> raw_fd io_result exec \<times> 's" where
  "connect_on K io addresses s =
    (let addrs = to_socket_addrs addresses in
     if addrs = [] then (Return (Err no_addresses), s)
     else case connect_loop K io addrs None s of
            (Some r, s) \<Rightarrow> (Return r, s)
          | (None, s) \<Rightarrow> (Panic ''nonempty address attempt has a result'', s))"

definition stream_local_addr :: "('s, 'z) socket_calls_scheme \<Rightarrow> raw_fd \<Rightarrow> 's \<Rightarrow> SocketAddr io_result" where
  "stream_local_addr K socket s = (case sk_local_addr K socket s of Inl e \<Rightarrow> Err e | Inr a \<Rightarrow> socket_addr a)"

definition stream_peer_addr :: "('s, 'z) socket_calls_scheme \<Rightarrow> raw_fd \<Rightarrow> 's \<Rightarrow> SocketAddr io_result" where
  "stream_peer_addr K socket s = (case sk_peer_addr K socket s of Inl e \<Rightarrow> Err e | Inr a \<Rightarrow> socket_addr a)"

section \<open>Listeners\<close>

fun bind_loop ::
  "('s, 'z) socket_calls_scheme \<Rightarrow> SocketAddr list \<Rightarrow> io_error option \<Rightarrow> 's \<Rightarrow> raw_fd io_result option \<times> 's" where
  "bind_loop K [] failure s = (map_option Inl failure, s)"
| "bind_loop K (address # addresses) failure s =
    (case bind_socket K address s of
       (Inr socket, s) \<Rightarrow> (Some (Ok socket), s)
     | (Inl e, s) \<Rightarrow> bind_loop K addresses (Some e) s)"

text \<open>\<open>running\<close> is what \<open>IoHandle::ensure_running\<close> answers.\<close>

definition bind_on ::
  "('s, 'z) socket_calls_scheme \<Rightarrow> bool \<Rightarrow> ToSocketAddrs \<Rightarrow> 's \<Rightarrow> raw_fd io_result exec \<times> 's" where
  "bind_on K running addresses s =
    (if \<not> running then (Return (Err runtime_closed_error), s)
     else let addrs = to_socket_addrs addresses in
       if addrs = [] then (Return (Err no_addresses), s)
       else case bind_loop K addrs None s of
              (Some r, s) \<Rightarrow> (Return r, s)
            | (None, s) \<Rightarrow> (Panic ''nonempty address attempt has a result'', s))"

text \<open>The accept loop, driven by fuel: \<open>None\<close> when it runs out.\<close>

fun accept_loop ::
  "'y libc_scheme \<Rightarrow> u32 \<Rightarrow> ('s, 'z) socket_calls_scheme \<Rightarrow> ('a, 's) io_handle \<Rightarrow> raw_fd \<Rightarrow> nat \<Rightarrow> 's
    \<Rightarrow> ((raw_fd \<times> SocketAddr) io_result \<times> 's) option" where
  "accept_loop C pollin K io listener 0 s = None"
| "accept_loop C pollin K io listener (Suc fuel) s =
    (case sk_accept4 K listener s of
       (Inr (socket, address), s) \<Rightarrow>
         (case socket_addr address of
            Inr a \<Rightarrow> Some (Ok (socket, a), s)
          | Inl e \<Rightarrow> Some (Err e, sk_close K socket s))
     | (Inl e, s) \<Rightarrow>
         if error_kind C e = WouldBlock then
           (case poll_work io listener pollin s of
              (Inl e, s) \<Rightarrow> Some (Err e, s)
            | (Inr _, s) \<Rightarrow> accept_loop C pollin K io listener fuel s)
         else if error_kind C e = Interrupted then accept_loop C pollin K io listener fuel s
         else Some (Err e, s))"

section \<open>Readiness lanes\<close>

text \<open>
  A lane keeps one pending readiness operation; \<open>'o\<close> is that \<open>OwnedOp\<close>, made by \<open>ro_new\<close> and polled by
  \<open>ro_poll\<close>.
\<close>

record ('o, 's) ready_op =
  ro_new :: "raw_fd \<Rightarrow> u32 \<Rightarrow> 'o"
  ro_poll :: "waker \<Rightarrow> 'o \<Rightarrow> 's \<Rightarrow> ((unit io_result, unit) polled \<times> 'o) \<times> 's"

record 'o ReadyLane =
  rl_events :: u32
  rl_operation :: "'o option"

definition lane_new :: "u32 \<Rightarrow> 'o ReadyLane" where
  "lane_new events = \<lparr>rl_events = events, rl_operation = None\<rparr>"

definition lane_poll ::
  "('o, 's) ready_op \<Rightarrow> raw_fd \<Rightarrow> waker \<Rightarrow> 'o ReadyLane \<Rightarrow> 's
    \<Rightarrow> ((unit io_result, unit) polled \<times> 'o ReadyLane) \<times> 's" where
  "lane_poll R socket w lane s =
    (let operation = (case rl_operation lane of None \<Rightarrow> ro_new R socket (rl_events lane) | Some x \<Rightarrow> x)
     in (case ro_poll R w operation s of ((result, operation), s) \<Rightarrow>
           ((result, lane\<lparr>rl_operation := (case result of Ready _ \<Rightarrow> None | _ \<Rightarrow> Some operation)\<rparr>), s)))"

text \<open>The borrowed buffer of Tokio: the filled part and the room behind it.\<close>

record ReadBuf =
  rb_filled :: "u8 list"
  rb_room :: nat

definition rb_put :: "u8 list \<Rightarrow> ReadBuf \<Rightarrow> ReadBuf" where
  "rb_put data b = b\<lparr>rb_filled := rb_filled b @ data, rb_room := rb_room b - length data\<rparr>"

fun poll_read ::
  "'y libc_scheme \<Rightarrow> ('s, 'z) socket_calls_scheme \<Rightarrow> ('o, 's) ready_op \<Rightarrow> raw_fd \<Rightarrow> waker \<Rightarrow> nat
    \<Rightarrow> ReadBuf \<times> 'o ReadyLane \<times> 's \<Rightarrow> ((unit io_result, unit) polled \<times> ReadBuf \<times> 'o ReadyLane \<times> 's) option" where
  "poll_read C K R socket w 0 state = None"
| "poll_read C K R socket w (Suc fuel) (buf, lane, s) =
    (if rb_room buf = 0 then Some (Ready (Ok ()), buf, lane, s)
     else case sk_recv K socket (rb_room buf) s of
       (Inr data, s) \<Rightarrow> Some (Ready (Ok ()), rb_put data buf, lane, s)
     | (Inl e, s) \<Rightarrow>
         if error_kind C e = Interrupted then poll_read C K R socket w fuel (buf, lane, s)
         else if error_kind C e \<noteq> WouldBlock then Some (Ready (Err e), buf, lane, s)
         else (case lane_poll R socket w lane s of
            ((Ready (Inr _), lane), s) \<Rightarrow> poll_read C K R socket w fuel (buf, lane, s)
          | ((other, lane), s) \<Rightarrow> Some (other, buf, lane, s)))"

fun poll_write ::
  "'y libc_scheme \<Rightarrow> i32 \<Rightarrow> ('s, 'z) socket_calls_scheme \<Rightarrow> ('o, 's) ready_op \<Rightarrow> raw_fd \<Rightarrow> waker \<Rightarrow> u8 list \<Rightarrow> nat
    \<Rightarrow> 'o ReadyLane \<times> 's \<Rightarrow> ((nat io_result, unit) polled \<times> 'o ReadyLane \<times> 's) option" where
  "poll_write C nosignal K R socket w buf 0 state = None"
| "poll_write C nosignal K R socket w buf (Suc fuel) (lane, s) =
    (case sk_send K socket buf nosignal s of
       (Inr n, s) \<Rightarrow> Some (Ready (Ok n), lane, s)
     | (Inl e, s) \<Rightarrow>
         if error_kind C e = Interrupted then poll_write C nosignal K R socket w buf fuel (lane, s)
         else if error_kind C e \<noteq> WouldBlock then Some (Ready (Err e), lane, s)
         else (case lane_poll R socket w lane s of
            ((Ready (Inr _), lane), s) \<Rightarrow> poll_write C nosignal K R socket w buf fuel (lane, s)
          | ((Ready (Inl e), lane), s) \<Rightarrow> Some (Ready (Err e), lane, s)
          | ((Pending, lane), s) \<Rightarrow> Some (Pending, lane, s)
          | ((Panicked p, lane), s) \<Rightarrow> Some (Panicked p, lane, s)))"

definition poll_flush :: "(unit io_result, unit) polled" where
  "poll_flush = Ready (Ok ())"

definition poll_shutdown :: "('s, 'z) socket_calls_scheme \<Rightarrow> raw_fd \<Rightarrow> 's \<Rightarrow> (unit io_result, unit) polled \<times> 's" where
  "poll_shutdown K socket s = (case sk_shutdown_write K socket s of (r, s) \<Rightarrow> (Ready r, s))"

section \<open>Descriptors\<close>

text \<open>
  A socket layer as far as descriptors go, \<open>opened s\<close> being the open ones: a new descriptor is fresh,
  closing releases it, and nothing else opens or closes one.
\<close>

definition socket_kernel ::
  "('s, 'z) socket_calls_scheme \<Rightarrow> ('a, 's) io_handle \<Rightarrow> ('s \<Rightarrow> raw_fd set) \<Rightarrow> bool" where
  "socket_kernel K io opened \<longleftrightarrow>
     (\<forall>v4 s. case sk_socket K v4 s of (Inr fd, s') \<Rightarrow> fd \<notin> opened s \<and> opened s' = insert fd (opened s)
       | (Inl _, s') \<Rightarrow> opened s' = opened s)
   \<and> (\<forall>l s. case sk_accept4 K l s of (Inr (fd, _), s') \<Rightarrow> fd \<notin> opened s \<and> opened s' = insert fd (opened s)
       | (Inl _, s') \<Rightarrow> opened s' = opened s)
   \<and> (\<forall>fd a s. opened (snd (sk_bind K fd a s)) = opened s)
   \<and> (\<forall>fd n s. opened (snd (sk_listen K fd n s)) = opened s)
   \<and> (\<forall>fd s. opened (sk_close K fd s) = opened s - {fd})
   \<and> (\<forall>entry s. opened (snd (io entry s)) = opened s)"

text \<open>A constructor hands out one new open descriptor, or fails and leaves none behind.\<close>

definition hands_out :: "('s \<Rightarrow> raw_fd set) \<Rightarrow> 's \<Rightarrow> raw_fd io_result \<Rightarrow> 's \<Rightarrow> bool" where
  "hands_out opened s r s' \<longleftrightarrow>
     (case r of Inr fd \<Rightarrow> fd \<notin> opened s \<and> opened s' = insert fd (opened s) | Inl _ \<Rightarrow> opened s' = opened s)"

text \<open>The parts of the contract, call by call.\<close>

lemma hands_outI:
  assumes r: "sk_socket K v4 s = (r, s')" and K: "socket_kernel K io opened"
  shows "hands_out opened s r s'"
proof -
  have "\<forall>v4 s. case sk_socket K v4 s of (Inr fd, s') \<Rightarrow> fd \<notin> opened s \<and> opened s' = insert fd (opened s)
      | (Inl _, s') \<Rightarrow> opened s' = opened s"
    using K unfolding socket_kernel_def by (elim conjE)
  from this [rule_format, of s v4] r show ?thesis by (cases r) (simp_all add: hands_out_def)
qed

lemma accept4_hands_out:
  assumes r: "sk_accept4 K l s = (r, s')" and K: "socket_kernel K io opened"
  shows "hands_out opened s (map_sum id fst r) s'"
proof -
  have "\<forall>l s. case sk_accept4 K l s of (Inr (fd, _), s') \<Rightarrow> fd \<notin> opened s \<and> opened s' = insert fd (opened s)
      | (Inl _, s') \<Rightarrow> opened s' = opened s"
    using K unfolding socket_kernel_def by (elim conjE)
  from this [rule_format, of s l] r show ?thesis by (cases r) (auto simp: hands_out_def split: prod.splits)
qed

lemma socket_kernel_keeps:
  "socket_kernel K io opened \<Longrightarrow> sk_bind K fd a s = (r, s') \<Longrightarrow> opened s' = opened s"
  "socket_kernel K io opened \<Longrightarrow> sk_listen K fd n s = (r, s') \<Longrightarrow> opened s' = opened s"
  "socket_kernel K io opened \<Longrightarrow> opened (sk_close K fd s) = opened s - {fd}"
  "socket_kernel K io opened \<Longrightarrow> io entry s = (oc, s') \<Longrightarrow> opened s' = opened s"
  unfolding socket_kernel_def by (metis snd_conv)+

lemma hands_out_close:
  "socket_kernel K io opened \<Longrightarrow> hands_out opened s (Ok fd) s1 \<Longrightarrow> opened s2 = opened s1
    \<Longrightarrow> hands_out opened s (Err e) (sk_close K fd s2)"
  by (auto simp: hands_out_def socket_kernel_keeps(3))

lemma await_keeps:
  "socket_kernel K io opened \<Longrightarrow> await_op io entry f g s = (r, s') \<Longrightarrow> opened s' = opened s"
  by (auto simp: await_op_def dest: socket_kernel_keeps(4) split: prod.splits op_outcome.splits)

lemma hands_out_step:
  "hands_out opened s (Err e) s1 \<Longrightarrow> hands_out opened s1 r s2 \<Longrightarrow> hands_out opened s r s2"
  by (cases r) (simp_all add: hands_out_def)

lemma hands_out_from: "opened s1 = opened s \<Longrightarrow> hands_out opened s1 r s2 = hands_out opened s r s2"
  by (cases r) (simp_all add: hands_out_def)

lemma bind_socket_hands_out:
  assumes K: "socket_kernel K io opened" and b: "bind_socket K address s = (r, s')"
  shows "hands_out opened s r s'"
proof -
  obtain x s1 where x: "tcp_socket K address s = (x, s1)" by (rule prod.exhaust)
  note h = hands_outI [OF x [unfolded tcp_socket_def] K]
  show ?thesis
  proof (cases x)
    case (Inl e)
    with b x h show ?thesis by (simp add: bind_socket_def)
  next
    case (Inr fd)
    note close = hands_out_close [OF K h [unfolded Inr]]
    from b x Inr h show ?thesis
      by (auto simp: bind_socket_def socket_kernel_keeps [OF K] intro!: close dest: socket_kernel_keeps(1,2) [OF K]
          split: prod.splits sum.splits) (auto simp: hands_out_def dest: socket_kernel_keeps(1,2) [OF K])
  qed
qed

lemma connect_work_hands_out:
  assumes K: "socket_kernel K io opened" and h: "hands_out opened s (Ok fd) s1"
    and c: "connect_work K io fd address s1 = (r, s')"
  shows "hands_out opened s r s'"
proof -
  obtain x s2 where x: "await_op io (OpConnect fd address) (\<lambda>_ result. map_sum id (\<lambda>_. fd) (cqe_result result)) Inl s1 = (x, s2)"
    by (rule prod.exhaust)
  note o2 = await_keeps [OF K x]
  have "x = Ok fd" if "x = Ok fd'" for fd'
    using x that by (auto simp: await_op_def split: prod.splits op_outcome.splits sum.splits)
      (auto simp: cqe_result_def split: if_splits)
  with c x h o2 show ?thesis
    by (cases x) (auto simp: connect_work_def hands_out_def socket_kernel_keeps(3) [OF K])
qed

lemma connect_loop_hands_out:
  "socket_kernel K io opened \<Longrightarrow> connect_loop K io addrs failure s = (r, s')
    \<Longrightarrow> (case r of Some x \<Rightarrow> hands_out opened s x s' | None \<Rightarrow> addrs = [] \<and> failure = None)"
proof (induction addrs arbitrary: failure s)
  case Nil
  then show ?case by (cases failure) (auto simp: hands_out_def)
next
  case (Cons address addrs)
  note K = Cons.prems(1)
  obtain x s1 where x: "tcp_socket K address s = (x, s1)" by (rule prod.exhaust)
  note h = hands_outI [OF x [unfolded tcp_socket_def] K]
  have rest: ?case if "connect_loop K io addrs (Some e) s2 = (r, s')" "hands_out opened s (Err e) s2" for e s2
    using Cons.IH [OF K that(1)] that(2) by (auto split: option.splits intro: hands_out_step)
  show ?case
  proof (cases x)
    case (Inl e)
    with Cons.prems x h rest show ?thesis by simp
  next
    case (Inr fd)
    obtain y s2 where y: "connect_work K io fd address s1 = (y, s2)" by (rule prod.exhaust)
    from connect_work_hands_out [OF K h [unfolded Inr] y] Cons.prems x y Inr rest show ?thesis
      by (cases y) auto
  qed
qed

lemma bind_loop_hands_out:
  "socket_kernel K io opened \<Longrightarrow> bind_loop K addrs failure s = (r, s')
    \<Longrightarrow> (case r of Some x \<Rightarrow> hands_out opened s x s' | None \<Rightarrow> addrs = [] \<and> failure = None)"
proof (induction addrs arbitrary: failure s)
  case Nil
  then show ?case by (cases failure) (auto simp: hands_out_def)
next
  case (Cons address addrs)
  note K = Cons.prems(1)
  obtain x s1 where x: "bind_socket K address s = (x, s1)" by (rule prod.exhaust)
  note h = bind_socket_hands_out [OF K x]
  show ?case
  proof (cases x)
    case (Inl e)
    with Cons.prems x have "bind_loop K addrs (Some e) s1 = (r, s')" by simp
    from Cons.IH [OF K this] h Inl show ?thesis by (auto split: option.splits intro: hands_out_step)
  qed (use Cons.prems x h in auto)
qed

lemma accept_loop_hands_out:
  "socket_kernel K io opened \<Longrightarrow> accept_loop C pollin K io listener fuel s = Some (r, s')
    \<Longrightarrow> hands_out opened s (map_sum id fst r) s'"
proof (induction fuel arbitrary: s)
  case (Suc fuel)
  note K = Suc.prems(1)
  obtain x s1 where x: "sk_accept4 K listener s = (x, s1)" by (rule prod.exhaust)
  note h = accept4_hands_out [OF x K]
  have again: "hands_out opened s (map_sum id fst r) s'"
    if "x = Inl e" "opened s2 = opened s1" "accept_loop C pollin K io listener fuel s2 = Some (r, s')" for e s2
  proof -
    have "opened s2 = opened s" using h that(1,2) by (simp add: hands_out_def)
    from Suc.IH [OF K that(3)] show ?thesis by (simp only: hands_out_from [of opened, OF \<open>opened s2 = opened s\<close>])
  qed
  show ?case
  proof (cases x)
    case (Inr p)
    with Suc.prems x h show ?thesis
      by (auto simp: hands_out_def socket_addr_def socket_kernel_keeps(3) [OF K] split: prod.splits option.splits)
  next
    case (Inl e)
    obtain y s2 where y: "poll_work io listener pollin s1 = (y, s2)" by (rule prod.exhaust)
    then have o2: "opened s2 = opened s1" by (auto simp: poll_work_def dest: await_keeps [OF K])
    from Suc.prems x y Inl h o2 again [of e s2] again [of e s1] show ?thesis
      by (cases y; cases r) (auto simp: hands_out_def split: if_splits)
  qed
qed simp

section \<open>Properties\<close>

text \<open>
  C37: no socket leaks: connecting to a list of candidates, binding to one and accepting a connection
  either hand out exactly one descriptor that was not open before, or fail and leave the open
  descriptors as they were, whatever candidates fail on the way; connecting and binding never panic.
\<close>

theorem sockets_not_leaked:
  assumes K: "socket_kernel K io opened"
  shows "(\<exists>r s'. connect_on K io addresses s = (Return r, s') \<and> hands_out opened s r s')
    \<and> (\<exists>r s'. bind_on K running addresses s = (Return r, s') \<and> hands_out opened s r s')
    \<and> (\<forall>r s'. accept_loop C pollin K io listener fuel s = Some (r, s') \<longrightarrow> hands_out opened s (map_sum id fst r) s')"
proof (intro conjI allI impI)
  let ?addrs = "to_socket_addrs addresses"
  have refused: "hands_out opened s (Err e) s" for e by (simp add: hands_out_def)
  obtain x s1 where x: "connect_loop K io ?addrs None s = (x, s1)" by (rule prod.exhaust)
  from connect_loop_hands_out [OF K x] x refused
  show "\<exists>r s'. connect_on K io addresses s = (Return r, s') \<and> hands_out opened s r s'"
    by (cases x; cases "?addrs = []") (auto simp: connect_on_def Let_def)
  obtain y s2 where y: "bind_loop K ?addrs None s = (y, s2)" by (rule prod.exhaust)
  from bind_loop_hands_out [OF K y] y refused
  show "\<exists>r s'. bind_on K running addresses s = (Return r, s') \<and> hands_out opened s r s'"
    by (cases y; cases "?addrs = []") (auto simp: bind_on_def Let_def)
  show "hands_out opened s (map_sum id fst r) s'" if "accept_loop C pollin K io listener fuel s = Some (r, s')" for r s'
    using accept_loop_hands_out [OF K that] .
qed

text \<open>
  A layer with the two descriptors 3 and 4, in which the connection to port 1 is refused.
\<close>

definition sample_open :: "raw_fd list \<Rightarrow> raw_fd io_result \<times> raw_fd list" where
  "sample_open s = (if 3 \<notin> set s then (Ok 3, 3 # s) else if 4 \<notin> set s then (Ok 4, 4 # s) else (Err (OsError 24), s))"

definition sample_sockets :: "raw_fd list socket_calls" where
  "sample_sockets = \<lparr>sk_socket = (\<lambda>_. sample_open), sk_bind = (\<lambda>_ _ s. (Ok (), s)), sk_listen = (\<lambda>_ _ s. (Ok (), s)),
     sk_accept4 = (\<lambda>_ s. case sample_open s of (r, s) \<Rightarrow> (map_sum id (\<lambda>fd. (fd, Some (SocketAddr (IpV4 1) 9))) r, s)),
     sk_recv = (\<lambda>_ _ s. (Ok [], s)), sk_send = (\<lambda>_ _ _ s. (Ok 0, s)), sk_shutdown_write = (\<lambda>_ s. (Ok (), s)),
     sk_local_addr = (\<lambda>_ _. Ok None), sk_peer_addr = (\<lambda>_ _. Ok None), sk_close = (\<lambda>fd. filter (\<lambda>x. x \<noteq> fd))\<rparr>"

definition sample_connects :: "(SocketAddr, raw_fd list) io_handle" where
  "sample_connects entry s = (OpDone (case entry of OpConnect _ (SocketAddr _ port) \<Rightarrow> if port = 1 then - 111 else 0 | _ \<Rightarrow> 0) [], s)"

lemma sample_socket_kernel: "socket_kernel sample_sockets sample_connects set"
  unfolding socket_kernel_def sample_sockets_def sample_connects_def sample_open_def
  by (auto split: if_splits prod.splits sum.splits)

theorem sockets_not_leaked_witness:
  "\<exists>s'. connect_on sample_sockets sample_connects
      (AddrSlice [SocketAddr (IpV4 1) 1, SocketAddr (IpV4 1) 2]) [4] = (Return (Ok 3), s') \<and> set s' = {3, 4}"
proof -
  let ?a = "AddrSlice [SocketAddr (IpV4 1) 1, SocketAddr (IpV4 1) 2]"
  have e: "connect_on sample_sockets sample_connects ?a [4] = (Return (Ok 3), [3, 4])"
    by (simp add: connect_on_def tcp_socket_def connect_work_def await_op_def sample_sockets_def sample_connects_def
        sample_open_def cqe_result_def word_sless_alt)
  from sockets_not_leaked [OF sample_socket_kernel, of ?a "[4]"] e show ?thesis
    by (auto simp: hands_out_def)
qed

end
