(* ===== verification/Io_Works.thy ===== *)
theory Io_Works
  imports File_Io Tcp_Net Uring_Results
begin

text \<open>
  The operations of \<open>src/fs.rs\<close> and \<open>src/net.rs\<close> on the ring driver of \<open>src/io_uring.rs\<close>: the eight
  implementations of the trait \<open>OpWork\<close>, the erased handler that the driver sees, and what a task gets
  that awaits one of them. The methods of files and streams are stated over an I/O handle, a function
  that gives the outcome of an operation; here that handle is the driver, in every interleaving.

  A buffer is memory that the kernel writes while the operation is under way. A work comes with the
  address \<open>a\<close> of its allocation; \<open>place a\<close> builds the entry that points there, and \<open>stored a entry r\<close> is
  what the kernel has put there when it reports the result \<open>r\<close> of that entry. Both are parameters.
\<close>

section \<open>The implementations of \<open>OpWork\<close>\<close>

text \<open>The opcodes of the \<open>io-uring\<close> crate.\<close>

record io_opcodes =
  OP_OPENAT :: u8
  OP_READ :: u8
  OP_WRITE :: u8
  OP_FSYNC :: u8
  OP_CONNECT :: u8
  OP_RECV :: u8
  OP_SEND :: u8
  OP_POLL_ADD :: u8

record OpenWork =
  nw_path :: "u8 list"
  nw_flags :: i32
  nw_mode :: u32

record SyncWork =
  yw_fd :: raw_fd
  yw_data_only :: bool

record ConnectWork =
  kw_socket :: raw_fd
  kw_address :: SocketAddr

record PollWork =
  pw_socket :: raw_fd
  pw_events :: u32

definition open_ops :: "io_opcodes \<Rightarrow> ('a io_op \<Rightarrow> 's) \<Rightarrow> (OpenWork, 's, raw_fd io_result) op_work" where
  "open_ops C place = \<lparr>ow_opcode = (\<lambda>_. OP_OPENAT C), ow_entry = (\<lambda>w. place (OpOpenAt (nw_path w) (nw_flags w) (nw_mode w))),
     ow_complete = (\<lambda>_. open_complete), ow_fail = (\<lambda>_. Inl)\<rparr>"

definition read_ops ::
  "io_opcodes \<Rightarrow> ('a io_op \<Rightarrow> 's) \<Rightarrow> ('a io_op \<Rightarrow> i32 \<Rightarrow> u8 list) \<Rightarrow> (ReadWork, 's, nat io_result \<times> io_buf) op_work" where
  "read_ops C place stored = \<lparr>ow_opcode = (\<lambda>_. OP_READ C), ow_entry = (\<lambda>w. place (read_entry w)),
     ow_complete = (\<lambda>w r. read_complete (read_stored (stored (read_entry w) r) w) r), ow_fail = read_fail\<rparr>"

definition write_ops :: "io_opcodes \<Rightarrow> ('a io_op \<Rightarrow> 's) \<Rightarrow> (WriteWork, 's, nat io_result \<times> io_buf) op_work" where
  "write_ops C place = \<lparr>ow_opcode = (\<lambda>_. OP_WRITE C), ow_entry = (\<lambda>w. place (write_entry w)),
     ow_complete = write_complete, ow_fail = write_fail\<rparr>"

definition sync_ops :: "io_opcodes \<Rightarrow> ('a io_op \<Rightarrow> 's) \<Rightarrow> (SyncWork, 's, unit io_result) op_work" where
  "sync_ops C place = \<lparr>ow_opcode = (\<lambda>_. OP_FSYNC C), ow_entry = (\<lambda>w. place (OpFsync (yw_fd w) (yw_data_only w))),
     ow_complete = (\<lambda>_ r. map_sum id (\<lambda>_. ()) (cqe_result r)), ow_fail = (\<lambda>_. Inl)\<rparr>"

definition connect_ops :: "io_opcodes \<Rightarrow> (SocketAddr io_op \<Rightarrow> 's) \<Rightarrow> (ConnectWork, 's, raw_fd io_result) op_work" where
  "connect_ops C place = \<lparr>ow_opcode = (\<lambda>_. OP_CONNECT C), ow_entry = (\<lambda>w. place (OpConnect (kw_socket w) (kw_address w))),
     ow_complete = (\<lambda>w r. map_sum id (\<lambda>_. kw_socket w) (cqe_result r)), ow_fail = (\<lambda>_. Inl)\<rparr>"

definition recv_ops ::
  "io_opcodes \<Rightarrow> ('a io_op \<Rightarrow> 's) \<Rightarrow> ('a io_op \<Rightarrow> i32 \<Rightarrow> u8 list) \<Rightarrow> (RecvWork, 's, nat io_result \<times> io_buf) op_work" where
  "recv_ops C place stored = \<lparr>ow_opcode = (\<lambda>_. OP_RECV C), ow_entry = (\<lambda>w. place (recv_entry w)),
     ow_complete = (\<lambda>w r. recv_complete (recv_stored (stored (recv_entry w) r) w) r), ow_fail = recv_fail\<rparr>"

definition send_ops :: "io_opcodes \<Rightarrow> i32 \<Rightarrow> ('a io_op \<Rightarrow> 's) \<Rightarrow> (SendWork, 's, nat io_result \<times> io_buf) op_work" where
  "send_ops C nosignal place = \<lparr>ow_opcode = (\<lambda>_. OP_SEND C), ow_entry = (\<lambda>w. place (send_entry nosignal w)),
     ow_complete = send_complete, ow_fail = send_fail\<rparr>"

definition poll_ops :: "io_opcodes \<Rightarrow> ('a io_op \<Rightarrow> 's) \<Rightarrow> (PollWork, 's, unit io_result) op_work" where
  "poll_ops C place = \<lparr>ow_opcode = (\<lambda>_. OP_POLL_ADD C), ow_entry = (\<lambda>w. place (OpPollAdd (pw_socket w) (pw_events w))),
     ow_complete = (\<lambda>_. poll_complete), ow_fail = (\<lambda>_. Inl)\<rparr>"

section \<open>The erased handler\<close>

datatype io_work =
    WOpen OpenWork | WRead ReadWork | WWrite WriteWork | WSync SyncWork
  | WConnect ConnectWork | WRecv RecvWork | WSend SendWork | WPoll PollWork

datatype io_output = OutFd "raw_fd io_result" | OutUnit "unit io_result" | OutBuf "nat io_result \<times> io_buf"

text \<open>
  The trait object \<open>dyn OwnedHandler\<close>, before its result is stored and published. The driver does not
  know the type of a result, the future does.
\<close>

record 's OwnedHandler =
  oh_opcode :: u8
  oh_entry :: 's
  oh_complete :: "i32 \<Rightarrow> io_output"
  oh_fail :: "io_error \<Rightarrow> io_output"

definition erase :: "('w, 's, 'r) op_work \<Rightarrow> ('r \<Rightarrow> io_output) \<Rightarrow> 'w \<Rightarrow> 's OwnedHandler" where
  "erase W out w = \<lparr>oh_opcode = ow_opcode W w, oh_entry = ow_entry W w,
     oh_complete = (\<lambda>r. out (ow_complete W w r)), oh_fail = (\<lambda>e. out (ow_fail W w e))\<rparr>"

fun owned_handler ::
  "io_opcodes \<Rightarrow> i32 \<Rightarrow> (SocketAddr io_op \<Rightarrow> 's) \<Rightarrow> (SocketAddr io_op \<Rightarrow> i32 \<Rightarrow> u8 list) \<Rightarrow> io_work \<Rightarrow> 's OwnedHandler" where
  "owned_handler C nosignal place stored (WOpen w) = erase (open_ops C place) OutFd w"
| "owned_handler C nosignal place stored (WRead w) = erase (read_ops C place stored) OutBuf w"
| "owned_handler C nosignal place stored (WWrite w) = erase (write_ops C place) OutBuf w"
| "owned_handler C nosignal place stored (WSync w) = erase (sync_ops C place) OutUnit w"
| "owned_handler C nosignal place stored (WConnect w) = erase (connect_ops C place) OutFd w"
| "owned_handler C nosignal place stored (WRecv w) = erase (recv_ops C place stored) OutBuf w"
| "owned_handler C nosignal place stored (WSend w) = erase (send_ops C nosignal place) OutBuf w"
| "owned_handler C nosignal place stored (WPoll w) = erase (poll_ops C place) OutUnit w"

definition io_works ::
  "io_opcodes \<Rightarrow> i32 \<Rightarrow> (u64 \<Rightarrow> SocketAddr io_op \<Rightarrow> 's) \<Rightarrow> (u64 \<Rightarrow> SocketAddr io_op \<Rightarrow> i32 \<Rightarrow> u8 list)
    \<Rightarrow> (u64 \<times> io_work, 's, io_output) op_work" where
  "io_works C nosignal place stored =
    (let h = (\<lambda>(a, w). owned_handler C nosignal (place a) (stored a) w) in
     \<lparr>ow_opcode = (\<lambda>w. oh_opcode (h w)), ow_entry = (\<lambda>w. oh_entry (h w)),
      ow_complete = (\<lambda>w. oh_complete (h w)), ow_fail = (\<lambda>w. oh_fail (h w))\<rparr>)"

section \<open>The methods that submit the works\<close>

text \<open>
  The method whose awaited operation a work is. A file's append flag does not matter below \<open>read_at\<close>
  and \<open>write_at\<close>.
\<close>

fun work_method ::
  "('s, 'z) socket_calls_scheme \<Rightarrow> i32 \<Rightarrow> (SocketAddr, 's) io_handle \<Rightarrow> io_work \<Rightarrow> 's \<Rightarrow> io_output" where
  "work_method K nosignal io (WOpen w) s = OutFd (fst (open_work io (nw_path w) (nw_flags w) (nw_mode w) s))"
| "work_method K nosignal io (WRead w) s =
    OutBuf (fst (read_at_offset io \<lparr>fl_fd = rw_fd w, fl_append = False\<rparr> (rw_buf w) (rw_file_offset w) (rw_buffer_offset w) s))"
| "work_method K nosignal io (WWrite w) s =
    OutBuf (fst (write_at_offset io \<lparr>fl_fd = ww_fd w, fl_append = False\<rparr> (ww_buf w) (ww_file_offset w) (ww_buffer_offset w) s))"
| "work_method K nosignal io (WSync w) s = OutUnit (fst (sync_work io (yw_fd w) (yw_data_only w) s))"
| "work_method K nosignal io (WConnect w) s = OutFd (fst (connect_work K io (kw_socket w) (kw_address w) s))"
| "work_method K nosignal io (WRecv w) s = OutBuf (fst (recv_offset io (vw_socket w) (vw_buf w) (vw_buffer_offset w) s))"
| "work_method K nosignal io (WSend w) s = OutBuf (fst (send_offset nosignal io (sw_socket w) (sw_buf w) (sw_buffer_offset w) s))"
| "work_method K nosignal io (WPoll w) s = OutUnit (fst (poll_work io (pw_socket w) (pw_events w) s))"

fun work_entry :: "i32 \<Rightarrow> io_work \<Rightarrow> SocketAddr io_op" where
  "work_entry nosignal (WOpen w) = OpOpenAt (nw_path w) (nw_flags w) (nw_mode w)"
| "work_entry nosignal (WRead w) = read_entry w"
| "work_entry nosignal (WWrite w) = write_entry w"
| "work_entry nosignal (WSync w) = OpFsync (yw_fd w) (yw_data_only w)"
| "work_entry nosignal (WConnect w) = OpConnect (kw_socket w) (kw_address w)"
| "work_entry nosignal (WRecv w) = recv_entry w"
| "work_entry nosignal (WSend w) = send_entry nosignal w"
| "work_entry nosignal (WPoll w) = OpPollAdd (pw_socket w) (pw_events w)"

text \<open>What the methods make sure of before they build a transfer: it covers the rest of the buffer.\<close>

fun transfer_formed :: "io_work \<Rightarrow> bool" where
  "transfer_formed (WRead w) \<longleftrightarrow>
     rw_remaining w = saturating_sub (bytes_total (rw_buf w)) (rw_buffer_offset w) \<and> rw_remaining w \<le> u32_max"
| "transfer_formed (WWrite w) \<longleftrightarrow>
     ww_remaining w = saturating_sub (bytes_init (ww_buf w)) (ww_buffer_offset w) \<and> ww_remaining w \<le> u32_max"
| "transfer_formed (WRecv w) \<longleftrightarrow>
     vw_remaining w = saturating_sub (bytes_total (vw_buf w)) (vw_buffer_offset w) \<and> vw_remaining w \<le> u32_max"
| "transfer_formed (WSend w) \<longleftrightarrow>
     sw_remaining w = saturating_sub (bytes_init (sw_buf w)) (sw_buffer_offset w) \<and> sw_remaining w \<le> u32_max"
| "transfer_formed _ \<longleftrightarrow> True"

lemmas ops_defs = open_ops_def read_ops_def write_ops_def sync_ops_def connect_ops_def recv_ops_def send_ops_def poll_ops_def

text \<open>The outcome of one operation, as a handle that knows nothing else.\<close>

abbreviation one_shot :: "op_outcome \<Rightarrow> ('a, 's) io_handle" where
  "one_shot outcome \<equiv> (\<lambda>_ s. (outcome, s))"

lemma io_works_simps [simp]:
  "ow_opcode (io_works C nosignal place stored) (a, w) = oh_opcode (owned_handler C nosignal (place a) (stored a) w)"
  "ow_entry (io_works C nosignal place stored) (a, w) = oh_entry (owned_handler C nosignal (place a) (stored a) w)"
  "ow_complete (io_works C nosignal place stored) (a, w) = oh_complete (owned_handler C nosignal (place a) (stored a) w)"
  "ow_fail (io_works C nosignal place stored) (a, w) = oh_fail (owned_handler C nosignal (place a) (stored a) w)"
  by (simp_all add: io_works_def Let_def)

lemma handler_entry: "oh_entry (owned_handler C nosignal place stored w) = place (work_entry nosignal w)"
  by (cases w) (simp_all add: erase_def ops_defs)

text \<open>The work that a method builds is the work.\<close>

lemma rebuilt:
  "rw_remaining r = n \<Longrightarrow> \<lparr>rw_fd = rw_fd r, rw_buf = rw_buf r, rw_file_offset = rw_file_offset r,
     rw_buffer_offset = rw_buffer_offset r, rw_remaining = n\<rparr> = r"
  "ww_remaining w = n \<Longrightarrow> \<lparr>ww_fd = ww_fd w, ww_buf = ww_buf w, ww_file_offset = ww_file_offset w,
     ww_buffer_offset = ww_buffer_offset w, ww_remaining = n\<rparr> = w"
  "vw_remaining v = n \<Longrightarrow> \<lparr>vw_socket = vw_socket v, vw_buf = vw_buf v, vw_buffer_offset = vw_buffer_offset v,
     vw_remaining = n\<rparr> = v"
  "sw_remaining s = n \<Longrightarrow> \<lparr>sw_socket = sw_socket s, sw_buf = sw_buf s, sw_buffer_offset = sw_buffer_offset s,
     sw_remaining = n\<rparr> = s"
  by auto

lemmas method_defs = erase_def ops_defs open_work_def read_at_offset_def write_at_offset_def sync_work_def
  connect_work_def recv_offset_def send_offset_def poll_work_def await_op_def read_fail_def write_fail_def
  recv_fail_def send_fail_def rebuilt Let_def

text \<open>A method over a handle with one outcome gives what the handler makes of that outcome.\<close>

lemma method_completes:
  "transfer_formed w \<Longrightarrow> work_method K nosignal (one_shot (OpDone r (stored (work_entry nosignal w) r))) w s
    = oh_complete (owned_handler C nosignal place stored w) r"
  by (cases w) (auto simp: method_defs split: sum.split)

lemma method_fails:
  "transfer_formed w \<Longrightarrow> work_method K nosignal (one_shot (OpFailed e)) w s
    = oh_fail (owned_handler C nosignal place stored w) e"
  by (cases w) (auto simp: method_defs split: sum.split)

section \<open>Buffers come back\<close>

fun work_buffer :: "io_work \<Rightarrow> (io_buf \<times> nat) option" where
  "work_buffer (WRead w) = Some (rw_buf w, rw_buffer_offset w)"
| "work_buffer (WWrite w) = Some (ww_buf w, ww_buffer_offset w)"
| "work_buffer (WRecv w) = Some (vw_buf w, vw_buffer_offset w)"
| "work_buffer (WSend w) = Some (sw_buf w, sw_buffer_offset w)"
| "work_buffer _ = None"

text \<open>The same allocation, sound, unchanged before the offset, and published as far as the count says.\<close>

definition buffer_back :: "io_buf \<Rightarrow> nat \<Rightarrow> nat io_result \<times> io_buf \<Rightarrow> bool" where
  "buffer_back b k = (\<lambda>(x, b'). buf_sound b' \<and> bytes_total b' = bytes_total b \<and> bf_kind b' = bf_kind b
     \<and> take k (bf_cells b') = take k (bf_cells b) \<and> k \<le> bytes_init b' \<and> (\<forall>n. x = Ok n \<longrightarrow> k + n \<le> bytes_init b'))"

lemma fill_back:
  assumes b: "buf_sound b" "k \<le> bytes_init b" and data: "length data \<le> bytes_total b - k"
    and honest: "\<not> r <s 0 \<Longrightarrow> unat r \<le> bytes_total b - k \<Longrightarrow> unat r \<le> length data"
  shows "buffer_back b k (fill_complete msg k (bytes_total b - k) (store_bytes k data b) r)"
proof -
  obtain x b' where c: "fill_complete msg k (bytes_total b - k) (store_bytes k data b) r = (x, b')" by (rule prod.exhaust)
  have "filled_to b k b" using b by (simp add: filled_to_def)
  note f = fill_complete_filled [OF this data honest c]
  have "k \<le> length (bf_cells b)" using b by (simp add: buf_sound_def bytes_total_def)
  moreover have "bf_cells b' = bf_cells (store_bytes k data b)"
    using c by (auto simp: fill_complete_def split: sum.splits if_splits)
  ultimately have "take k (bf_cells b') = take k (bf_cells b)" by (simp add: store_bytes_def)
  with f c show ?thesis by (cases x) (auto simp: buffer_back_def filled_to_def)
qed

lemma drain_back:
  "buf_sound b \<Longrightarrow> k \<le> bytes_init b \<Longrightarrow> buffer_back b k (drain_complete msg (bytes_init b - k) b r)"
  by (auto simp: buffer_back_def drain_complete_def split: sum.split)

lemma fail_back: "buf_sound b \<Longrightarrow> k \<le> bytes_init b \<Longrightarrow> buffer_back b k (Err e, b)"
  by (simp add: buffer_back_def)

text \<open>A kernel that reports \<open>r\<close> for an entry has stored what it reports, and no more than was announced.\<close>

definition stores_honestly :: "('a io_op \<Rightarrow> i32 \<Rightarrow> u8 list) \<Rightarrow> bool" where
  "stores_honestly stored \<longleftrightarrow> (\<forall>r. fills_honestly (\<lambda>entry (s :: unit). (OpDone r (stored entry r), s)))"

lemma stores_honestlyD:
  assumes "stores_honestly stored" "n \<le> u32_max" "entry = OpRead fd (word_of_nat n) off \<or> entry = OpRecv fd (word_of_nat n)"
  shows "length (stored entry r) \<le> n" "\<not> r <s 0 \<Longrightarrow> unat r \<le> n \<Longrightarrow> unat r \<le> length (stored entry r)"
proof -
  from assms(1) have "fills_honestly (\<lambda>entry (s :: unit). (OpDone r (stored entry r), s))" by (simp add: stores_honestly_def)
  note this [unfolded fills_honestly_def, rule_format, of entry "()" r "stored entry r" "()"]
  with assms(3) have "length (stored entry r) \<le> n \<and> (\<not> r <s 0 \<longrightarrow> unat r \<le> n \<longrightarrow> unat r \<le> length (stored entry r))"
    by (auto simp: unat_u32_le [OF assms(2)])
  then show "length (stored entry r) \<le> n" "\<not> r <s 0 \<Longrightarrow> unat r \<le> n \<Longrightarrow> unat r \<le> length (stored entry r)" by auto
qed

lemma handler_buffer_back:
  assumes b: "work_buffer w = Some (b, k)" "buf_sound b" "k \<le> bytes_init b" and w: "transfer_formed w"
    and honest: "stores_honestly stored"
  shows "\<exists>y. oh_complete (owned_handler C nosignal place stored w) r = OutBuf y \<and> buffer_back b k y"
    and "\<exists>y. oh_fail (owned_handler C nosignal place stored w) e = OutBuf y \<and> buffer_back b k y"
proof -
  have tot: "k \<le> bytes_total b" using b by (simp add: buf_sound_def)
  show "\<exists>y. oh_complete (owned_handler C nosignal place stored w) r = OutBuf y \<and> buffer_back b k y"
  proof (cases w)
    case (WRead x)
    with b w tot have rem: "rw_remaining x = bytes_total b - k" "rw_remaining x \<le> u32_max" by (auto simp: saturating_sub_def)
    note h = stores_honestlyD [OF honest rem(2), of "read_entry x" "rw_fd x" "rw_file_offset x" r]
    from fill_back [OF b(2,3), of "stored (read_entry x) r" r] h rem WRead b show ?thesis
      by (simp add: erase_def read_ops_def read_complete_def read_stored_def read_entry_def)
  next
    case (WRecv x)
    with b w tot have rem: "vw_remaining x = bytes_total b - k" "vw_remaining x \<le> u32_max" by (auto simp: saturating_sub_def)
    note h = stores_honestlyD [OF honest rem(2), of "recv_entry x" "vw_socket x" _ r]
    from fill_back [OF b(2,3), of "stored (recv_entry x) r" r] h rem WRecv b show ?thesis
      by (simp add: erase_def recv_ops_def recv_complete_def recv_stored_def recv_entry_def)
  qed (use b w drain_back [OF b(2,3)] in \<open>auto simp: erase_def write_ops_def write_complete_def send_ops_def send_complete_def
      saturating_sub_def\<close>)
  show "\<exists>y. oh_fail (owned_handler C nosignal place stored w) e = OutBuf y \<and> buffer_back b k y"
    using b fail_back [OF b(2,3)]
    by (cases w) (auto simp: erase_def ops_defs read_fail_def write_fail_def recv_fail_def send_fail_def)
qed

section \<open>A read on a sample driver\<close>

datatype placed = Placed u64 "SocketAddr io_op" | PlacedCancel u64

definition sample_stored :: "SocketAddr io_op \<Rightarrow> i32 \<Rightarrow> u8 list" where
  "sample_stored entry r = (case cqe_result r of
       Inl _ \<Rightarrow> []
     | Inr n \<Rightarrow> (case entry of OpRead fd len off \<Rightarrow> replicate (min n (unat len)) 65
                | OpRecv fd len \<Rightarrow> replicate (min n (unat len)) 65 | _ \<Rightarrow> []))"

lemma sample_stored_honest: "stores_honestly sample_stored"
  by (auto simp: stores_honestly_def fills_honestly_def sample_stored_def cqe_result_def split: io_op.split)

definition sample_opcodes :: io_opcodes where
  "sample_opcodes = \<lparr>OP_OPENAT = 0, OP_READ = 1, OP_WRITE = 2, OP_FSYNC = 3, OP_CONNECT = 4, OP_RECV = 5, OP_SEND = 6,
     OP_POLL_ADD = 7\<rparr>"

definition works_ring :: "(placed sqe list, placed, unit) ring_lib" where
  "works_ring = \<lparr>rl_push = (\<lambda>e q. if length q < 4 then Some (q @ [e]) else None),
     rl_submit = (\<lambda>q. (Ok (length q), [])), rl_reap = (\<lambda>n q. ([], True, q)), rl_more = (\<lambda>f. f = 2),
     rl_async_cancel = PlacedCancel, rl_alloc = (\<lambda>ps. find (\<lambda>p. p \<notin> set ps) [64, 128, 192, 256])\<rparr>"

type_synonym works_queue = "(u64 \<times> io_work) TypedHandler QueuedOwnedOp list"
type_synonym works_world = "(unit, u64 \<times> io_work, placed sqe list, works_queue, io_output) UringWorld"

definition works_env :: "(placed sqe list, placed, unit, works_queue, u64 \<times> io_work, io_output) uring_env" where
  "works_env = \<lparr>ue_libc = ue_libc sample_env, ue_ring = works_ring, ue_queue = list_ubq,
     ue_work = io_works sample_opcodes 16384 Placed (\<lambda>_. sample_stored), ue_supported = replicate 8 True,
     ue_config = ue_config sample_env, ue_nosv = sample_nosv\<rparr>"

lemma works_laws: "alloc_ok (ue_ring works_env)" "ubq_fifo (ue_queue works_env) (\<lambda>u. u)"
  by (auto simp: alloc_ok_def works_env_def works_ring_def ubq_fifo_list split: if_splits)

lemma works_simps [simp]:
  "rl_push works_ring e q = (if length q < 4 then Some (q @ [e]) else None)" "rl_submit works_ring q = (Ok (length q), [])"
  "rl_more works_ring f = (f = 2)" "rl_alloc works_ring ps = find (\<lambda>p. p \<notin> set ps) [64, 128, 192, 256]"
  "ue_ring works_env = works_ring" "ue_queue works_env = list_ubq" "ue_supported works_env = replicate 8 True"
  "ue_work works_env = io_works sample_opcodes 16384 Placed (\<lambda>_. sample_stored)"
  "unat (cf_entries (ue_config works_env)) = 4" "ue_libc works_env = ue_libc sample_env"
  by (simp_all add: works_ring_def works_env_def)

text \<open>Four bytes are read into a new vector at the address 4096; the kernel reports two.\<close>

definition sample_read :: ReadWork where
  "sample_read = \<lparr>rw_fd = 3, rw_buf = vec_with_capacity 4, rw_file_offset = 0, rw_buffer_offset = 0, rw_remaining = 4\<rparr>"

definition read_op :: "(u64 \<times> io_work) TypedHandler QueuedOwnedOp" where
  "read_op = \<lparr>qo_control = 3, qo_handler = \<lparr>th_state = 3, th_work = (4096, WRead sample_read)\<rparr>\<rparr>"

definition works_world :: works_world where
  "works_world = \<lparr>uw_data = driver_data_new, uw_queue = [], uw_ring = Some [], uw_admission = True,
     uw_store = (\<lambda>_. owned_state_new), uw_gate = driver_gate_new, uw_log = [], uw_completed = False\<rparr>"

definition works_start :: "(unit, u64 \<times> io_work, placed sqe list, works_queue, io_output) UringSys" where
  "works_start = \<lparr>us_world = works_world, us_failed = [], us_decided = False, us_admitted = {#}, us_finished = {#}\<rparr>"

definition works_data :: "ContextPhase \<Rightarrow> (unit, u64 \<times> io_work) owned_data" where
  "works_data phase = driver_data_new\<lparr>dd_owned_contexts := [(64, \<lparr>oc_phase = phase, oc_control = 3,
     oc_handler = Some (qo_handler read_op), oc_cancel_queued = False, oc_cancel_seen = False\<rparr>)],
     dd_staged := (if phase = CtxStaged then [StagedOwned 64] else [])\<rparr>"

definition works_done :: "(unit, u64 \<times> io_work, placed sqe list, works_queue, io_output) UringSys" where
  "works_done = works_start\<lparr>us_world := works_world\<lparr>uw_store :=
       snd (handler_complete (ue_work works_env) (qo_handler read_op) 2 (\<lambda>_. owned_state_new))\<rparr>,
     us_admitted := {#qo_handler read_op#}, us_finished := {#qo_handler read_op#}\<rparr>"

lemma works_init: "uring_init works_start (\<lambda>u. u)"
  by (simp add: uring_init_def works_start_def works_world_def)

lemma works_staged:
  "stage_owned works_ring list_ubq (ue_work works_env) (replicate 8 True) (\<lambda>_. owned_state_new) 4 [] ((driver_data_new, [read_op]), [])
    = Return ([], (works_data CtxStaged, []), [\<lparr>sq_user_data = 64, sq_body = Placed 4096 (read_entry sample_read)\<rparr>])"
  by (simp add: eval_nat_numeral next_owned_def driver_data_new_def works_data_def read_op_def Let_def
      owned_state_new_def opcode_supported_def live_pointers_def context_pointer_in_use_def hm_contains_def
      hm_insert_def hm_remove_def erase_def read_ops_def sample_opcodes_def)

lemma works_accepted:
  "submit_staged (ue_libc sample_env) works_ring (works_data CtxStaged, [e]) [] = Return ((works_data CtxSubmitted, []), [])"
  by (simp add: submit_staged_def works_data_def driver_data_new_def accept_one_def accept_owned_def hm_update_def)

lemma works_stage_section:
  "stage_section works_env (\<lambda>_. False) (works_world\<lparr>uw_queue := [read_op]\<rparr>)
    = Return ([], [], works_world\<lparr>uw_data := works_data CtxSubmitted\<rparr>)"
  using works_staged
  by (simp add: stage_section_def works_world_def works_accepted stage_none del: exec_bind_Return_iff)

lemma works_dispatch:
  "dispatch works_env \<lparr>cq_user_data = 64, cq_result = 2, cq_flags = 0, cq_extra = ()\<rparr> [] (works_world\<lparr>uw_data := works_data CtxSubmitted\<rparr>)
    = Return (None, [], us_world works_done)"
  by (simp add: dispatch_def works_done_def works_start_def works_world_def works_data_def driver_data_new_def
      hm_contains_def dispatch_owned_def retire_owned_def hm_remove_def handler_complete_def store_and_publish_def
      control_publish_def option_take_def owned_state_new_def push_waker_def Let_def del: exec_bind_Return_iff)

lemma works_run: "uring_steps works_env works_start works_done"
proof -
  let ?s1 = "works_start\<lparr>us_world := works_world\<lparr>uw_queue := [read_op]\<rparr>, us_admitted := {#qo_handler read_op#}\<rparr>"
  let ?s2 = "?s1\<lparr>us_world := works_world\<lparr>uw_data := works_data CtxSubmitted\<rparr>\<rparr>"
  have "uring_step works_env works_start ?s1"
    using us_enqueue [of works_env works_start read_op "[read_op]"] by (simp add: enqueue_def works_start_def works_world_def)
  moreover have "uring_step works_env ?s1 ?s2"
    using us_stage [of ?s1 works_env "\<lambda>_. False" "[]" "[]"] by (simp add: works_stage_section works_start_def)
  moreover have "uring_step works_env ?s2 works_done"
    using us_dispatch [of works_env _ _ ?s2] works_dispatch
    by (fastforce simp: ended_by_def works_done_def works_start_def works_world_def works_data_def driver_data_new_def hm_contains_def)
  ultimately show ?thesis by (meson rtranclp.rtrancl_into_rtrancl rtranclp.rtrancl_refl)
qed

lemma works_done_simps:
  "us_admitted works_done = {#qo_handler read_op#}" "uw_store (us_world works_start) i = owned_state_new"
  "own_cells (us_admitted works_done)" "th_work (qo_handler read_op) = (4096, WRead sample_read)" "th_state (qo_handler read_op) = 3"
  by (simp_all add: works_done_def works_start_def works_world_def own_cells_def read_op_def)

text \<open>What the task gets back.\<close>

definition read_back :: io_buf where
  "read_back = \<lparr>bf_kind = VecBuf, bf_cells = [Some 65, Some 65, None, None], bf_len = 2\<rparr>"

lemma works_poll:
  "\<exists>st. owned_cell_poll (\<lambda>c. c) (\<lambda>c. c) 8 (uw_store (us_world works_done) 3) = Return (Ready
     (OutBuf (Ok 2, read_back)), st)"
proof -
  let ?c = "uw_store (us_world works_done) 3"
  have two: "cqe_result 2 = Ok 2" using cqe_result_count [of 2] by simp
  then have data: "sample_stored (read_entry sample_read) 2 = [65, 65]"
    by (simp add: sample_stored_def read_entry_def sample_read_def) (simp add: numeral_2_eq_2)
  have room: "vec_with_capacity 4 = \<lparr>bf_kind = VecBuf, bf_cells = [None, None, None, None], bf_len = 0\<rparr>"
    by (simp add: vec_with_capacity_def eval_nat_numeral)
  have "oh_complete (owned_handler sample_opcodes 16384 (Placed 4096) sample_stored (WRead sample_read)) 2
      = OutBuf (Ok 2, read_back)"
    by (simp add: erase_def read_ops_def data read_complete_def read_stored_def)
       (simp add: sample_read_def room fill_complete_def two store_bytes_def set_init_def bytes_init_def read_back_def)
  then have "os_completed ?c" "os_result ?c = Some (OutBuf (Ok 2, read_back))"
    by (auto simp: works_done_def handler_complete_def read_op_def split: prod.splits) (metis snd_conv store_and_publish_simps(2,3))+
  then show ?thesis by (simp add: owned_cell_poll_def)
qed

section \<open>Properties\<close>



text \<open>
  C33: a task never loses its buffer to the driver and never sees another's. If the kernel stores what it
  reports and no more than announced, then in every interleaving the value of an awaited transfer holds
  the buffer that was submitted: the same allocation, sound, unchanged before the transfer's offset,
  published at least as far as the returned count, also when the operation failed or was cancelled.
\<close>

theorem awaited_buffer_comes_back:
  assumes "alloc_ok (ue_ring E)" "ubq_fifo (ue_queue E) \<alpha>" "ue_work E = io_works C nosignal place stored"
    and "uring_init s \<alpha>" "\<And>i. uw_store (us_world s) i = owned_state_new" "uring_steps E s t"
    and "own_cells (us_admitted t)" "h \<in># us_admitted t" "th_work h = (a, w)" "transfer_formed w"
    and "owned_cell_poll (\<lambda>c. c) (\<lambda>c. c) k (uw_store (us_world t) (th_state h)) = Return (Ready v, st)"
    and "stores_honestly (stored a)" "work_buffer w = Some (b, offset)" "buf_sound b" "offset \<le> bytes_init b"
  shows "\<exists>x b'. v = OutBuf (x, b') \<and> buf_sound b' \<and> bytes_total b' = bytes_total b \<and> bf_kind b' = bf_kind b
    \<and> take offset (bf_cells b') = take offset (bf_cells b) \<and> (\<forall>n. x = Ok n \<longrightarrow> offset + n \<le> bytes_init b')"
proof -
  from awaited_result_is_own [OF assms(1,2,4-8,11)] have "own_result (ue_libc E) (ue_work E) h v" by blast
  then consider r where "v = oh_complete (owned_handler C nosignal (place a) (stored a) w) r"
    | e where "v = oh_fail (owned_handler C nosignal (place a) (stored a) w) e"
    by (auto simp: own_result_def assms(3,9))
  then obtain y where "v = OutBuf y" "buffer_back b offset y"
    by cases (use handler_buffer_back [OF assms(13-15,10,12), of C nosignal "place a"] in metis)+
  then show ?thesis by (cases y) (auto simp: buffer_back_def)
qed

theorem awaited_buffer_comes_back_witness:
  "\<exists>x b' st. owned_cell_poll (\<lambda>c. c) (\<lambda>c. c) 8 (uw_store (us_world works_done) 3) = Return (Ready (OutBuf (x, b')), st)
    \<and> buf_sound b' \<and> bytes_total b' = 4 \<and> x = Ok 2 \<and> 2 \<le> bytes_init b'"
proof -
  from works_poll obtain st where p: "owned_cell_poll (\<lambda>c. c) (\<lambda>c. c) 8 (uw_store (us_world works_done) 3) = Return (Ready
     (OutBuf (Ok 2, read_back)), st)" by blast
  have w: "transfer_formed (WRead sample_read)" "work_buffer (WRead sample_read) = Some (vec_with_capacity 4, 0)"
    by (simp_all add: sample_read_def saturating_sub_def u32_max_def)
  from awaited_buffer_comes_back [OF works_laws works_simps(8) works_init works_done_simps(2) works_run works_done_simps(3) _
      works_done_simps(4) w(1), of 8 _ st, OF _ _ sample_stored_honest w(2)] p works_done_simps show ?thesis by fastforce
qed

end
