(* ===== verification/Framing.thy ===== *)
theory Framing
  imports Tcp_Net
begin

text \<open>
  The message framing of \<open>examples/net_io_poc.rs\<close> over TCP streams: a length header of four bytes,
  most significant first, and a payload of at most 64 KiB, sent and received with the loops of
  \<open>TcpStream\<close> under a timeout; the connection handler, the server and the joining of tasks.
\<close>

section \<open>Frame headers\<close>

definition FRAME_HEADER_LEN :: nat where
  "FRAME_HEADER_LEN = 4"

definition MAX_FRAME_SIZE :: nat where
  "MAX_FRAME_SIZE = 64 * 1024"

text \<open>\<open>u32::to_be_bytes\<close> and its inverse, of the standard library.\<close>

definition to_be_bytes :: "u32 \<Rightarrow> u8 list" where
  "to_be_bytes x = [ucast (drop_bit 24 x), ucast (drop_bit 16 x), ucast (drop_bit 8 x), ucast x]"

definition from_be_bytes :: "u8 list \<Rightarrow> u32" where
  "from_be_bytes bytes = foldl (\<lambda>x b. push_bit 8 x + ucast b) 0 bytes"

definition encode_frame_len :: "nat \<Rightarrow> u8 list io_result" where
  "encode_frame_len payload_len =
    (if payload_len > MAX_FRAME_SIZE then
       Err (IoError InvalidInput (''frame length '' @ show_nat payload_len @ '' exceeds the ''
         @ show_nat MAX_FRAME_SIZE @ ''-byte limit''))
     else if payload_len > u32_max then Err (IoError InvalidInput ''frame length does not fit u32'')
     else Ok (to_be_bytes (word_of_nat payload_len)))"

definition decode_frame_len :: "u8 list \<Rightarrow> nat io_result" where
  "decode_frame_len header =
    (let payload_len = unat (from_be_bytes header) in
     if payload_len > MAX_FRAME_SIZE then
       Err (IoError InvalidData (''peer frame length '' @ show_nat payload_len @ '' exceeds the ''
         @ show_nat MAX_FRAME_SIZE @ ''-byte limit''))
     else Ok payload_len)"

section \<open>Timed operations\<close>

text \<open>
  \<open>expires what s\<close> is \<open>Some\<close> of the state left behind when the timeout of the operation abandons it.
\<close>

type_synonym 's expiry = "string \<Rightarrow> 's \<Rightarrow> 's option"

definition timed_out :: "string \<Rightarrow> io_error" where
  "timed_out operation = IoError TimedOut (operation @ '' exceeded 5s'')"

definition timed :: "'s expiry \<Rightarrow> string \<Rightarrow> ('s \<Rightarrow> 'r \<times> 's) \<Rightarrow> (io_error \<Rightarrow> 'r) \<Rightarrow> 's \<Rightarrow> 'r \<times> 's" where
  "timed expires what operation failed s =
    (case expires what s of Some s \<Rightarrow> (failed (timed_out what), s) | None \<Rightarrow> operation s)"

definition timed_connect ::
  "'s expiry \<Rightarrow> ('s, 'z) socket_calls_scheme \<Rightarrow> (SocketAddr, 's) io_handle \<Rightarrow> SocketAddr \<Rightarrow> 's
    \<Rightarrow> raw_fd io_result exec \<times> 's" where
  "timed_connect expires K io address =
    timed expires ''connect'' (connect_on K io (AddrOne address)) (\<lambda>e. Return (Err e))"

definition timed_accept ::
  "'s expiry \<Rightarrow> 'y libc_scheme \<Rightarrow> u32 \<Rightarrow> ('s, 'z) socket_calls_scheme \<Rightarrow> ('a, 's) io_handle \<Rightarrow> raw_fd \<Rightarrow> nat \<Rightarrow> 's
    \<Rightarrow> ((raw_fd \<times> SocketAddr) io_result \<times> 's) option" where
  "timed_accept expires C pollin K io listener fuel s =
    (case expires ''accept'' s of
       Some s \<Rightarrow> Some (Err (timed_out ''accept''), s)
     | None \<Rightarrow> accept_loop C pollin K io listener fuel s)"

definition timed_send_all ::
  "'s expiry \<Rightarrow> i32 \<Rightarrow> ('a, 's) io_handle \<Rightarrow> raw_fd \<Rightarrow> io_buf \<Rightarrow> 's \<Rightarrow> unit io_result \<times> 's" where
  "timed_send_all expires nosignal io stream buffer =
    timed expires ''send'' (\<lambda>s. case send_all nosignal io stream buffer s of ((r, _), s) \<Rightarrow> (r, s)) Inl"

definition timed_recv_exact ::
  "'s expiry \<Rightarrow> ('a, 's) io_handle \<Rightarrow> raw_fd \<Rightarrow> io_buf \<Rightarrow> 's \<Rightarrow> io_buf io_result \<times> 's" where
  "timed_recv_exact expires io stream buffer =
    timed expires ''receive'' (\<lambda>s. case recv_exact io stream buffer s of
        ((Inl e, _), s) \<Rightarrow> (Err e, s) | ((Inr _, buffer), s) \<Rightarrow> (Ok buffer, s)) Inl"

section \<open>Frames\<close>

definition send_frame ::
  "'s expiry \<Rightarrow> i32 \<Rightarrow> ('a, 's) io_handle \<Rightarrow> raw_fd \<Rightarrow> u8 list \<Rightarrow> 's \<Rightarrow> unit io_result \<times> 's" where
  "send_frame expires nosignal io stream payload s =
    (case encode_frame_len (length payload) of
       Inl e \<Rightarrow> (Err e, s)
     | Inr header \<Rightarrow>
         (case timed_send_all expires nosignal io stream (vec_of header) s of
            (Inl e, s) \<Rightarrow> (Err e, s)
          | (Inr _, s) \<Rightarrow> timed_send_all expires nosignal io stream (vec_of payload) s))"

definition recv_frame ::
  "'s expiry \<Rightarrow> ('a, 's) io_handle \<Rightarrow> raw_fd \<Rightarrow> 's \<Rightarrow> u8 list io_result \<times> 's" where
  "recv_frame expires io stream s =
    (case timed_recv_exact expires io stream (vec_with_capacity FRAME_HEADER_LEN) s of
       (Inl e, s) \<Rightarrow> (Err e, s)
     | (Inr header, s) \<Rightarrow>
         if length (buf_bytes header) \<noteq> FRAME_HEADER_LEN then
           (Err (IoError InvalidData (''received '' @ show_nat (length (buf_bytes header)) @ '' header bytes'')), s)
         else (case decode_frame_len (buf_bytes header) of
            Inl e \<Rightarrow> (Err e, s)
          | Inr payload_len \<Rightarrow>
              (case timed_recv_exact expires io stream (vec_with_capacity payload_len) s of
                 (r, s) \<Rightarrow> (map_sum id buf_bytes r, s))))"

definition ascii_upper :: "u8 \<Rightarrow> u8" where
  "ascii_upper b = (if 97 \<le> b \<and> b \<le> 122 then b - 32 else b)"

definition handle_connection ::
  "'s expiry \<Rightarrow> i32 \<Rightarrow> ('a, 's) io_handle \<Rightarrow> raw_fd \<Rightarrow> 's \<Rightarrow> nat io_result \<times> 's" where
  "handle_connection expires nosignal io stream s =
    (case recv_frame expires io stream s of
       (Inl e, s) \<Rightarrow> (Err e, s)
     | (Inr payload, s) \<Rightarrow>
         (case send_frame expires nosignal io stream (map ascii_upper payload) s of
            (Inl e, s) \<Rightarrow> (Err e, s)
          | (Inr _, s) \<Rightarrow> (Ok (length payload), s)))"

section \<open>Joining\<close>

text \<open>
  A join handle is awaited by \<open>tj_await\<close> and aborted by \<open>tj_abort\<close>; \<open>tj_text\<close> renders the error.
\<close>

record ('h, 'a, 'p, 's) joining =
  tj_await :: "'h \<Rightarrow> 's \<Rightarrow> ('a io_result, 'p JoinError) rust_result \<times> 's"
  tj_abort :: "'h \<Rightarrow> 's \<Rightarrow> 's"
  tj_text :: "'p JoinError \<Rightarrow> string"

definition other_error :: "string \<Rightarrow> io_error" where
  "other_error message = IoError Other message"

definition join_io_task :: "('h, 'a, 'p, 's) joining \<Rightarrow> 'h \<Rightarrow> 's \<Rightarrow> 'a io_result \<times> 's" where
  "join_io_task J task s =
    (case tj_await J task s of (Inl e, s) \<Rightarrow> (Err (other_error (tj_text J e)), s) | (Inr r, s) \<Rightarrow> (r, s))"

definition abort_and_drain :: "('h, 'a, 'p, 's) joining \<Rightarrow> 'h list \<Rightarrow> 's \<Rightarrow> 's" where
  "abort_and_drain J handles s =
    fold (\<lambda>task s. snd (tj_await J task s)) handles (fold (tj_abort J) handles s)"

fun join_io_tasks :: "('h, 'a, 'p, 's) joining \<Rightarrow> 'h list \<Rightarrow> 's \<Rightarrow> 'a list io_result \<times> 's" where
  "join_io_tasks J [] s = (Ok [], s)"
| "join_io_tasks J (task # handles) s =
    (case join_io_task J task s of
       (Inl e, s) \<Rightarrow> (Err e, abort_and_drain J handles s)
     | (Inr output, s) \<Rightarrow> (case join_io_tasks J handles s of (r, s) \<Rightarrow> (map_sum id ((#) output) r, s)))"

text \<open>
  The server: it accepts as many connections as there are clients, hands each to a task of its own and
  sums what the tasks return. \<open>spawn\<close> spawns the handler of a connection; the accept loops run on fuel.
\<close>

fun serve_loop ::
  "('s \<Rightarrow> ((raw_fd \<times> SocketAddr) io_result \<times> 's) option) \<Rightarrow> (raw_fd \<Rightarrow> SocketAddr \<Rightarrow> 's \<Rightarrow> ('h, string) rust_result \<times> 's)
    \<Rightarrow> ('h, nat, 'p, 's) joining \<Rightarrow> nat \<Rightarrow> 'h list \<Rightarrow> 's \<Rightarrow> (nat io_result \<times> 's) option" where
  "serve_loop accept_one spawn J 0 connections s =
    (case join_io_tasks J connections s of (r, s) \<Rightarrow> Some (map_sum id sum_list r, s))"
| "serve_loop accept_one spawn J (Suc clients) connections s =
    (case accept_one s of
       None \<Rightarrow> None
     | Some (Inl e, s) \<Rightarrow> Some (Err e, abort_and_drain J connections s)
     | Some (Inr (stream, peer), s) \<Rightarrow>
         (case spawn stream peer s of
            (Inl text, s) \<Rightarrow> Some (Err (other_error text), abort_and_drain J connections s)
          | (Inr connection, s) \<Rightarrow> serve_loop accept_one spawn J clients (connections @ [connection]) s))"

definition serve where
  "serve expires C pollin K io listener fuel spawn J clients =
    serve_loop (timed_accept expires C pollin K io listener fuel) spawn J clients []"

section \<open>Headers\<close>

lemma low_byte: "ucast (ucast (y :: u32) :: u8) = take_bit 8 y"
  by (rule bit_word_eqI) (auto simp: bit_unsigned_iff bit_take_bit_iff)

lemma from_to_be_bytes: "from_be_bytes (to_be_bytes x) = x"
proof -
  have split: "push_bit 8 (drop_bit 8 y) + take_bit 8 y = y" for y :: u32 by (rule bits_ident)
  have top: "take_bit 8 (drop_bit 24 x) = drop_bit 24 x"
    by (rule bit_word_eqI) (auto simp: bit_take_bit_iff bit_drop_bit_eq dest: bit_imp_le_length)
  have "from_be_bytes (to_be_bytes x) = push_bit 8 (push_bit 8 (push_bit 8 (drop_bit 24 x) + take_bit 8 (drop_bit 16 x))
      + take_bit 8 (drop_bit 8 x)) + take_bit 8 x"
    by (simp add: from_be_bytes_def to_be_bytes_def low_byte top)
  also have "push_bit 8 (drop_bit 24 x) + take_bit 8 (drop_bit 16 x) = drop_bit 16 x"
    using split [of "drop_bit 16 x"] by simp
  also have "push_bit 8 (drop_bit 16 x) + take_bit 8 (drop_bit 8 x) = drop_bit 8 x"
    using split [of "drop_bit 8 x"] by simp
  finally show ?thesis by (simp only: split)
qed

lemma length_to_be_bytes [simp]: "length (to_be_bytes x) = 4"
  by (simp add: to_be_bytes_def)

lemma decode_encode:
  "encode_frame_len n = Ok header \<Longrightarrow> decode_frame_len header = Ok n \<and> length header = FRAME_HEADER_LEN"
  by (auto simp: encode_frame_len_def decode_frame_len_def from_to_be_bytes unat_u32_le FRAME_HEADER_LEN_def Let_def
      split: if_splits)

lemma encode_ok: "n \<le> MAX_FRAME_SIZE \<Longrightarrow> encode_frame_len n = Ok (to_be_bytes (word_of_nat n))"
  by (simp add: encode_frame_len_def MAX_FRAME_SIZE_def u32_max_def)

section \<open>A connection\<close>

text \<open>
  One direction of a connection: a queue of bytes under way. Sends and receives move an arbitrary part
  of what they could, but at least one byte where there is one.
\<close>

definition pipe_kernel :: "('a, u8 list) io_handle \<Rightarrow> bool" where
  "pipe_kernel io \<longleftrightarrow>
     (\<forall>fd cells flags q. \<exists>n. io (OpSend fd cells flags) q = (OpDone (word_of_nat n) [], q @ take n (map the cells))
        \<and> n \<le> length cells \<and> n < 2 ^ 31 \<and> (cells \<noteq> [] \<longrightarrow> n \<noteq> 0))
   \<and> (\<forall>fd len q. \<exists>n. io (OpRecv fd len) q = (OpDone (word_of_nat n) (take n q), drop n q)
        \<and> n \<le> unat len \<and> n \<le> length q \<and> n < 2 ^ 31 \<and> (len \<noteq> 0 \<and> q \<noteq> [] \<longrightarrow> n \<noteq> 0))"

lemma pipe_send:
  assumes "pipe_kernel io"
  obtains n where "io (OpSend fd cells flags) q = (OpDone (word_of_nat n) [], q @ take n (map the cells))"
    "n \<le> length cells" "n < 2 ^ 31" "cells \<noteq> [] \<longrightarrow> n \<noteq> 0"
  using assms unfolding pipe_kernel_def by meson

lemma pipe_recv:
  assumes "pipe_kernel io"
  obtains n where "io (OpRecv fd len) q = (OpDone (word_of_nat n) (take n q), drop n q)"
    "n \<le> unat len" "n \<le> length q" "n < 2 ^ 31" "len \<noteq> 0 \<and> q \<noteq> [] \<longrightarrow> n \<noteq> 0"
  using assms unfolding pipe_kernel_def by meson

lemma send_round:
  assumes io: "pipe_kernel io" and size: "bytes_init b \<le> u32_max" "bytes_init b \<le> bytes_total b" and k: "k < bytes_init b"
  shows "\<exists>n. send_offset nosignal io fd b k (q @ take k (buf_bytes b)) = ((Ok n, b), q @ take (k + n) (buf_bytes b))
    \<and> n \<noteq> 0 \<and> k + n \<le> bytes_init b"
proof -
  define m where "m = bytes_init b - k"
  let ?cells = "take m (drop k (bf_cells b))"
  have rem: "saturating_sub (bytes_init b) k = m" "unat (word_of_nat m :: u32) = m" "m \<le> u32_max" "k + m = bytes_init b"
    using k size(1) unat_u32_le [of m] by (auto simp: saturating_sub_def m_def)
  have len: "length ?cells = m" using k size(2) by (simp add: bytes_total_def m_def)
  have data: "map the ?cells = drop k (buf_bytes b)"
    using k by (simp add: buf_bytes_def drop_map drop_take m_def)
  obtain n where n: "io (OpSend fd ?cells nosignal) (q @ take k (buf_bytes b))
      = (OpDone (word_of_nat n) [], (q @ take k (buf_bytes b)) @ take n (map the ?cells))"
    "n \<le> length ?cells" "n < 2 ^ 31" "?cells \<noteq> [] \<longrightarrow> n \<noteq> 0"
    by (rule pipe_send [OF io, of fd ?cells nosignal "q @ take k (buf_bytes b)"])
  have "?cells \<noteq> []" using len k by (auto simp: m_def)
  with n len rem cqe_result_count [OF n(3)] show ?thesis
    by (intro exI [of _ n]) (simp add: send_offset_def Let_def await_op_def send_entry_def send_complete_def
        drain_complete_def data take_add)
qed

interpretation pipe_out: live_transfer "send_offset nosignal io fd" "bytes_init b0"
    "\<lambda>k b s. pipe_kernel io \<and> b = b0 \<and> bytes_init b0 \<le> u32_max \<and> bytes_init b0 \<le> bytes_total b0
       \<and> s = q @ take k (buf_bytes b0)"
  for nosignal io fd b0 q
proof (rule live_transferI, goal_cases)
  case (1 k b s)
  with send_round [of io b k nosignal fd q] show ?case by auto
qed

lemma recv_round:
  assumes io: "pipe_kernel io" and b: "filled_to b0 k b" and size: "bytes_total b0 \<le> u32_max" "bytes_total b0 \<le> length q"
    and k: "k < bytes_total b0" and cells: "\<forall>i < k. bf_cells b ! i = Some (q ! i)"
  shows "\<exists>n b'. recv_offset io fd b k (drop k q) = ((Ok n, b'), drop (k + n) q) \<and> n \<noteq> 0 \<and> k + n \<le> bytes_total b0
    \<and> filled_to b0 (k + n) b' \<and> (\<forall>i < k + n. bf_cells b' ! i = Some (q ! i))"
proof -
  let ?rem = "bytes_total b - k"
  from b have tot: "bytes_total b = bytes_total b0" by (simp add: filled_to_def)
  have rem: "saturating_sub (bytes_total b) k = ?rem" "unat (word_of_nat ?rem :: u32) = ?rem" "?rem \<le> u32_max"
    using k size unat_u32_le [of ?rem] by (auto simp: saturating_sub_def tot)
  then have nz: "(word_of_nat ?rem :: u32) \<noteq> 0" using k tot by (metis unat_0 zero_less_diff less_irrefl)
  obtain n where n: "io (OpRecv fd (word_of_nat ?rem)) (drop k q) = (OpDone (word_of_nat n) (take n (drop k q)), drop n (drop k q))"
    "n \<le> ?rem" "n \<le> length q - k" "n < 2 ^ 31" "n \<noteq> 0"
    by (rule pipe_recv [OF io, of fd "word_of_nat ?rem" "drop k q"]) (use rem size k nz in auto)
  let ?data = "take n (drop k q)"
  let ?b = "set_init (max (bytes_init (store_bytes k ?data b)) (k + n)) (store_bytes k ?data b)"
  have len: "length ?data = n" using n(3) by simp
  have r: "fill_complete ''kernel returned an oversized receive'' k ?rem (store_bytes k ?data b) (word_of_nat n) = (Ok n, ?b)"
    using n(2) cqe_result_count [OF n(4)] by (simp add: fill_complete_def)
  have "\<not> (word_of_nat n :: i32) <s 0" "unat (word_of_nat n :: i32) = n"
    using cqe_result_count [OF n(4)] by (auto simp: cqe_result_def split: if_splits)
  with fill_complete_filled [OF b _ _ r] len n(2) have f: "k + n \<le> bytes_total b0" "filled_to b0 (k + n) ?b" by auto
  have "bf_cells ?b ! i = Some (q ! i)" if "i < k + n" for i
    using that f(1) cells len n(3) by (auto simp: nth_store_bytes tot nth_append)
  moreover have "recv_offset io fd b k (drop k q) = ((Ok n, ?b), drop (k + n) q)"
    using n(1) r rem by (simp add: recv_offset_def Let_def await_op_def recv_entry_def recv_complete_def recv_stored_def
        add.commute)
  ultimately show ?thesis using n(5) f by blast
qed

interpretation pipe_in: live_transfer "recv_offset io fd" "bytes_total b0"
    "\<lambda>k b s. pipe_kernel io \<and> filled_to b0 k b \<and> bytes_total b0 \<le> u32_max \<and> bytes_total b0 \<le> length q
       \<and> s = drop k q \<and> (\<forall>i < k. bf_cells b ! i = Some (q ! i))"
  for io fd b0 q
proof (rule live_transferI, goal_cases)
  case (1 k b s)
  with recv_round [of io b0 k b q fd] show ?case by auto
qed

text \<open>Whole sends and receives on such a connection.\<close>

lemma send_all_pipe:
  assumes "pipe_kernel io" "length xs \<le> u32_max"
  shows "send_all nosignal io fd (vec_of xs) q = ((Ok (), vec_of xs), q @ xs)"
  using pipe_out.loop_succeeds [where io = io and ?b0.0 = "vec_of xs" and k = 0 and b = "vec_of xs" and s = q and q = q
      and nosignal = nosignal and fd = fd] assms
  by (auto simp: send_all_def)

lemma recv_exact_pipe:
  assumes "pipe_kernel io" "n \<le> u32_max" "n \<le> length q"
  shows "\<exists>b. recv_exact io fd (vec_with_capacity n) q = ((Ok (), b), drop n q) \<and> buf_bytes b = take n q"
proof -
  have "filled_to (vec_with_capacity n) 0 (vec_with_capacity n)" by (simp add: filled_to_def)
  with pipe_in.loop_succeeds [where io = io and ?b0.0 = "vec_with_capacity n" and k = 0 and b = "vec_with_capacity n"
      and s = q and q = q and fd = fd] assms
  obtain b where b: "recv_exact io fd (vec_with_capacity n) q = ((Ok (), b), drop n q)"
    "filled_to (vec_with_capacity n) n b" "\<forall>i < n. bf_cells b ! i = Some (q ! i)"
    by (auto simp: recv_exact_def)
  then have "bytes_init b = n" "length (bf_cells b) = n"
    using bytes_total_simps(2) [of n] by (auto simp: filled_to_def buf_sound_def bytes_total_def)
  with b(3) assms(3) have "buf_bytes b = take n q" by (intro nth_equalityI) (auto simp: buf_bytes_def)
  with b(1) show ?thesis by blast
qed

text \<open>Without a timeout.\<close>

lemma timed_send_pipe:
  assumes "pipe_kernel io" "\<forall>what s. expires what s = None" "length xs \<le> u32_max"
  shows "timed_send_all expires nosignal io fd (vec_of xs) q = (Ok (), q @ xs)"
  using send_all_pipe [OF assms(1,3)] assms(2) by (simp add: timed_send_all_def timed_def)

lemma timed_recv_pipe:
  assumes "pipe_kernel io" "\<forall>what s. expires what s = None" "n \<le> u32_max" "n \<le> length q"
  obtains b where "timed_recv_exact expires io fd (vec_with_capacity n) q = (Ok b, drop n q)" "buf_bytes b = take n q"
  using recv_exact_pipe [OF assms(1,3,4), of fd] assms(2) by (auto simp: timed_recv_exact_def timed_def)

lemma recv_header:
  assumes "pipe_kernel io" "\<forall>what s. expires what s = None" "length header = FRAME_HEADER_LEN"
  shows "recv_frame expires io fd (header @ rest) =
    (case decode_frame_len header of
       Inl e \<Rightarrow> (Err e, rest)
     | Inr n \<Rightarrow> (case timed_recv_exact expires io fd (vec_with_capacity n) rest of (r, s) \<Rightarrow> (map_sum id buf_bytes r, s)))"
proof -
  have "FRAME_HEADER_LEN \<le> u32_max" by (simp add: FRAME_HEADER_LEN_def u32_max_def)
  with assms obtain b where "timed_recv_exact expires io fd (vec_with_capacity FRAME_HEADER_LEN) (header @ rest) = (Ok b, rest)"
    "buf_bytes b = header"
    using timed_recv_pipe [of io expires FRAME_HEADER_LEN "header @ rest" fd thesis] by auto
  with assms(3) show ?thesis by (simp add: recv_frame_def split: sum.split)
qed

text \<open>A payload within the limit, over one direction.\<close>

lemma frame_roundtrip_lemma:
  assumes io: "pipe_kernel io" and len: "length payload \<le> MAX_FRAME_SIZE"
  shows "send_frame (\<lambda>_ _. None) nosignal io fd payload q = (Ok (), q @ to_be_bytes (word_of_nat (length payload)) @ payload)"
    and "recv_frame (\<lambda>_ _. None) io fd (to_be_bytes (word_of_nat (length payload)) @ payload @ rest) = (Ok payload, rest)"
proof -
  let ?h = "to_be_bytes (word_of_nat (length payload))"
  have never: "\<forall>what s. (\<lambda>_ _. None) what s = None" by simp
  note enc = encode_ok [OF len]
  from len have max: "length payload \<le> u32_max" "length ?h \<le> u32_max" by (simp_all add: MAX_FRAME_SIZE_def u32_max_def)
  obtain b where "timed_recv_exact (\<lambda>_ _. None) io fd (vec_with_capacity (length payload)) (payload @ rest) = (Ok b, rest)"
    "buf_bytes b = payload"
    using timed_recv_pipe [OF io never max(1), of "payload @ rest" fd thesis] by auto
  with recv_header [OF io never, of ?h fd "payload @ rest"] decode_encode [OF enc] enc
  show "recv_frame (\<lambda>_ _. None) io fd (?h @ payload @ rest) = (Ok payload, rest)" by simp
  from timed_send_pipe [OF io never max(1)] timed_send_pipe [OF io never max(2)] enc
  show "send_frame (\<lambda>_ _. None) nosignal io fd payload q = (Ok (), q @ ?h @ payload)" by (simp add: send_frame_def)
qed

section \<open>Properties\<close>

text \<open>
  C38: framing is lossless however the connection splits the transfers: a payload within the limit is
  sent as its header and its bytes, and received from the front of the queue as it was, with what
  follows it untouched; a longer payload is refused before anything is sent, and a header that announces
  one is refused before anything is received for it.
\<close>

theorem frame_roundtrip:
  assumes io: "pipe_kernel io" and never: "\<forall>what s. expires what s = None"
  shows "(if length payload \<le> MAX_FRAME_SIZE then
       send_frame expires nosignal io fd payload q = (Ok (), q @ to_be_bytes (word_of_nat (length payload)) @ payload)
       \<and> recv_frame expires io fd (to_be_bytes (word_of_nat (length payload)) @ payload @ rest) = (Ok payload, rest)
     else \<exists>m. send_frame expires nosignal io fd payload q = (Err (IoError InvalidInput m), q))
    \<and> (length header = FRAME_HEADER_LEN \<and> MAX_FRAME_SIZE < unat (from_be_bytes header)
       \<longrightarrow> (\<exists>m. recv_frame expires io fd (header @ rest) = (Err (IoError InvalidData m), rest)))"
proof -
  from never have never': "expires = (\<lambda>_ _. None)" by (intro ext) blast
  show ?thesis
    using frame_roundtrip_lemma [OF io, of payload] recv_header [OF io never]
    by (auto simp: never' send_frame_def encode_frame_len_def decode_frame_len_def Let_def)
qed

text \<open>A connection that moves at most three bytes at a time.\<close>

definition sample_pipe :: "(unit, u8 list) io_handle" where
  "sample_pipe entry q = (case entry of
     OpSend fd cells flags \<Rightarrow> (let n = min 3 (length cells) in (OpDone (word_of_nat n) [], q @ take n (map the cells)))
   | OpRecv fd len \<Rightarrow> (let n = min 3 (min (unat len) (length q)) in (OpDone (word_of_nat n) (take n q), drop n q))
   | _ \<Rightarrow> (OpFailed unsupported_opcode_error, q))"

lemma sample_pipe_kernel: "pipe_kernel sample_pipe"
  unfolding pipe_kernel_def sample_pipe_def Let_def
proof (intro conjI allI, goal_cases)
  case (1 fd cells flags q)
  show ?case by (intro exI [of _ "min 3 (length cells)"]) auto
next
  case (2 fd len q)
  have "min 3 (min (unat len) (length q)) \<noteq> 0" if "len \<noteq> 0 \<and> q \<noteq> []"
    using that by (simp add: unat_gt_0 min_def)
  then show ?case by (intro exI [of _ "min 3 (min (unat len) (length q))"]) auto
qed

theorem frame_roundtrip_witness:
  "send_frame (\<lambda>_ _. None) 16384 sample_pipe 5 [104, 105] [] = (Ok (), [0, 0, 0, 2, 104, 105])
    \<and> recv_frame (\<lambda>_ _. None) sample_pipe 5 [0, 0, 0, 2, 104, 105, 1] = (Ok [104, 105], [1])"
proof -
  have h: "to_be_bytes 2 = [0, 0, 0, 2]" by (simp add: to_be_bytes_def)
  from frame_roundtrip [OF sample_pipe_kernel, of "\<lambda>_ _. None" "[104, 105]" 16384 5 "[]" "[1]"]
  show ?thesis by (simp add: h MAX_FRAME_SIZE_def)
qed

end
