(* ===== verification/Tcp_Api.thy ===== *)
theory Tcp_Api
  imports Tcp_Net
begin

text \<open>
  The rest of the interface of \<open>src/net.rs\<close>: the constructors for the current runtime, the two
  readiness lanes of a stream, and the options that forward to the socket.
\<close>

section \<open>Constructors\<close>

text \<open>\<open>current\<close> is what \<open>IoHandle::try_current\<close> gives, for a listener with whether its runtime still runs.\<close>

definition tcp_connect ::
  "('s, 'z) socket_calls_scheme \<Rightarrow> (SocketAddr, 's) io_handle option \<Rightarrow> ToSocketAddrs \<Rightarrow> 's
    \<Rightarrow> raw_fd io_result exec \<times> 's" where
  "tcp_connect K current addresses s =
    (case current of None \<Rightarrow> (Return (Err runtime_closed_error), s) | Some io \<Rightarrow> connect_on K io addresses s)"

definition tcp_bind ::
  "('s, 'z) socket_calls_scheme \<Rightarrow> bool option \<Rightarrow> ToSocketAddrs \<Rightarrow> 's \<Rightarrow> raw_fd io_result exec \<times> 's" where
  "tcp_bind K current addresses s =
    (case current of None \<Rightarrow> (Return (Err runtime_closed_error), s) | Some running \<Rightarrow> bind_on K running addresses s)"

record 'o TcpStream =
  ts_socket :: raw_fd
  ts_read_ready :: "'o ReadyLane"
  ts_write_ready :: "'o ReadyLane"

definition from_socket :: "u32 \<Rightarrow> u32 \<Rightarrow> raw_fd \<Rightarrow> 'o TcpStream" where
  "from_socket pollin pollout socket =
    \<lparr>ts_socket = socket, ts_read_ready = lane_new pollin, ts_write_ready = lane_new pollout\<rparr>"

text \<open>The borrowed interface takes the lane of its direction out of the stream and puts it back.\<close>

definition stream_poll_read ::
  "'y libc_scheme \<Rightarrow> ('s, 'z) socket_calls_scheme \<Rightarrow> ('o, 's) ready_op \<Rightarrow> waker \<Rightarrow> nat
    \<Rightarrow> ReadBuf \<times> 'o TcpStream \<times> 's \<Rightarrow> ((unit io_result, unit) polled \<times> ReadBuf \<times> 'o TcpStream \<times> 's) option" where
  "stream_poll_read C K R w fuel = (\<lambda>(buf, st, s).
    map_option (\<lambda>(r, buf, lane, s). (r, buf, st\<lparr>ts_read_ready := lane\<rparr>, s))
      (poll_read C K R (ts_socket st) w fuel (buf, ts_read_ready st, s)))"

definition stream_poll_write ::
  "'y libc_scheme \<Rightarrow> i32 \<Rightarrow> ('s, 'z) socket_calls_scheme \<Rightarrow> ('o, 's) ready_op \<Rightarrow> waker \<Rightarrow> u8 list \<Rightarrow> nat
    \<Rightarrow> 'o TcpStream \<times> 's \<Rightarrow> ((nat io_result, unit) polled \<times> 'o TcpStream \<times> 's) option" where
  "stream_poll_write C nosignal K R w data fuel = (\<lambda>(st, s).
    map_option (\<lambda>(r, lane, s). (r, st\<lparr>ts_write_ready := lane\<rparr>, s))
      (poll_write C nosignal K R (ts_socket st) w data fuel (ts_write_ready st, s)))"

section \<open>Options\<close>

datatype Shutdown = ShutdownRead | ShutdownWrite | ShutdownBoth

record 's socket_options = "'s socket_calls" +
  sk_take_error :: "raw_fd \<Rightarrow> 's \<Rightarrow> io_error option io_result \<times> 's"
  sk_nodelay :: "raw_fd \<Rightarrow> 's \<Rightarrow> bool io_result"
  sk_set_nodelay :: "raw_fd \<Rightarrow> bool \<Rightarrow> 's \<Rightarrow> unit io_result \<times> 's"
  sk_shutdown :: "raw_fd \<Rightarrow> Shutdown \<Rightarrow> 's \<Rightarrow> unit io_result \<times> 's"

definition stream_take_error :: "('s, 'z) socket_options_scheme \<Rightarrow> 'o TcpStream \<Rightarrow> 's \<Rightarrow> io_error option io_result \<times> 's" where
  "stream_take_error K st = sk_take_error K (ts_socket st)"

definition stream_nodelay :: "('s, 'z) socket_options_scheme \<Rightarrow> 'o TcpStream \<Rightarrow> 's \<Rightarrow> bool io_result" where
  "stream_nodelay K st = sk_nodelay K (ts_socket st)"

definition stream_set_nodelay ::
  "('s, 'z) socket_options_scheme \<Rightarrow> bool \<Rightarrow> 'o TcpStream \<Rightarrow> 's \<Rightarrow> unit io_result \<times> 's" where
  "stream_set_nodelay K nodelay st = sk_set_nodelay K (ts_socket st) nodelay"

definition stream_shutdown ::
  "('s, 'z) socket_options_scheme \<Rightarrow> Shutdown \<Rightarrow> 'o TcpStream \<Rightarrow> 's \<Rightarrow> unit io_result \<times> 's" where
  "stream_shutdown K how st = sk_shutdown K (ts_socket st) how"

definition listener_local_addr :: "('s, 'z) socket_calls_scheme \<Rightarrow> raw_fd \<Rightarrow> 's \<Rightarrow> SocketAddr io_result" where
  "listener_local_addr K listener s = (case sk_local_addr K listener s of Inl e \<Rightarrow> Err e | Inr a \<Rightarrow> socket_addr a)"

definition listener_take_error :: "('s, 'z) socket_options_scheme \<Rightarrow> raw_fd \<Rightarrow> 's \<Rightarrow> io_error option io_result \<times> 's" where
  "listener_take_error K listener = sk_take_error K listener"

end
