(* ===== verification/Demo.thy ===== *)
theory Demo
  imports Framing Tcp_Api
begin

text \<open>
  The client and the demonstration itself of \<open>examples/net_io_poc.rs\<close>: four clients and a server as
  tasks of one runtime. A text is its UTF-8 encoding. Shown are that a request comes back in upper case
  and passes the client's check, and that no path of the server or the demonstration leaves a task it
  spawned unjoined.
\<close>

section \<open>The client\<close>

record ClientResult =
  cr_id :: nat
  cr_request :: "u8 list"
  cr_response :: "u8 list"

text \<open>What \<open>String::from_utf8\<close> accepts.\<close>

definition is_cont :: "u8 \<Rightarrow> bool" where
  "is_cont b \<longleftrightarrow> 128 \<le> b \<and> b \<le> 191"

fun utf8_valid :: "u8 list \<Rightarrow> bool" where
  "utf8_valid [] = True"
| "utf8_valid (a # bytes) =
    (if a < 128 then utf8_valid bytes
     else if 194 \<le> a \<and> a \<le> 223 then
       (case bytes of b # rest \<Rightarrow> is_cont b \<and> utf8_valid rest | _ \<Rightarrow> False)
     else if 224 \<le> a \<and> a \<le> 239 then
       (case bytes of b # c # rest \<Rightarrow>
          is_cont b \<and> (a = 224 \<longrightarrow> 160 \<le> b) \<and> (a = 237 \<longrightarrow> b \<le> 159) \<and> is_cont c \<and> utf8_valid rest
        | _ \<Rightarrow> False)
     else if 240 \<le> a \<and> a \<le> 244 then
       (case bytes of b # c # d # rest \<Rightarrow>
          is_cont b \<and> (a = 240 \<longrightarrow> 144 \<le> b) \<and> (a = 244 \<longrightarrow> b \<le> 143) \<and> is_cont c \<and> is_cont d \<and> utf8_valid rest
        | _ \<Rightarrow> False)
     else False)"

definition from_utf8 :: "u8 list \<Rightarrow> u8 list io_result" where
  "from_utf8 bytes = (if utf8_valid bytes then Ok bytes else Err (IoError InvalidData ''invalid utf-8 sequence''))"

text \<open>
  A client on its connected stream, first its request, then the response with its check; \<open>shown\<close> renders
  bytes for the message. The stream is dropped on every way out.
\<close>

definition client_request ::
  "'s expiry \<Rightarrow> i32 \<Rightarrow> ('s, 'z) socket_options_scheme \<Rightarrow> ('a, 's) io_handle \<Rightarrow> raw_fd \<Rightarrow> u8 list \<Rightarrow> 's
    \<Rightarrow> unit io_result \<times> 's" where
  "client_request expires nosignal K io stream request s =
    (case sk_set_nodelay K stream True s of
       (Inl e, s) \<Rightarrow> (Err e, s)
     | (Inr _, s) \<Rightarrow> send_frame expires nosignal io stream request s)"

definition client_response ::
  "'s expiry \<Rightarrow> (u8 list \<Rightarrow> string) \<Rightarrow> ('a, 's) io_handle \<Rightarrow> raw_fd \<Rightarrow> nat \<Rightarrow> u8 list \<Rightarrow> 's
    \<Rightarrow> ClientResult io_result \<times> 's" where
  "client_response expires shown io stream i request s =
    (case recv_frame expires io stream s of
       (Inl e, s) \<Rightarrow> (Err e, s)
     | (Inr response, s) \<Rightarrow>
         let expected = map ascii_upper request in
         if response \<noteq> expected then
           (Err (IoError InvalidData (''client '' @ show_nat i @ '' expected '' @ shown expected
              @ '', received '' @ shown response)), s)
         else (case from_utf8 response of
            Inl e \<Rightarrow> (Err e, s)
          | Inr text \<Rightarrow> (Ok \<lparr>cr_id = i, cr_request = request, cr_response = text\<rparr>, s)))"

definition run_client ::
  "'s expiry \<Rightarrow> i32 \<Rightarrow> (u8 list \<Rightarrow> string) \<Rightarrow> ('s, 'z) socket_options_scheme \<Rightarrow> (SocketAddr, 's) io_handle
    \<Rightarrow> nat \<Rightarrow> SocketAddr \<Rightarrow> u8 list \<Rightarrow> 's \<Rightarrow> ClientResult io_result exec \<times> 's" where
  "run_client expires nosignal shown K io i address request s =
    (case timed_connect expires K io address s of
       (Panic m, s) \<Rightarrow> (Panic m, s)
     | (Abort m, s) \<Rightarrow> (Abort m, s)
     | (Return (Inl e), s) \<Rightarrow> (Return (Err e), s)
     | (Return (Inr stream), s) \<Rightarrow>
         (case client_request expires nosignal K io stream request s of
            (Inl e, s) \<Rightarrow> (Return (Err e), sk_close K stream s)
          | (Inr _, s) \<Rightarrow>
              (case client_response expires shown io stream i request s of
                 (r, s) \<Rightarrow> (Return r, sk_close K stream s))))"

section \<open>The demonstration\<close>

text \<open>The requests.\<close>

definition CLIENT_MESSAGES :: "string list" where
  "CLIENT_MESSAGES = [''hello nosv'', ''owned buffers'', ''completion-native io'', ''numeric tcp'']"

text \<open>The loop that spawns the clients; on a failure the ones spawned so far come back with it.\<close>

fun spawn_clients ::
  "(nat \<Rightarrow> 'm \<Rightarrow> 's \<Rightarrow> ('h, string) rust_result \<times> 's) \<Rightarrow> nat \<Rightarrow> 'm list \<Rightarrow> 'h list \<Rightarrow> 's
    \<Rightarrow> (string option \<times> 'h list) \<times> 's" where
  "spawn_clients spawn i [] clients s = ((None, clients), s)"
| "spawn_clients spawn i (request # requests) clients s =
    (case spawn i request s of
       (Inl text, s) \<Rightarrow> ((Some text, clients), s)
     | (Inr client, s) \<Rightarrow> spawn_clients spawn (i + 1) requests (clients @ [client]) s)"

text \<open>From the bound listener on; the value is what the last line prints.\<close>

definition demo_tasks ::
  "(raw_fd \<Rightarrow> 's \<Rightarrow> ('g, string) rust_result \<times> 's) \<Rightarrow> (SocketAddr \<Rightarrow> nat \<Rightarrow> 'm \<Rightarrow> 's \<Rightarrow> ('h, string) rust_result \<times> 's)
    \<Rightarrow> ('g, nat, 'p, 's) joining \<Rightarrow> ('h, ClientResult, 'p, 's) joining \<Rightarrow> 'm list \<Rightarrow> raw_fd \<Rightarrow> SocketAddr \<Rightarrow> 's
    \<Rightarrow> (ClientResult list \<times> nat) io_result \<times> 's" where
  "demo_tasks spawn_server spawn_client JS JC messages listener address s =
    (case spawn_server listener s of
       (Inl text, s) \<Rightarrow> (Err (other_error text), s)
     | (Inr server, s) \<Rightarrow>
         (case spawn_clients (spawn_client address) 0 messages [] s of
            ((Some text, clients), s) \<Rightarrow>
              (Err (other_error text), snd (tj_await JS server (tj_abort JS server (abort_and_drain JC clients s))))
          | ((None, clients), s) \<Rightarrow>
              (case join_io_tasks JC clients s of
                 (Inl e, s) \<Rightarrow> (Err e, snd (tj_await JS server (tj_abort JS server s)))
               | (Inr results, s) \<Rightarrow>
                   (case join_io_task JS server s of (r, s) \<Rightarrow> (map_sum id (Pair results) r, s)))))"

definition run_demo ::
  "('s, 'z) socket_calls_scheme \<Rightarrow> bool
    \<Rightarrow> (raw_fd \<Rightarrow> 's \<Rightarrow> ('g, string) rust_result \<times> 's) \<Rightarrow> (SocketAddr \<Rightarrow> nat \<Rightarrow> string \<Rightarrow> 's \<Rightarrow> ('h, string) rust_result \<times> 's)
    \<Rightarrow> ('g, nat, 'p, 's) joining \<Rightarrow> ('h, ClientResult, 'p, 's) joining \<Rightarrow> 's
    \<Rightarrow> (ClientResult list \<times> nat) io_result exec \<times> 's" where
  "run_demo K running spawn_server spawn_client JS JC s =
    (case bind_on K running (AddrIpv4 2130706433 0) s of
       (Panic m, s) \<Rightarrow> (Panic m, s)
     | (Abort m, s) \<Rightarrow> (Abort m, s)
     | (Return (Inl e), s) \<Rightarrow> (Return (Err e), s)
     | (Return (Inr listener), s) \<Rightarrow>
         (case listener_local_addr K listener s of
            Inl e \<Rightarrow> (Return (Err e), sk_close K listener s)
          | Inr address \<Rightarrow>
              (case demo_tasks spawn_server spawn_client JS JC CLIENT_MESSAGES listener address s of
                 (r, s) \<Rightarrow> (Return r, s))))"

section \<open>No task is left behind\<close>

text \<open>\<open>left s\<close> are the tasks spawned and not yet joined: an await joins one, an abort does not.\<close>

definition joins :: "('h, 'a, 'p, 's) joining \<Rightarrow> ('s \<Rightarrow> 'h multiset) \<Rightarrow> bool" where
  "joins J left \<longleftrightarrow> (\<forall>h s. left (snd (tj_await J h s)) = left s - {#h#} \<and> left (tj_abort J h s) = left s)"

definition ignores :: "('h, 'a, 'p, 's) joining \<Rightarrow> ('s \<Rightarrow> 'b) \<Rightarrow> bool" where
  "ignores J f \<longleftrightarrow> (\<forall>h s. f (snd (tj_await J h s)) = f s \<and> f (tj_abort J h s) = f s)"

definition spawns :: "('s \<Rightarrow> ('h, string) rust_result \<times> 's) \<Rightarrow> ('s \<Rightarrow> 'h multiset) \<Rightarrow> bool" where
  "spawns spawn left \<longleftrightarrow> (\<forall>s. case spawn s of (Inr h, s') \<Rightarrow> left s' = add_mset h (left s) | (Inl _, s') \<Rightarrow> left s' = left s)"

definition keeps :: "('s \<Rightarrow> 'r \<times> 's) \<Rightarrow> ('s \<Rightarrow> 'b) \<Rightarrow> bool" where
  "keeps f g \<longleftrightarrow> (\<forall>s. g (snd (f s)) = g s)"

lemma spawnsD:
  "spawns spawn left \<Longrightarrow> spawn s = (Inr h, s') \<Longrightarrow> left s' = add_mset h (left s)"
  "spawns spawn left \<Longrightarrow> spawn s = (Inl e, s') \<Longrightarrow> left s' = left s"
  unfolding spawns_def by (auto dest: spec [of _ s])

lemma keepsD: "keeps f g \<Longrightarrow> f s = (r, s') \<Longrightarrow> g s' = g s"
  unfolding keeps_def by (metis snd_conv)

lemma fold_keeps: "(\<And>x s. g (f x s) = g s) \<Longrightarrow> g (fold f xs s) = g s"
  by (induction xs arbitrary: s) auto

lemma abort_and_drain_left: "joins J left \<Longrightarrow> left (abort_and_drain J handles s) = left s - mset handles"
proof -
  assume J: "joins J left"
  then have "left (fold (\<lambda>h s. snd (tj_await J h s)) hs t) = left t - mset hs" for hs t
    by (induction hs arbitrary: t) (auto simp: joins_def)
  with J show ?thesis
    by (simp add: abort_and_drain_def joins_def fold_keeps)
qed

lemma abort_and_drain_ignores: "ignores J f \<Longrightarrow> f (abort_and_drain J handles s) = f s"
  by (simp add: abort_and_drain_def ignores_def fold_keeps)

lemma join_io_task_left: "joins J left \<Longrightarrow> left (snd (join_io_task J h s)) = left s - {#h#}"
proof -
  assume "joins J left"
  then have "left (snd (tj_await J h s)) = left s - {#h#}" by (simp add: joins_def)
  then show ?thesis by (auto simp: join_io_task_def split: prod.splits sum.splits)
qed

lemma join_io_task_ignores: "ignores J f \<Longrightarrow> f (snd (join_io_task J h s)) = f s"
proof -
  assume "ignores J f"
  then have "f (snd (tj_await J h s)) = f s" by (simp add: ignores_def)
  then show ?thesis by (auto simp: join_io_task_def split: prod.splits sum.splits)
qed

lemma join_io_tasks_left: "joins J left \<Longrightarrow> left (snd (join_io_tasks J handles s)) = left s - mset handles"
proof (induction handles arbitrary: s)
  case (Cons h handles)
  obtain r t where t: "join_io_task J h s = (r, t)" by (cases "join_io_task J h s")
  with join_io_task_left [OF Cons.prems, of h s] have "left t = left s - {#h#}" by simp
  with t Cons.IH [OF Cons.prems, of t] abort_and_drain_left [OF Cons.prems, of handles t]
  show ?case by (auto split: sum.split prod.split)
qed simp

lemma join_io_tasks_ignores: "ignores J f \<Longrightarrow> f (snd (join_io_tasks J handles s)) = f s"
proof (induction handles arbitrary: s)
  case (Cons h handles)
  obtain r t where t: "join_io_task J h s = (r, t)" by (cases "join_io_task J h s")
  with join_io_task_ignores [OF Cons.prems, of h s] have "f t = f s" by simp
  with t Cons.IH [OF Cons.prems, of t] abort_and_drain_ignores [OF Cons.prems, of handles t]
  show ?case by (auto split: sum.split prod.split)
qed simp

lemma serve_loop_left:
  assumes "\<And>s x s'. accept_one s = Some (x, s') \<Longrightarrow> left s' = left s"
    and "\<And>stream peer. spawns (spawn stream peer) left" "joins J left"
  shows "serve_loop accept_one spawn J clients connections s = Some (r, s') \<Longrightarrow> mset connections \<subseteq># left s
    \<Longrightarrow> left s' = left s - mset connections"
proof (induction clients arbitrary: connections s)
  case 0
  with join_io_tasks_left [OF assms(3), of connections s] show ?case by (auto split: prod.splits)
next
  case (Suc clients)
  obtain x t where t: "accept_one s = Some (x, t)" using Suc.prems(1) by (cases "accept_one s") auto
  note lt = assms(1) [OF t]
  show ?case
  proof (cases x)
    case (Inl e)
    with Suc.prems(1) t lt abort_and_drain_left [OF assms(3), of connections t] show ?thesis by auto
  next
    case (Inr c)
    obtain stream peer where c: "c = (stream, peer)" by (cases c)
    obtain y u where u: "spawn stream peer t = (y, u)" by (cases "spawn stream peer t")
    show ?thesis
    proof (cases y)
      case (Inl e)
      with Suc.prems(1) t c u \<open>x = Inr c\<close> lt spawnsD(2) [OF assms(2), of stream peer t e u]
        abort_and_drain_left [OF assms(3), of connections u]
      show ?thesis by auto
    next
      case conn: (Inr h)
      with spawnsD(1) [OF assms(2), of stream peer t h u] u lt have lu: "left u = add_mset h (left s)" by simp
      with Suc.prems(2) have "mset (connections @ [h]) \<subseteq># left u" by simp
      with Suc.IH [of "connections @ [h]" u] Suc.prems(1) t c u \<open>x = Inr c\<close> conn lu show ?thesis by simp
    qed
  qed
qed

lemma spawn_clients_left:
  assumes "\<And>i m. spawns (spawn i m) left"
  shows "spawn_clients spawn i requests clients s = ((e, clients'), s') \<Longrightarrow> left s' + mset clients = left s + mset clients'"
proof (induction requests arbitrary: i clients s)
  case (Cons m requests)
  obtain y u where u: "spawn i m s = (y, u)" by (cases "spawn i m s")
  show ?case
  proof (cases y)
    case (Inl e)
    with Cons.prems u spawnsD(2) [OF assms, of i m s e u] show ?thesis by auto
  next
    case (Inr h)
    with spawnsD(1) [OF assms, of i m s h u] u have lu: "left u = add_mset h (left s)" by simp
    from Cons.IH [of "i + 1" "clients @ [h]" u] Cons.prems u Inr
    have "left s' + mset (clients @ [h]) = left u + mset clients'" by simp
    with lu show ?thesis by simp
  qed
qed simp

lemma spawn_clients_keeps:
  assumes "\<And>i m. keeps (spawn i m) f"
  shows "spawn_clients spawn i requests clients s = (x, s') \<Longrightarrow> f s' = f s"
proof (induction requests arbitrary: i clients s)
  case (Cons m requests)
  obtain y u where u: "spawn i m s = (y, u)" by (cases "spawn i m s")
  with keepsD [OF assms u] Cons.IH [of "i + 1" _ u] Cons.prems show ?case by (auto split: sum.splits)
qed simp

lemma demo_tasks_left:
  assumes "\<And>l. spawns (spawn_server l) srv" "\<And>l. keeps (spawn_server l) cli"
    and "\<And>a i m. spawns (spawn_client a i m) cli" "\<And>a i m. keeps (spawn_client a i m) srv"
    and "joins JS srv" "ignores JS cli" "joins JC cli" "ignores JC srv"
  shows "srv (snd (demo_tasks spawn_server spawn_client JS JC messages listener address s)) = srv s
    \<and> cli (snd (demo_tasks spawn_server spawn_client JS JC messages listener address s)) = cli s"
proof -
  obtain x t where t: "spawn_server listener s = (x, t)" by (cases "spawn_server listener s")
  note ct = keepsD [OF assms(2) t]
  show ?thesis
  proof (cases x)
    case (Inl e)
    with t ct spawnsD(2) [OF assms(1), of listener s e t] show ?thesis by (simp add: demo_tasks_def)
  next
    case (Inr server)
    with t spawnsD(1) [OF assms(1), of listener s server t] have st: "srv t = add_mset server (srv s)" by simp
    obtain y clients u where u: "spawn_clients (spawn_client address) 0 messages [] t = ((y, clients), u)"
      by (metis prod.exhaust)
    have lu: "cli u = cli s + mset clients" "srv u = add_mset server (srv s)"
      using spawn_clients_left [OF assms(3) u] spawn_clients_keeps [OF assms(4) u] ct st by simp_all
    have server_joined: "srv (snd (tj_await JS server (tj_abort JS server v))) = srv v - {#server#}"
      "cli (snd (tj_await JS server (tj_abort JS server v))) = cli v" for v
      using assms(5,6) by (simp_all add: joins_def ignores_def)
    show ?thesis
    proof (cases y)
      case (Some m)
      with t u Inr lu server_joined abort_and_drain_left [OF assms(7)] abort_and_drain_ignores [OF assms(8)]
      show ?thesis by (simp add: demo_tasks_def)
    next
      case None
      obtain z v where v: "join_io_tasks JC clients u = (z, v)" by (cases "join_io_tasks JC clients u")
      have lv: "cli v = cli s" "srv v = add_mset server (srv s)"
        using join_io_tasks_left [OF assms(7), of clients u] join_io_tasks_ignores [OF assms(8), of clients u] v lu by simp_all
      with t u v Inr None server_joined [of v] join_io_task_left [OF assms(5), of server v]
        join_io_task_ignores [OF assms(6), of server v]
      show ?thesis by (auto simp: demo_tasks_def split: sum.split prod.split)
    qed
  qed
qed

lemma bind_socket_keeps:
  assumes "\<And>v4. keeps (sk_socket K v4) f" "\<And>fd a. keeps (sk_bind K fd a) f" "\<And>fd n. keeps (sk_listen K fd n) f"
    and "\<And>fd s. f (sk_close K fd s) = f s"
  shows "keeps (bind_socket K address) f"
  unfolding keeps_def
proof
  fix s
  obtain r t where t: "sk_socket K (is_ipv4 address) s = (r, t)" by (cases "sk_socket K (is_ipv4 address) s")
  note ft = keepsD [OF assms(1) t]
  show "f (snd (bind_socket K address s)) = f s"
  proof (cases r)
    case (Inl e)
    with t ft show ?thesis by (simp add: bind_socket_def tcp_socket_def)
  next
    case (Inr fd)
    obtain x u where u: "sk_bind K fd address t = (x, u)" by (cases "sk_bind K fd address t")
    obtain y v where v: "sk_listen K fd 1024 u = (y, v)" by (cases "sk_listen K fd 1024 u")
    from t Inr u v ft keepsD [OF assms(2) u] keepsD [OF assms(3) v] assms(4) show ?thesis
      by (simp add: bind_socket_def tcp_socket_def split: sum.split)
  qed
qed

lemma bind_on_keeps:
  assumes "\<And>address. keeps (bind_socket K address) f"
  shows "keeps (bind_on K running addresses) f"
proof -
  have "keeps (bind_loop K addrs failure) f" for addrs failure
    unfolding keeps_def
  proof (induction addrs arbitrary: failure)
    case (Cons a addrs)
    show ?case
    proof
      fix s
      obtain r t where t: "bind_socket K a s = (r, t)" by (cases "bind_socket K a s")
      with keepsD [OF assms t] Cons show "f (snd (bind_loop K (a # addrs) failure s)) = f s"
        by (auto split: sum.splits)
    qed
  qed simp
  then show ?thesis by (auto simp: keeps_def bind_on_def Let_def split: prod.splits option.splits) (metis snd_conv)+
qed

section \<open>A request comes back in upper case\<close>

text \<open>
  The two ends of a connection with its two directions, the bytes under way to the server and to the
  client.
\<close>

type_synonym 'a pipe = "('a, u8 list) io_handle"

definition client_end :: "'a pipe \<Rightarrow> 'a pipe \<Rightarrow> ('a, u8 list \<times> u8 list) io_handle" where
  "client_end up down entry = (\<lambda>(a, b).
    (case entry of OpRecv fd len \<Rightarrow> (case down entry b of (r, b) \<Rightarrow> (r, a, b))
     | _ \<Rightarrow> (case up entry a of (r, a) \<Rightarrow> (r, a, b))))"

definition server_end :: "'a pipe \<Rightarrow> 'a pipe \<Rightarrow> ('a, u8 list \<times> u8 list) io_handle" where
  "server_end up down entry = (\<lambda>(a, b).
    (case entry of OpRecv fd len \<Rightarrow> (case up entry a of (r, a) \<Rightarrow> (r, a, b))
     | _ \<Rightarrow> (case down entry b of (r, b) \<Rightarrow> (r, a, b))))"

text \<open>An operation that only sees one direction acts on it as on a connection of its own.\<close>

definition sends_as :: "('a, 't) io_handle \<Rightarrow> ('a, 's) io_handle \<Rightarrow> ('s \<Rightarrow> 't) \<Rightarrow> bool" where
  "sends_as io' io f \<longleftrightarrow> (\<forall>fd cells flags s. io' (OpSend fd cells flags) (f s) = map_prod id f (io (OpSend fd cells flags) s))"

definition receives_as :: "('a, 't) io_handle \<Rightarrow> ('a, 's) io_handle \<Rightarrow> ('s \<Rightarrow> 't) \<Rightarrow> bool" where
  "receives_as io' io f \<longleftrightarrow> (\<forall>fd len s. io' (OpRecv fd len) (f s) = map_prod id f (io (OpRecv fd len) s))"

lemma ends_as:
  "sends_as (client_end up down) up (\<lambda>a. (a, b))" "receives_as (client_end up down) down (Pair a)"
  "sends_as (server_end up down) down (Pair a)" "receives_as (server_end up down) up (\<lambda>a. (a, b))"
  by (simp_all add: sends_as_def receives_as_def client_end_def server_end_def split: prod.split)

lemma await_op_lift:
  "io' entry (f s) = map_prod id f (io entry s)
    \<Longrightarrow> await_op io' entry complete fail (f s) = map_prod id f (await_op io entry complete fail s)"
  by (cases "io entry s") (simp add: await_op_def split: op_outcome.split)

lemma exact_loop_lift:
  assumes "\<And>buf k s. step' buf k (f s) = map_prod id f (step buf k s)"
  shows "exact_loop step' stuck whole k buf (f s) = map_prod id f (exact_loop step stuck whole k buf s)"
proof (induction "whole - k" arbitrary: k buf s rule: less_induct)
  case less
  show ?case
  proof (cases "k < whole")
    case True
    obtain r b t where t: "step buf k s = ((r, b), t)" by (metis prod.exhaust)
    with assms [of buf k s] have t': "step' buf k (f s) = ((r, b), f t)" by simp
    show ?thesis
    proof (cases r)
      case (Inl e)
      with t t' True show ?thesis by (simp add: exact_loop_step)
    next
      case (Inr n)
      show ?thesis
      proof (cases "n = 0")
        case False
        then have "whole - (k + n) < whole - k" using True by simp
        from less [OF this] t t' True Inr False show ?thesis by (simp add: exact_loop_step)
      qed (use t t' True Inr in \<open>simp add: exact_loop_step\<close>)
    qed
  qed simp
qed

lemma send_all_lift:
  "sends_as io' io f \<Longrightarrow> send_all nosignal io' fd b (f s) = map_prod id f (send_all nosignal io fd b s)"
proof -
  assume l: "sends_as io' io f"
  have "send_offset nosignal io' fd b k (f s) = map_prod id f (send_offset nosignal io fd b k s)" for b k s
    using l by (simp add: send_offset_def Let_def send_entry_def sends_as_def await_op_lift)
  from exact_loop_lift [where f = f and step = "send_offset nosignal io fd" and step' = "send_offset nosignal io' fd", OF this]
  show ?thesis by (simp add: send_all_def)
qed

lemma recv_exact_lift:
  "receives_as io' io f \<Longrightarrow> recv_exact io' fd b (f s) = map_prod id f (recv_exact io fd b s)"
proof -
  assume l: "receives_as io' io f"
  have "recv_offset io' fd b k (f s) = map_prod id f (recv_offset io fd b k s)" for b k s
    using l by (simp add: recv_offset_def Let_def recv_entry_def receives_as_def await_op_lift)
  from exact_loop_lift [where f = f and step = "recv_offset io fd" and step' = "recv_offset io' fd", OF this]
  show ?thesis by (simp add: recv_exact_def)
qed

abbreviation never :: "'s expiry" where
  "never \<equiv> (\<lambda>_ _. None)"

lemma timed_send_lift:
  "sends_as io' io f \<Longrightarrow> timed_send_all never nosignal io' fd b (f s) = map_prod id f (timed_send_all never nosignal io fd b s)"
  by (simp add: timed_send_all_def timed_def send_all_lift case_prod_beta)

lemma timed_recv_lift:
  "receives_as io' io f \<Longrightarrow> timed_recv_exact never io' fd b (f s) = map_prod id f (timed_recv_exact never io fd b s)"
  by (simp add: timed_recv_exact_def timed_def recv_exact_lift split: prod.split sum.split)

lemma send_frame_lift:
  "sends_as io' io f \<Longrightarrow> send_frame never nosignal io' fd xs (f s) = map_prod id f (send_frame never nosignal io fd xs s)"
  by (auto simp: send_frame_def timed_send_lift split: sum.split prod.split)

lemma recv_frame_lift:
  "receives_as io' io f \<Longrightarrow> recv_frame never io' fd (f s) = map_prod id f (recv_frame never io fd s)"
  by (auto simp: recv_frame_def timed_recv_lift Let_def split: sum.split prod.split)

text \<open>Changing the case of letters keeps a valid encoding.\<close>

lemma ascii_upper_high: "128 \<le> b \<Longrightarrow> ascii_upper b = b"
  by (auto simp: ascii_upper_def word_le_nat_alt)

lemma ascii_upper_low: "ascii_upper b < 128 \<longleftrightarrow> b < 128"
  by (auto simp: ascii_upper_def word_le_nat_alt word_less_nat_alt unat_sub)

lemma utf8_upper: "utf8_valid bytes \<Longrightarrow> utf8_valid (map ascii_upper bytes)"
proof (induction bytes rule: length_induct)
  case (1 bytes)
  have cont: "is_cont b \<Longrightarrow> ascii_upper b = b" for b by (simp add: is_cont_def ascii_upper_high)
  have IH: "length rest < length bytes \<Longrightarrow> utf8_valid rest \<Longrightarrow> utf8_valid (map ascii_upper rest)" for rest
    using 1(1) by blast
  show ?case
  proof (cases bytes)
    case (Cons a tail)
    show ?thesis
    proof (cases "a < 128")
      case True
      with 1(2) Cons IH [of tail] show ?thesis by (simp add: ascii_upper_low)
    next
      case False
      then have a: "ascii_upper a = a" by (simp add: ascii_upper_high not_less)
      consider (two) "194 \<le> a \<and> a \<le> 223" | (three) "\<not> (194 \<le> a \<and> a \<le> 223)" "224 \<le> a \<and> a \<le> 239"
        | (four) "\<not> (194 \<le> a \<and> a \<le> 223)" "\<not> (224 \<le> a \<and> a \<le> 239)" "240 \<le> a \<and> a \<le> 244"
        using 1(2) Cons False by (simp split: if_splits)
      then show ?thesis
      proof cases
        case two
        then obtain b rest where "tail = b # rest" "is_cont b" "utf8_valid rest"
          using 1(2) Cons False by (simp split: list.splits)
        with Cons False a two cont IH [of rest] show ?thesis by simp
      next
        case three
        then obtain b c rest where "tail = b # c # rest" "is_cont b" "(a = 224 \<longrightarrow> 160 \<le> b) \<and> (a = 237 \<longrightarrow> b \<le> 159)"
          "is_cont c" "utf8_valid rest"
          using 1(2) Cons False by (simp only: utf8_valid.simps if_False if_True simp_thms split: list.splits) blast
        with Cons False a three cont IH [of rest] show ?thesis
          by (simp only: utf8_valid.simps if_False if_True simp_thms list.map list.case) simp
      next
        case four
        then obtain b c d rest where "tail = b # c # d # rest" "is_cont b" "(a = 240 \<longrightarrow> 144 \<le> b) \<and> (a = 244 \<longrightarrow> b \<le> 143)"
          "is_cont c" "is_cont d" "utf8_valid rest"
          using 1(2) Cons False by (simp only: utf8_valid.simps if_False if_True simp_thms split: list.splits) blast
        with Cons False a four cont IH [of rest] show ?thesis
          by (simp only: utf8_valid.simps if_False if_True simp_thms list.map list.case) simp
      qed
    qed
  qed simp
qed

section \<open>Properties\<close>


text \<open>
  C39: a request sent by a client over a connection that splits transfers in any way is answered by the
  connection handler with its bytes in upper case, and the client accepts the answer: its comparison and
  its decoding succeed, the server counts the bytes of the request, and nothing stays under way.
\<close>

theorem request_comes_back:
  assumes "pipe_kernel up" "pipe_kernel down" "utf8_valid request" "length request \<le> MAX_FRAME_SIZE"
    and "sk_set_nodelay K stream True ([], []) = (Ok (), [], [])"
  shows "\<exists>s1 s2. client_request never nosignal K (client_end up down) stream request ([], []) = (Ok (), s1)
    \<and> handle_connection never nosignal (server_end up down) accepted s1 = (Ok (length request), s2)
    \<and> client_response never shown (client_end up down) stream i request s2
        = (Ok \<lparr>cr_id = i, cr_request = request, cr_response = map ascii_upper request\<rparr>, [], [])"
proof -
  let ?h = "to_be_bytes (word_of_nat (length request))" and ?answer = "map ascii_upper request"
  have out: "send_frame never nosignal up stream request [] = (Ok (), ?h @ request)"
    and rcv: "recv_frame never up accepted (?h @ request) = (Ok request, [])"
    using frame_roundtrip_lemma(1) [OF assms(1,4), where q = "[]"] frame_roundtrip_lemma(2) [OF assms(1,4), where rest = "[]"]
    by simp_all
  have answer: "send_frame never nosignal down accepted ?answer [] = (Ok (), ?h @ ?answer)"
    "recv_frame never down stream (?h @ ?answer) = (Ok ?answer, [])"
    using frame_roundtrip_lemma(1) [OF assms(2), where payload = ?answer and q = "[]"]
      frame_roundtrip_lemma(2) [OF assms(2), where payload = ?answer and rest = "[]"] assms(4) by simp_all
  have "client_request never nosignal K (client_end up down) stream request ([], []) = (Ok (), ?h @ request, [])"
    using send_frame_lift [OF ends_as(1) [of up down "[]"], of nosignal stream request "[]"] out assms(5)
    by (simp add: client_request_def)
  moreover have "handle_connection never nosignal (server_end up down) accepted (?h @ request, [])
      = (Ok (length request), [], ?h @ ?answer)"
    using recv_frame_lift [OF ends_as(4) [of up down "[]"], of accepted "?h @ request"] rcv
      send_frame_lift [OF ends_as(3) [of up down "[]"], of nosignal accepted ?answer "[]"] answer(1)
    by (simp add: handle_connection_def)
  moreover have "client_response never shown (client_end up down) stream i request ([], ?h @ ?answer)
      = (Ok \<lparr>cr_id = i, cr_request = request, cr_response = ?answer\<rparr>, [], [])"
    using recv_frame_lift [OF ends_as(2) [of up down "[]"], of stream "?h @ ?answer"] answer(2) utf8_upper [OF assms(3)]
    by (simp add: client_response_def from_utf8_def Let_def)
  ultimately show ?thesis by blast
qed

section \<open>Witnesses\<close>

text \<open>A socket layer on which every call succeeds.\<close>

definition sample_options :: "'s socket_options" where
  "sample_options = \<lparr>sk_socket = (\<lambda>_ s. (Ok 3, s)), sk_bind = (\<lambda>_ _ s. (Ok (), s)), sk_listen = (\<lambda>_ _ s. (Ok (), s)),
     sk_accept4 = (\<lambda>_ s. (Ok (4, None), s)), sk_recv = (\<lambda>_ _ s. (Ok [], s)), sk_send = (\<lambda>_ _ _ s. (Ok 0, s)),
     sk_shutdown_write = (\<lambda>_ s. (Ok (), s)), sk_local_addr = (\<lambda>_ _. Ok (Some (SocketAddr (IpV4 2130706433) 80))),
     sk_peer_addr = (\<lambda>_ _. Ok None), sk_close = (\<lambda>_ s. s), sk_take_error = (\<lambda>_ s. (Ok None, s)),
     sk_nodelay = (\<lambda>_ _. Ok True), sk_set_nodelay = (\<lambda>_ _ s. (Ok (), s)), sk_shutdown = (\<lambda>_ _ s. (Ok (), s))\<rparr>"

text \<open>Servers and clients yet to be joined; the third client cannot be spawned.\<close>

type_synonym sample_tasks = "nat multiset \<times> nat multiset"

definition sample_servers :: "(nat, nat, unit, sample_tasks) joining" where
  "sample_servers = \<lparr>tj_await = (\<lambda>h (a, b). (Ok (Ok 9), a - {#h#}, b)), tj_abort = (\<lambda>h s. s), tj_text = (\<lambda>_. ''join'')\<rparr>"

definition sample_clients :: "(nat, ClientResult, unit, sample_tasks) joining" where
  "sample_clients = \<lparr>tj_await = (\<lambda>h (a, b). (Ok (Err (OsError 5)), a, b - {#h#})), tj_abort = (\<lambda>h s. s),
     tj_text = (\<lambda>_. ''join'')\<rparr>"

definition sample_spawn_server :: "raw_fd \<Rightarrow> sample_tasks \<Rightarrow> (nat, string) rust_result \<times> sample_tasks" where
  "sample_spawn_server l = (\<lambda>(a, b). (Ok 0, add_mset 0 a, b))"

definition sample_spawn_client :: "SocketAddr \<Rightarrow> nat \<Rightarrow> string \<Rightarrow> sample_tasks \<Rightarrow> (nat, string) rust_result \<times> sample_tasks" where
  "sample_spawn_client address i m = (\<lambda>(a, b). if i < 2 then (Ok i, a, add_mset i b) else (Err ''full'', a, b))"

lemma sample_tasks_contract:
  "joins sample_servers fst" "ignores sample_servers snd" "joins sample_clients snd" "ignores sample_clients fst"
  "spawns (sample_spawn_server l) fst" "keeps (sample_spawn_server l) snd"
  "spawns (sample_spawn_client address i m) snd" "keeps (sample_spawn_client address i m) fst"
  by (auto simp: joins_def ignores_def spawns_def keeps_def sample_servers_def sample_clients_def
      sample_spawn_server_def sample_spawn_client_def)

lemma sample_options_keeps: "keeps (bind_socket sample_options address) f" "f (sk_close sample_options fd s) = f s"
  by (simp_all add: keeps_def bind_socket_def tcp_socket_def sample_options_def)


theorem request_comes_back_witness:
  "\<exists>s1 s2. client_request never 16384 sample_options (client_end sample_pipe sample_pipe) 5 [104, 105] ([], []) = (Ok (), s1)
    \<and> handle_connection never 16384 (server_end sample_pipe sample_pipe) 6 s1 = (Ok 2, s2)
    \<and> client_response never (\<lambda>_. ''text'') (client_end sample_pipe sample_pipe) 5 0 [104, 105] s2
        = (Ok \<lparr>cr_id = 0, cr_request = [104, 105], cr_response = [72, 73]\<rparr>, [], [])"
proof -
  have "utf8_valid [104, 105]" "length [104, 105 :: u8] \<le> MAX_FRAME_SIZE"
    "sk_set_nodelay sample_options 5 True ([], []) = (Ok (), [] :: u8 list, [] :: u8 list)"
    "map ascii_upper [104, 105] = [72, 73]"
    by (simp_all add: MAX_FRAME_SIZE_def sample_options_def ascii_upper_def)
  from request_comes_back [OF sample_pipe_kernel sample_pipe_kernel this(1-3), of 16384 6 "\<lambda>_. ''text''" 0] this(4)
  show ?thesis by (simp add: numeral_2_eq_2)
qed

end
