(* ===== verification/Handles.thy ===== *)
theory Handles
  imports Task_Spawn Topology Memory_Stats Block_On Uring_Futures
begin

text \<open>
  The capabilities that a \<open>Runtime\<close> and a \<open>Handle\<close> of \<open>src/runtime.rs\<close> give out, \<open>IoHandle\<close> of
  \<open>src/io.rs\<close>, and the methods of \<open>JoinHandle\<close>, \<open>AbortHandle\<close> and \<open>TaskBuilder\<close> that delegate to the
  task core. A capability is its weak runtime reference: there is one driver of each kind per runtime.
\<close>

definition handle_topology :: "'tc RuntimeCore \<Rightarrow> int \<Rightarrow> ('tc RuntimeCore option, RuntimeClosed) rust_result" where
  "handle_topology core getpid =
    (case ensure_running core getpid of Inl e \<Rightarrow> Err e | Inr _ \<Rightarrow> Ok (Some core))"

definition handle_io_handle :: "'tc RuntimeCore \<Rightarrow> int \<Rightarrow> ('tc RuntimeCore option, RuntimeClosed) rust_result" where
  "handle_io_handle core getpid =
    (case ensure_running core getpid of Inl e \<Rightarrow> Err e | Inr _ \<Rightarrow> Ok (Some core))"

text \<open>\<open>runtimes\<close> gives the core behind the handle that is installed for the thread.\<close>

definition io_handle_try_current ::
  "(handle_id \<Rightarrow> 'tc RuntimeCore) \<Rightarrow> Tls \<Rightarrow> int \<Rightarrow> ('tc RuntimeCore option, RuntimeClosed) rust_result" where
  "io_handle_try_current runtimes tls getpid =
    (case handle_try_current tls of Inl e \<Rightarrow> Err e | Inr handle \<Rightarrow> handle_io_handle (runtimes handle) getpid)"

definition runtime_io_handle :: "'tc RuntimeCore \<Rightarrow> 'tc RuntimeCore option" where
  "runtime_io_handle core = Some core"

definition builder_spawn ::
  "'z nosv_scheme \<Rightarrow> affinity_abi \<Rightarrow> int \<Rightarrow> TaskConfig \<Rightarrow> 'f \<Rightarrow> ('f, 'a, 'p) World
    \<Rightarrow> ((TaskId, SpawnError) rust_result \<times> ('f, 'a, 'p) World) exec" where
  "builder_spawn N A getpid config f w = spawn_on N A getpid config f w"

definition join_handle_abort ::
  "'z nosv_scheme \<Rightarrow> runtime_ref \<Rightarrow> int \<Rightarrow> NativeGate \<times> nlog \<Rightarrow> (bool \<times> NativeGate \<times> nlog) exec" where
  "join_handle_abort N rt getpid = request_abort N rt getpid"

definition abort_handle_abort ::
  "'z nosv_scheme \<Rightarrow> runtime_ref \<Rightarrow> int \<Rightarrow> NativeGate \<times> nlog \<Rightarrow> (bool \<times> NativeGate \<times> nlog) exec" where
  "abort_handle_abort N rt getpid = request_abort N rt getpid"

text \<open>A runtime that was shut down, or that a forked child inherited.\<close>

definition unusable :: "'tc RuntimeCore \<Rightarrow> int \<Rightarrow> bool" where
  "unusable core getpid \<longleftrightarrow> lifecycle (rc_state core) \<noteq> Running \<or> \<not> process_matches core getpid"

lemma unusable_ensure_running: "ensure_running core getpid = Err RuntimeClosed \<longleftrightarrow> unusable core getpid"
  by (auto simp: ensure_running_def unusable_def)

lemma unusable_spawn:
  assumes "unusable (w_core w) getpid"
  shows "\<exists>e. spawn_on N A getpid config f w = Return (Err e, w)"
  using assms by (auto simp: spawn_on_def unusable_def split: sum.split)

text \<open>The first poll of an operation of \<open>IoHandle\<close> fails it on the spot and touches nothing else.\<close>

lemma unusable_owned_poll:
  assumes "unusable core getpid"
  shows "\<exists>st. owned_poll_submit E (Some core) getpid (owned_op_new i work, w)
      = Return (((owned_op_new i work)\<lparr>oo_handler := None\<rparr>, w\<lparr>uw_store := (uw_store w)(i := st)\<rparr>), os_waker (uw_store w i))
    \<and> os_completed st \<and> os_result st = Some (ow_fail (ue_work E) work runtime_closed_error)"
proof -
  from assms have r: "weak_ensure_running (Some core) getpid = Err RuntimeClosed"
    by (simp add: weak_ensure_running_def unusable_ensure_running)
  let ?p = "store_and_publish (ow_fail (ue_work E) work runtime_closed_error) (uw_store w i)"
  have "fst ?p = os_waker (uw_store w i)" "os_completed (snd ?p)"
    "os_result (snd ?p) = Some (ow_fail (ue_work E) work runtime_closed_error)" by simp_all
  then show ?thesis
    by (intro exI [of _ "snd ?p"])
       (simp add: owned_poll_submit_def owned_op_new_def r handler_fail_def case_prod_beta Let_def)
qed

end
