(* ===== verification/Spec2Isabelle.thy ===== *)
theory Spec2Isabelle
  imports Task_System Memory_Stats Uring_Service Teardown Io_Works Demo Handles
begin

text \<open>
  Verification of the crate \<open>nosv\<close>: an asynchronous runtime for Rust whose tasks are descriptors of the
  nOS-V tasking library, with a timer driver and an io_uring driver that are nOS-V tasks themselves.

  The parts and how they interact. A \<open>Runtime\<close> (\<open>src/runtime.rs\<close>) initialises the native library, creates
  two task types and starts both drivers. \<open>spawn\<close> (\<open>src/task.rs\<close>) registers a task with the runtime core,
  creates a descriptor whose metadata owns the task, and submits it; nOS-V then runs the task's callback,
  which polls the user's future. A waker submits the descriptor again, an abort handle has the next callback
  end the task, the completed callback destroys the descriptor and publishes the result to the join handle.
  \<open>block_on\<close> attaches the calling thread and drives one future with a parker. Sleeps and timeouts
  (\<open>src/time.rs\<close>) put a deadline into the heap of the timer driver. Files and sockets (\<open>src/fs.rs\<close>,
  \<open>src/net.rs\<close>) hand operations that own their buffers (\<open>src/io.rs\<close>) to the ring driver
  (\<open>src/io_uring.rs\<close>), which also serves iterators of raw entries, and await their completion. Shutdown
  closes the core, aborts every task, drains the registry, stops the drivers and gives the library back.

  Conventions. A section under one mutex is one function on what the mutex protects. A call ends by
  \<open>Return\<close>, by a \<open>Panic\<close> that unwinds, or by an \<open>Abort\<close> of the process (\<open>exec\<close> of \<open>Prelude\<close>); a Rust
  \<open>Result\<close> is a sum with \<open>Ok\<close> and \<open>Err\<close>. Integers have their Rust width where they can wrap. Objects
  behind an \<open>Arc\<close> are indices into a store, boxed contexts are addresses. Code outside \<open>src/\<close> is a
  parameter: the C library (record \<open>nosv\<close>, each function of the log of native calls so far), the C
  constants, the \<open>io-uring\<close> crate and the kernel (\<open>ring_lib\<close>, \<open>ring_setup\<close>), the lock-free queue
  (\<open>ubq\<close>), the socket calls (\<open>socket_calls\<close>), the user's futures, closures and iterators. What a
  theorem needs of them is a named hypothesis: \<open>driver_contract\<close>, \<open>park_contract\<close>, \<open>run_contract\<close>,
  \<open>teardown_contract\<close> (nOS-V), \<open>alloc_ok\<close> (a new box has an address that is not in use), \<open>ubq_fifo\<close>, \<open>prompt_ring\<close>,
  \<open>kernel_legal\<close> (completions a kernel may produce), \<open>socket_kernel\<close>, \<open>file_kernel\<close>,
  \<open>pipe_kernel\<close>, \<open>stores_honestly\<close> (what a kernel reports as read it has stored).
  Every property with hypotheses has a witness that discharges them for concrete functions.

  Theories and the code they model.
  \<^item> \<open>Prelude\<close>: the vocabulary, the map \<open>hashmap\<close> of the code's hash tables, and the shared lemmas.
  \<^item> \<open>Nosv_Error\<close> (\<open>src/error.rs\<close>) and \<open>Ffi\<close> (\<open>src/ffi.rs\<close>): errors with their texts and sources; the
    wrappers of native calls. \<open>submits\<close>, \<open>destroys\<close> and \<open>no_use_after_destroy\<close> read the log of calls.
  \<^item> \<open>Runtime_Core\<close>, \<open>Handles\<close>, \<open>Block_On\<close>, \<open>Runtime_Lifecycle\<close> (\<open>src/runtime.rs\<close>): the core and
    its registry, the capabilities, the root future, construction with rollback and shutdown.
  \<^item> \<open>Topology\<close>, \<open>Affinity\<close>, \<open>Memory_Stats\<close>: the files of these names.
  \<^item> \<open>Task_Gate\<close> (\<open>NativeGate\<close> and the methods of \<open>TaskCore\<close>), \<open>Join_State\<close> (the join cell),
    \<open>Task_Run\<close> (\<open>run_once\<close>), \<open>Task_Spawn\<close> (builder, \<open>spawn_on\<close>, native callbacks), \<open>Task_System\<close> (one
    task with all its threads as a transition system): \<open>src/task.rs\<close>.
  \<^item> \<open>Driver_Gate\<close> (how a driver parks and is notified), \<open>Timer\<close> (\<open>src/time.rs\<close>), \<open>Driver_Callbacks\<close>
    (the native callbacks of both drivers).
  \<^item> \<open>Io_Buffers\<close> (\<open>src/io.rs\<close>), \<open>Uring_Config\<close> (configuration and \<open>PreparedRing\<close>), \<open>Uring_Submission\<close>
    (one submitted iterator), \<open>Uring_Contexts\<close> (the tables of contexts; admission, staging,
    submission), \<open>Uring_Raw\<close> (dispatch to iterators), \<open>Uring_Owned\<close> (completion-native operations),
    \<open>Uring_Driver\<close> (pass, run loop, shutdown), \<open>Uring_Futures\<close> (the futures of callers): \<open>src/io_uring.rs\<close>
    and the driver side of \<open>src/io.rs\<close>.
  \<^item> \<open>Uring_Invariant\<close>, \<open>Uring_System\<close>, \<open>Uring_Properties\<close>, \<open>Uring_Results\<close>, \<open>Uring_Staging\<close>,
    \<open>Uring_Load\<close>, \<open>Uring_Shutdown\<close>, \<open>Uring_Life\<close>, \<open>Uring_Service\<close>: what holds of driver, clients and kernel together.
  \<^item> \<open>Io_Works\<close>: the implementations of \<open>OpWork\<close>, and the methods of files and sockets over the ring driver.
  \<^item> \<open>Teardown\<close>: the end of a runtime together with the ends of its two drivers.
  \<^item> \<open>Io_Transfer\<close>, \<open>File_Io\<close> (\<open>src/fs.rs\<close>), \<open>Tcp_Net\<close> and \<open>Tcp_Api\<close> (\<open>src/net.rs\<close>), \<open>Framing\<close> and
    \<open>Demo\<close> (\<open>src/examples/net_io_poc.rs\<close>).

  What the lemmas show.
  \<^item> Tasks: \<open>run_once\<close> returns and meets its specification under every interference; the inductive
    invariant of \<open>Task_System\<close> gives that no interleaving aborts, that a wake is never lost, that a
    successful abort wins, and that the joiner sees a result only when the descriptor is gone. A failed
    spawn leaves nothing, a successful one starts inside the invariant.
  \<^item> Interfaces: the locales \<open>coalescing_waker\<close> (gate and parker), \<open>wake_cell\<close> (join cell, timer state,
    result cell), \<open>park_gate\<close> (both drivers) and \<open>transfer\<close> (reads, writes, receives, sends) state a
    contract once; each is interpreted on the code's definitions, and the properties rest on that.
  \<^item> Timers: a pass fires exactly what is due; the run callback returns once shutdown is requested.
  \<^item> Ring: \<open>uring_inv\<close> accounts for every context, staged entry, cancellation, counter and handler in all
    interleavings; from it follow that no legal completion aborts the process, that a drained iterator
    is unknown to the kernel, that the ring is given up only when everything admitted has ended, and that an
    awaited result is that of one's own operation. A real pass refines the relation. The work
    left, \<open>world_load\<close>, decreases with every pass: so everything admitted is served (\<open>Uring_Service\<close>), and
    after a shutdown request the loop returns (\<open>Uring_Life\<close>).
  \<^item> Files and sockets: what is written is read back however transfers are split; no path leaks a socket;
    buffers stay sound; awaited through the driver, in every interleaving, an operation is its method and
    gives its buffer back (\<open>Io_Works\<close>); frames and the whole request and answer of the demonstration come back.
  \<^item> Runtime: construction is transactional, shutdown cancels, balances and is final, its teardown completes
    with the real loops of both drivers, and a closed or forked runtime is inert.

  Bounds and fuel. Loops without a structural argument run on fuel and give \<open>None\<close> when it ends.
  \<^item> \<open>block_loop\<close> needs more fuel than the future has pending polls (\<open>block_on_returns_output\<close>).
  \<^item> \<open>timer_run\<close> needs one iteration after the one that sees the request (\<open>timer_driver_life\<close>).
  \<^item> \<open>uring_run\<close> needs more than \<open>world_load\<close>, the work left when shutdown is requested
    (\<open>uring_driver_life\<close>).
  \<^item> \<open>accept_loop\<close>, \<open>poll_read\<close> and \<open>poll_write\<close> repeat as long as the kernel interrupts them or reports
    a readiness that is gone when they try again; the code has no bound, so what is proved of them
    holds for every fuel. \<open>serve_loop\<close> accepts a given number of connections.
  \<^item> Whole transfers end because every round moves at least one byte or stops.

  Not modelled, and why.
  \<^item> \<open>lib.rs\<close>, \<open>util.rs\<close>, \<open>bin/test.rs\<close> and the unit tests: re-exports, a lock that ignores poisoning, and
    checks of the code, not code of the runtime. Likewise \<open>main\<close> and the printing of the example.
  \<^item> \<open>Debug\<close>, \<open>AsFd\<close>, \<open>AsRawFd\<close> and the \<open>Sync\<close> and \<open>Send\<close> markers: they have no behaviour.
  \<^item> Memory ordering below the mutexes: sections are atomic, atomics are read and written in one order.
  \<^item> A waker of another runtime that panics or blocks: wakers are values that are collected and called.
  \<^item> Exhausted memory beyond the boxes of contexts, where it is an abort.
\<close>

section \<open>From a spawn to the life of the task\<close>

lemma no_use_after_destroy_fresh: "destroys p h = 0 \<Longrightarrow> no_use_after_destroy p h"
  by (induction h) (auto split: if_splits)

text \<open>The state of the transition system right after a spawn.\<close>

definition spawned_sys :: "('f, 'a, 'p) Runnable \<Rightarrow> nlog \<Rightarrow> ('f, 'a, 'p) Sys" where
  "spawned_sys c h = \<lparr>sy_task = c, sy_log = h, sy_pc = CbIdle, sy_entries = 0, sy_woken = [],
     sy_delivered = []\<rparr>"

lemma spawned_sys_init:
  assumes "world_ids w" and "spawn_on N A getpid config f w = Return (Ok i, w')"
    and "fst (ffi_create N (task_type (w_core w)) owner_pointer_size (w_log w)) = Ok (RawTask p)"
    and "submits p (w_log w) = 0" "destroys p (w_log w) = 0" "hm_get (w_tasks w') i = Some c"
  shows "sys_init p (spawned_sys c (w_log w'))"
proof -
  from spawn_on_Ok [OF assms(1,2)] assms(3,6) obtain calls where
    c: "c = set_gate \<lparr>ng_task = Some (RawTask p), ng_phase = Live, wake_submitted = True,
      polling = False, cancel_requested = False\<rparr> (new_runnable i config f)"
    and log: "w_log w' = w_log w @ [CCreate (raw_type_as_ptr (task_type (w_core w))) owner_pointer_size,
      CMetadata p] @ calls @ [CSubmit p (NOSV_SUBMIT_NONE N)]"
    and calls: "submits p calls = 0" "destroys p calls = 0" by auto
  have "destroys p (w_log w') = 0" "submits p (w_log w') = 1"
    unfolding log using assms(4,5) calls by simp_all
  then show ?thesis
    by (simp add: sys_init_def spawned_sys_def c no_use_after_destroy_fresh new_runnable_def)
qed

text \<open>
  C12: a task that was just spawned satisfies everything shown of the life of a task: from there on,
  under every interleaving of wakes, aborts, callbacks, other tasks' native calls and joins, no
  internal invariant of the code fails, its descriptor is never used after its destruction, and its
  result is delivered only when future and descriptor are gone.
\<close>

theorem spawned_task_is_safe:
  assumes "world_ids w" and "spawn_on N A getpid config f w = Return (Ok i, w')"
    and "fst (ffi_create N (task_type (w_core w)) owner_pointer_size (w_log w)) = Ok (RawTask p)"
    and "submits p (w_log w) = 0" "destroys p (w_log w) = 0" "hm_get (w_tasks w') i = Some c"
    and "descriptor_contract N p" "sys_steps N U p (spawned_sys c (w_log w')) t"
  shows "\<not> sys_aborts N U p t \<and> no_use_after_destroy p (sy_log t)
    \<and> (sy_delivered t \<noteq> [] \<longrightarrow> destroys p (sy_log t) = 1 \<and> rn_future (sy_task t) = None)"
proof -
  from task_inv_reachable [OF spawned_sys_init [OF assms(1-6)] assms(8)] have inv: "task_inv p t" .
  with task_inv_no_abort [OF assms(7)] show ?thesis by (auto simp: task_inv_def)
qed

theorem spawned_task_is_safe_witness:
  "\<exists>w' c. spawn_on sample_nosv sample_abi 42 task_config_default 0 (sample_world 42)
        = Return (Ok (TaskId 1), w')
    \<and> hm_get (w_tasks w') (TaskId 1) = Some c
    \<and> \<not> sys_aborts sample_nosv sample_future 64 (spawned_sys c (w_log w'))"
proof -
  obtain w' c where run: "spawn_on sample_nosv sample_abi 42 task_config_default 0 (sample_world 42)
        = Return (Ok (TaskId 1), w')" and c: "hm_get (w_tasks w') (TaskId 1) = Some c"
    by (simp add: spawn_on_def process_matches_def sample_world_def new_runtime_core_def
        task_config_default_def next_task_id_def Let_def ffi_defs apply_attributes_def
        spawn_submit_def raw_task_from_ptr_def)
  have create: "fst (ffi_create sample_nosv (task_type (w_core (sample_world 42 :: (nat, nat, unit) World)))
      owner_pointer_size (w_log (sample_world 42 :: (nat, nat, unit) World))) = Ok (RawTask 64)"
    by (simp add: ffi_create_def raw_task_from_ptr_def sample_world_def)
  have logs: "submits 64 (w_log (sample_world 42 :: (nat, nat, unit) World)) = 0"
    "destroys 64 (w_log (sample_world 42 :: (nat, nat, unit) World)) = 0"
    by (simp_all add: sample_world_def)
  from spawned_task_is_safe [OF world_ids_sample run create logs c descriptor_contract_sample
      rtranclp.rtrancl_refl] run c
  show ?thesis by blast
qed

section \<open>A runtime that was closed or that a child process inherited\<close>

lemma unusable_memory_stats: "unusable core getpid \<Longrightarrow> handle_memory_stats M core getpid = Err NotInitialized"
  by (simp add: unusable_def handle_memory_stats_def)

lemma unusable_live_runtime: "unusable core getpid \<Longrightarrow> \<not> live_runtime (Some core) getpid"
  by (auto simp: unusable_def live_runtime_iff process_matches_def)

lemma unusable_handle_spawn: "unusable (w_core w) getpid \<Longrightarrow> handle_spawn N A getpid f w
    = Return (Err (if process_matches (w_core w) getpid then SpawnRuntimeClosed else SpawnForkedProcess), w)"
  by (simp add: handle_spawn_def spawn_on_def unusable_def task_config_default_def)

lemma unusable_sleep_poll:
  assumes "unusable core getpid" "now < sl_deadline sl" "\<not> sl_driver sl" "tw_states tw (sl_state sl) = timer_state_new"
  shows "\<exists>msg. sleep_poll N (Some core) getpid now k (sl, tw) = Panic msg"
  using assms by (simp add: sleep_poll_def ts_poll_def timer_state_new_def unusable_ensure_running [THEN iffD2] Let_def)



end
